(* ===== verification/Prelude.thy ===== *)
theory Prelude
  imports Main "HOL-Library.Word" "HOL-Library.Multiset" "HOL-Library.List_Lexorder" "HOL-Library.Char_ord"
begin

text \<open>
  Shared vocabulary of the development: the machine types of the Go source, the generic
  facts on lists, association lists and folds that the component theories use, and the
  collections of rewrite rules they share.

  A Go \<^verbatim>\<open>string\<close> is a sequence of bytes and is modelled by \<^typ>\<open>string\<close>, whose
  characters are bytes; a \<^verbatim>\<open>[]byte\<close> is a list of 8-bit words. A Go \<^verbatim>\<open>map\<close> that the
  source ranges over is an association list with distinct keys: its order stands for the
  order of one \<^verbatim>\<open>range\<close> loop, which Go leaves open, so a fact about a ranging function
  is stated for every order of the list.
\<close>

type_synonym byte = "8 word"
type_synonym bytes = "8 word list"
type_synonym u16 = "16 word"
type_synonym u32 = "32 word"

text \<open>Rewrite rules of the Go library model, and introduction rules for well-formed findings.\<close>

named_theorems go_simps
named_theorems wf_intros

unbundle bit_operations_syntax

section \<open>Options and filters\<close>

text \<open>The non-nil entries of a record section.\<close>

definition somes :: "'a option list \<Rightarrow> 'a list" where
  "somes xs = List.map_filter (\<lambda>x. x) xs"

lemma somes_simps [simp]:
  "somes [] = []"
  "somes (None # xs) = somes xs"
  "somes (Some x # xs) = x # somes xs"
  by (simp_all add: somes_def List.map_filter_def)

lemma somes_append [simp]: "somes (xs @ ys) = somes xs @ somes ys"
  by (simp add: somes_def List.map_filter_def)

lemma somes_map_Some [simp]: "somes (map Some xs) = xs"
  by (induction xs) auto

lemma set_somes: "x \<in> set (somes xs) \<longleftrightarrow> Some x \<in> set xs"
  by (induction xs) (auto simp: somes_def List.map_filter_def split: option.splits)

lemma somes_Cons: "somes (x # xs) = (case x of None \<Rightarrow> somes xs | Some y \<Rightarrow> y # somes xs)"
  by (cases x) simp_all

lemma length_somes_le: "length (somes xs) \<le> length xs"
  by (induction xs) (auto simp: somes_Cons split: option.splits)

lemma somes_concat: "somes (concat xss) = concat (map somes xss)"
  by (induction xss) auto

lemma set_map_filter: "set (List.map_filter f xs) = {y. \<exists>x \<in> set xs. f x = Some y}"
  by (force simp: List.map_filter_def)

section \<open>Removing duplicates in order of first occurrence\<close>

text \<open>The \<^verbatim>\<open>seen\<close>-map idiom of the source: keep an element when its key is new.\<close>

fun dedup_on :: "('a \<Rightarrow> 'k) \<Rightarrow> 'k list \<Rightarrow> 'a list \<Rightarrow> 'a list" where
  "dedup_on f seen [] = []"
| "dedup_on f seen (x # xs) =
     (if f x \<in> set seen then dedup_on f seen xs else x # dedup_on f (f x # seen) xs)"

lemma set_dedup_on_subset: "set (dedup_on f seen xs) \<subseteq> set xs"
  by (induction xs arbitrary: seen) auto

lemma image_dedup_on: "f ` set (dedup_on f seen xs) = f ` set xs - set seen"
proof (induction xs arbitrary: seen)
  case (Cons x xs)
  then show ?case by (cases "f x \<in> set seen") auto
qed simp

lemma distinct_dedup_on: "distinct (map f (dedup_on f seen xs))"
proof (induction xs arbitrary: seen)
  case (Cons x xs)
  have "f x \<notin> f ` set (dedup_on f (f x # seen) xs)"
    unfolding image_dedup_on by simp
  then show ?case using Cons by (cases "f x \<in> set seen") auto
qed simp

lemma set_dedup_on_id [simp]: "set (dedup_on (\<lambda>x. x) [] xs) = set xs"
  using image_dedup_on [of "\<lambda>x. x" "[]" xs] by simp

lemma distinct_dedup_on_id [simp]: "distinct (dedup_on (\<lambda>x. x) seen xs)"
  using distinct_dedup_on [of "\<lambda>x. x" seen xs] by simp

lemma length_dedup_on_le: "length (dedup_on f seen xs) \<le> length xs"
  by (induction xs arbitrary: seen) (auto intro: le_SucI)

text \<open>Lists with one value are determined by their multiset.\<close>

lemma mset_eq_all_same:
  assumes "mset xs = mset ys" and "\<And>a b. a \<in> set xs \<Longrightarrow> b \<in> set xs \<Longrightarrow> a = b"
  shows "xs = ys"
proof (cases xs)
  case Nil
  then show ?thesis using assms(1) by simp
next
  case (Cons a as)
  have sets: "set xs = set ys" using assms(1) by (metis set_mset_mset)
  have "xs = replicate (length xs) a" and "ys = replicate (length ys) a"
    using assms(2) [of a] Cons sets by (intro replicate_eqI; force)+
  moreover have "length xs = length ys" using assms(1) by (metis size_mset)
  ultimately show ?thesis by metis
qed

section \<open>Association lists as Go maps of slices\<close>

text \<open>\<^verbatim>\<open>m[k] = append(m[k], v)\<close>: a missing key reads as the nil slice.\<close>

fun add_to :: "'k \<Rightarrow> 'v \<Rightarrow> ('k \<times> 'v list) list \<Rightarrow> ('k \<times> 'v list) list" where
  "add_to k v [] = [(k, [v])]"
| "add_to k v ((k', vs) # m) = (if k = k' then (k', vs @ [v]) # m else (k', vs) # add_to k v m)"

text \<open>\<^verbatim>\<open>m[k]\<close> of a map of slices.\<close>

definition slot :: "('k \<times> 'v list) list \<Rightarrow> 'k \<Rightarrow> 'v list" where
  "slot m k = (case map_of m k of None \<Rightarrow> [] | Some vs \<Rightarrow> vs)"

lemma slot_Nil [simp]: "slot [] k = []"
  by (simp add: slot_def)

lemma slot_add_to: "slot (add_to k v m) k' = (if k = k' then slot m k @ [v] else slot m k')"
  by (induction m) (auto simp: slot_def)

lemma fst_set_add_to: "fst ` set (add_to k v m) = insert k (fst ` set m)"
  by (induction k v m rule: add_to.induct) auto

lemma distinct_add_to: "distinct (map fst m) \<Longrightarrow> distinct (map fst (add_to k v m))"
proof (induction k v m rule: add_to.induct)
  case (2 k v k' vs m)
  then show ?case using fst_set_add_to [of k v m] by auto
qed simp

text \<open>Every slot a fold of \<open>add_to\<close> builds is the filtered input, in order.\<close>

lemma slot_fold_add_to:
  "slot (fold (\<lambda>x. add_to (f x) (g x)) xs m) k = slot m k @ map g (filter (\<lambda>x. f x = k) xs)"
  by (induction xs arbitrary: m) (auto simp: slot_add_to)

lemma distinct_fold_add_to:
  "distinct (map fst m) \<Longrightarrow> distinct (map fst (fold (\<lambda>x. add_to (f x) (g x)) xs m))"
  by (induction xs arbitrary: m) (auto simp: distinct_add_to)

text \<open>\<^verbatim>\<open>m[k] = v\<close>.\<close>

fun put :: "'k \<Rightarrow> 'v \<Rightarrow> ('k \<times> 'v) list \<Rightarrow> ('k \<times> 'v) list" where
  "put k v [] = [(k, v)]"
| "put k v ((k', v') # m) = (if k = k' then (k', v) # m else (k', v') # put k v m)"

lemma map_of_put [simp]: "map_of (put k v m) = (map_of m)(k \<mapsto> v)"
  by (induction k v m rule: put.induct) auto

lemma fst_set_put: "fst ` set (put k v m) = insert k (fst ` set m)"
  by (induction k v m rule: put.induct) auto

lemma distinct_put: "distinct (map fst m) \<Longrightarrow> distinct (map fst (put k v m))"
proof (induction k v m rule: put.induct)
  case (2 k v k' v' m)
  then show ?case using fst_set_put [of k v m] by auto
qed simp

lemma map_of_perm:
  assumes "distinct (map fst m)" and "mset m = mset m'"
  shows "map_of m = map_of m'"
proof -
  have "mset (map fst m) = mset (map fst m')"
    using assms(2) by (metis mset_map)
  then have "distinct (map fst m')"
    using assms(1) by (metis mset_eq_imp_distinct_iff)
  then show ?thesis
    using assms by (metis map_of_inject_set mset_eq_setD)
qed

end
