(* ===== verification/GoEncoding.thy ===== *)
theory GoEncoding
  imports GoStrings
begin

text \<open>
  The parts of \<^verbatim>\<open>encoding/hex\<close>, \<^verbatim>\<open>encoding/base64\<close>, \<^verbatim>\<open>encoding/base32\<close> and
  \<^verbatim>\<open>encoding/binary\<close> that the source calls. A decoder returns \<^term>\<open>None\<close> where Go
  returns an error; no caller in the source looks at the partial output of a failed decode.
\<close>

section \<open>Strings and byte slices\<close>

definition byte_of_char :: "char \<Rightarrow> byte" where
  "byte_of_char c = word_of_nat (of_char c)"

definition char_of_byte :: "byte \<Rightarrow> char" where
  "char_of_byte b = char_of (unat b)"

definition bytes_of :: "string \<Rightarrow> bytes" where
  "bytes_of s = map byte_of_char s"

definition string_of :: "bytes \<Rightarrow> string" where
  "string_of bs = map char_of_byte bs"

lemma unat_byte_less: "unat (b :: byte) < 256"
proof -
  have "unat b < 2 ^ LENGTH(8)" by (rule unsigned_less)
  then show ?thesis by simp
qed

lemma unat_byte_of_char [simp]: "unat (byte_of_char c) = of_char c"
  by (simp add: byte_of_char_def unat_of_nat take_bit_eq_mod)

lemma char_of_byte_of_char [simp]: "char_of_byte (byte_of_char c) = c"
  by (simp add: char_of_byte_def)

lemma byte_of_char_of_byte [simp]: "byte_of_char (char_of_byte b) = b"
proof -
  have "unat b < 256" using unat_byte_less [of b] by simp
  then show ?thesis by (simp add: byte_of_char_def char_of_byte_def)
qed

lemma string_of_bytes_of [simp]: "string_of (bytes_of s) = s"
  by (simp add: string_of_def bytes_of_def comp_def)

lemma bytes_of_string_of [simp]: "bytes_of (string_of bs) = bs"
  by (simp add: string_of_def bytes_of_def comp_def)

lemma string_of_inject [simp]: "string_of a = string_of b \<longleftrightarrow> a = b"
  by (metis bytes_of_string_of)

lemma length_bytes_of [simp]: "length (bytes_of s) = length s"
  by (simp add: bytes_of_def)

section \<open>Big-endian integers\<close>

definition be16 :: "u16 \<Rightarrow> bytes" where
  "be16 w = [ucast (drop_bit 8 w), ucast w]"

definition be32 :: "u32 \<Rightarrow> bytes" where
  "be32 w = [ucast (drop_bit 24 w), ucast (drop_bit 16 w), ucast (drop_bit 8 w), ucast w]"

text \<open>Reading a big-endian number, the reference for both.\<close>

definition be_val :: "bytes \<Rightarrow> nat" where
  "be_val bs = foldl (\<lambda>n b. n * 256 + unat b) 0 bs"

lemma length_be16 [simp]: "length (be16 w) = 2"
  by (simp add: be16_def)

lemma length_be32 [simp]: "length (be32 w) = 4"
  by (simp add: be32_def)

lemma unat_ucast_byte: "unat (ucast (w :: 'a::len word) :: byte) = unat w mod 256"
  by (simp add: unsigned_ucast_eq take_bit_eq_mod)

lemma unat_drop_bit: "unat (drop_bit n (w :: 'a::len word)) = unat w div 2 ^ n"
  by (metis drop_bit_eq_div unat_drop_bit_eq)

lemma byte_step: "(n div (256 * k)) * 256 + n div k mod 256 = n div (k::nat)"
  by (metis div_mult2_eq mult.commute div_mult_mod_eq)

lemma be_val_be16 [simp]: "be_val (be16 w) = unat w"
proof -
  have "unat w < 2 ^ LENGTH(16)" by (rule unsigned_less)
  then have "unat w div 256 mod 256 = unat w div 256" by simp
  then show ?thesis
    using byte_step [of "unat w" 1]
    by (simp add: be_val_def be16_def unat_ucast_byte unat_drop_bit)
qed

lemma be_val_be32 [simp]: "be_val (be32 w) = unat w"
proof -
  have "unat w < 2 ^ LENGTH(32)" by (rule unsigned_less)
  then have top: "unat w div 16777216 mod 256 = unat w div 16777216" by simp
  have "unat w div 16777216 * 256 + unat w div 65536 mod 256 = unat w div 65536"
    using byte_step [of "unat w" 65536] by simp
  moreover have "unat w div 65536 * 256 + unat w div 256 mod 256 = unat w div 256"
    using byte_step [of "unat w" 256] by simp
  moreover have "unat w div 256 * 256 + unat w mod 256 = unat w"
    by (rule div_mult_mod_eq)
  ultimately show ?thesis
    by (simp add: be_val_def be32_def unat_ucast_byte unat_drop_bit top)
qed

lemma be16_inject [simp]: "be16 a = be16 b \<longleftrightarrow> a = b"
  by (metis be_val_be16 word_unat_eq_iff)

lemma be32_inject [simp]: "be32 a = be32 b \<longleftrightarrow> a = b"
  by (metis be_val_be32 word_unat_eq_iff)

section \<open>Hexadecimal\<close>

definition hex_val :: "char \<Rightarrow> nat option" where
  "hex_val c = (let n = (of_char c :: nat) in
     if 48 \<le> n \<and> n \<le> 57 then Some (n - 48)
     else if 97 \<le> n \<and> n \<le> 102 then Some (n - 87)
     else if 65 \<le> n \<and> n \<le> 70 then Some (n - 55) else None)"

fun hex_decode :: "string \<Rightarrow> bytes option" where
  "hex_decode [] = Some []"
| "hex_decode [c] = None"
| "hex_decode (c # d # s) =
     (case (hex_val c, hex_val d) of
        (Some h, Some l) \<Rightarrow> map_option ((#) (word_of_nat (16 * h + l))) (hex_decode s)
      | _ \<Rightarrow> None)"

definition hex_digit :: "nat \<Rightarrow> char" where
  "hex_digit n = (if n < 10 then char_of (48 + n) else char_of (87 + n))"

definition hex_encode :: "bytes \<Rightarrow> string" where
  "hex_encode bs = concat (map (\<lambda>b. [hex_digit (unat b div 16), hex_digit (unat b mod 16)]) bs)"

lemma hex_val_digit: "n < 16 \<Longrightarrow> hex_val (hex_digit n) = Some n"
  by (auto simp: hex_val_def hex_digit_def Let_def)

lemma hex_decode_encode: "hex_decode (hex_encode bs) = Some bs"
proof (induction bs)
  case (Cons b bs)
  have "unat b < 256" using unat_byte_less [of b] by simp
  then show ?case
    using Cons by (simp add: hex_encode_def hex_val_digit mult_div_mod_eq)
qed (simp add: hex_encode_def)

lemma length_hex_encode: "length (hex_encode bs) = 2 * length bs"
  by (induction bs) (auto simp: hex_encode_def)

lemma hex_decode_length: "hex_decode s = Some bs \<Longrightarrow> length s = 2 * length bs"
  by (induction s arbitrary: bs rule: hex_decode.induct) (auto split: option.splits)

section \<open>Base 64 and base 32\<close>

definition strip_newlines :: "string \<Rightarrow> string" where
  "strip_newlines s = filter (\<lambda>c. c \<noteq> char_of (10::nat) \<and> c \<noteq> char_of (13::nat)) s"

lemma strip_newlines_id: "list_all (\<lambda>c. 32 \<le> (of_char c :: nat)) s \<Longrightarrow> strip_newlines s = s"
  by (induction s) (auto simp: strip_newlines_def)

definition b64_val :: "char \<Rightarrow> nat option" where
  "b64_val c = (let n = (of_char c :: nat) in
     if 65 \<le> n \<and> n \<le> 90 then Some (n - 65)
     else if 97 \<le> n \<and> n \<le> 122 then Some (n - 71)
     else if 48 \<le> n \<and> n \<le> 57 then Some (n + 4)
     else if n = 43 then Some 62 else if n = 47 then Some 63 else None)"

text \<open>
  One group of up to four symbols. With padding (\<^verbatim>\<open>StdEncoding\<close>) a short group is filled
  with \<^verbatim>\<open>=\<close> and must end the text; without (\<^verbatim>\<open>RawStdEncoding\<close>) it is just short.
  The unused low bits of a short group are not checked, as Go's non-strict encodings do.
\<close>

definition b64_bytes :: "nat \<Rightarrow> nat list \<Rightarrow> bytes" where
  "b64_bytes k vs = (let n = foldl (\<lambda>a v. a * 64 + v) 0 (take 4 (vs @ replicate 4 0)) in
     take k [word_of_nat (n div 65536), word_of_nat (n div 256 mod 256), word_of_nat (n mod 256)])"

fun b64_groups :: "bool \<Rightarrow> string \<Rightarrow> bytes option" where
  "b64_groups pad [] = Some []"
| "b64_groups pad [a] = None"
| "b64_groups pad [a, b] =
     (if pad then None
      else case (b64_val a, b64_val b) of
        (Some x, Some y) \<Rightarrow> Some (b64_bytes 1 [x, y]) | _ \<Rightarrow> None)"
| "b64_groups pad [a, b, c] =
     (if pad then None
      else case (b64_val a, b64_val b, b64_val c) of
        (Some x, Some y, Some z) \<Rightarrow> Some (b64_bytes 2 [x, y, z]) | _ \<Rightarrow> None)"
| "b64_groups pad (a # b # c # d # s) =
     (case (b64_val a, b64_val b) of
        (Some x, Some y) \<Rightarrow>
          (case (b64_val c, b64_val d) of
             (Some z, Some w) \<Rightarrow> map_option ((@) (b64_bytes 3 [x, y, z, w])) (b64_groups pad s)
           | (Some z, None) \<Rightarrow>
               if pad \<and> d = CHR ''='' \<and> s = [] then Some (b64_bytes 2 [x, y, z]) else None
           | (None, _) \<Rightarrow>
               if pad \<and> c = CHR ''='' \<and> d = CHR ''='' \<and> s = [] then Some (b64_bytes 1 [x, y]) else None)
      | _ \<Rightarrow> None)"

definition b64_std_decode :: "string \<Rightarrow> bytes option" where
  "b64_std_decode s = b64_groups True (strip_newlines s)"

definition b64_raw_decode :: "string \<Rightarrow> bytes option" where
  "b64_raw_decode s = b64_groups False (strip_newlines s)"

text \<open>
  Base 32 with the extended hexadecimal alphabet and no padding. A last group of 2, 4, 5 or
  7 symbols gives 1, 2, 3 or 4 bytes; Go writes nothing for a last group of 1, 3 or 6
  symbols beyond what the next shorter form gives for its case, which is no byte at all.
\<close>

definition b32hex_val :: "char \<Rightarrow> nat option" where
  "b32hex_val c = (let n = (of_char c :: nat) in
     if 48 \<le> n \<and> n \<le> 57 then Some (n - 48)
     else if 65 \<le> n \<and> n \<le> 86 then Some (n - 55) else None)"

definition b32_out :: "nat \<Rightarrow> nat" where
  "b32_out k = (if k = 8 then 5 else if k = 7 then 4 else if k = 5 then 3
     else if k = 4 then 2 else if k = 2 then 1 else 0)"

definition b32_bytes :: "nat list \<Rightarrow> bytes" where
  "b32_bytes vs = (let n = foldl (\<lambda>a v. a * 32 + v) 0 (take 8 (vs @ replicate 8 0)) in
     take (b32_out (length vs))
       [word_of_nat (n div 2 ^ 32), word_of_nat (n div 2 ^ 24 mod 256),
        word_of_nat (n div 2 ^ 16 mod 256), word_of_nat (n div 2 ^ 8 mod 256),
        word_of_nat (n mod 256)])"

fun all_some :: "'a option list \<Rightarrow> 'a list option" where
  "all_some [] = Some []"
| "all_some (None # xs) = None"
| "all_some (Some x # xs) = map_option ((#) x) (all_some xs)"

function b32_groups :: "nat list \<Rightarrow> bytes" where
  "b32_groups vs = (if vs = [] then [] else b32_bytes (take 8 vs) @ b32_groups (drop 8 vs))"
  by pat_completeness auto
termination
  by (relation "measure length") auto

declare b32_groups.simps [simp del]

definition b32hex_decode :: "string \<Rightarrow> bytes option" where
  "b32hex_decode s = map_option b32_groups (all_some (map b32hex_val (strip_newlines s)))"

section \<open>Encoding base 64\<close>

definition b64_sym :: "nat \<Rightarrow> char" where
  "b64_sym n = (if n < 26 then char_of (65 + n) else if n < 52 then char_of (71 + n)
     else if n < 62 then char_of (n - 4) else if n = 62 then CHR ''+'' else CHR ''/'')"

text \<open>\<^verbatim>\<open>base64.StdEncoding.EncodeToString\<close>.\<close>

fun b64_encode :: "bytes \<Rightarrow> string" where
  "b64_encode [] = []"
| "b64_encode [a] = (let n = unat a * 65536 in
     [b64_sym (n div 262144), b64_sym (n div 4096 mod 64), CHR ''='', CHR ''=''])"
| "b64_encode [a, b] = (let n = unat a * 65536 + unat b * 256 in
     [b64_sym (n div 262144), b64_sym (n div 4096 mod 64), b64_sym (n div 64 mod 64), CHR ''=''])"
| "b64_encode (a # b # c # bs) = (let n = unat a * 65536 + unat b * 256 + unat c in
     [b64_sym (n div 262144), b64_sym (n div 4096 mod 64), b64_sym (n div 64 mod 64), b64_sym (n mod 64)]
       @ b64_encode bs)"

lemma of_char_char_of: "n < 256 \<Longrightarrow> (of_char (char_of n :: char) :: nat) = n"
  by simp

lemma b64_val_sym [simp]: "n < 64 \<Longrightarrow> b64_val (b64_sym n) = Some n"
  by (auto simp: b64_val_def b64_sym_def Let_def)

lemma b64_val_pad [simp]: "b64_val CHR ''='' = None"
  by (simp add: b64_val_def)

lemma b64_digits:
  "(n :: nat) div 4096 mod 64 + n div 262144 * 64 = n div 4096"
  "n div 64 mod 64 + n div 4096 * 64 = n div 64" "n mod 64 + n div 64 * 64 = n"
  using div_mult2_eq [of n 4096 64] div_mult2_eq [of n 64 64] by (simp_all add: mod_div_mult_eq)

lemma pack_bytes:
  assumes "a < 256" and "b < 256" and "c < (256 :: nat)"
  defines "n \<equiv> a * 65536 + b * 256 + c"
  shows "n div 262144 < 64" "n div 65536 = a" "n div 256 mod 256 = b" "n mod 256 = c"
proof -
  have n: "n = c + 256 * (b + 256 * a)" by (simp add: n_def)
  have d: "n div 256 = b + 256 * a" unfolding n using assms(3) by simp
  have "n div 65536 = n div 256 div 256" by (simp flip: div_mult2_eq)
  then show "n div 65536 = a" using assms(2) by (simp add: d)
  show "n div 256 mod 256 = b" using assms(2) by (simp add: d)
  show "n mod 256 = c" unfolding n mod_mult_self2 using assms(3) by (rule mod_less)
  have "n < 64 * 262144" using assms(1-3) by (simp add: n_def)
  then show "n div 262144 < 64" by (simp add: less_mult_imp_div_less)
qed

lemma b64_bytes_three:
  "b64_bytes 3 [n div 262144, n div 4096 mod 64, n div 64 mod 64, n mod 64]
     = [word_of_nat (n div 65536), word_of_nat (n div 256 mod 256), word_of_nat (n mod 256)]"
  by (simp add: b64_bytes_def add.commute b64_digits)

lemma b64_bytes_short:
  "n mod 64 = 0 \<Longrightarrow> b64_bytes 2 [n div 262144, n div 4096 mod 64, n div 64 mod 64]
     = [word_of_nat (n div 65536), word_of_nat (n div 256 mod 256)]"
  "n mod 4096 = 0 \<Longrightarrow> b64_bytes 1 [n div 262144, n div 4096 mod 64] = [word_of_nat (n div 65536)]"
proof -
  have *: "n div 64 * 64 = n" if "n mod 64 = 0" using that by auto
  show "b64_bytes 2 [n div 262144, n div 4096 mod 64, n div 64 mod 64]
     = [word_of_nat (n div 65536), word_of_nat (n div 256 mod 256)]" if "n mod 64 = 0"
    using * [OF that] by (simp add: b64_bytes_def add.commute b64_digits)
  show "b64_bytes 1 [n div 262144, n div 4096 mod 64] = [word_of_nat (n div 65536)]" if "n mod 4096 = 0"
  proof -
    have "n div 4096 * 64 * 64 = n" using that by auto
    then show ?thesis by (simp add: b64_bytes_def add.commute b64_digits numeral_2_eq_2 mult.assoc)
  qed
qed

lemma b64_sym_text: "n < 64 \<Longrightarrow> 33 \<le> (of_char (b64_sym n) :: nat)"
  by (auto simp: b64_sym_def)

lemma b64_groups_encode: "b64_groups True (b64_encode bs) = Some bs"
proof (induction bs rule: b64_encode.induct)
  case (2 a)
  let ?n = "unat a * 65536"
  have "?n mod 4096 = 0" by (simp add: mod_eq_0_iff_dvd)
  moreover have "?n div 262144 < 64" "?n div 65536 = unat a"
    using pack_bytes [of "unat a" 0 0] unat_byte_less [of a] by simp_all
  ultimately have "?n div 262144 < 64" "?n mod 4096 = 0" "?n div 65536 = unat a" by simp_all
  with b64_bytes_short(2) [of ?n] show ?case by (simp add: Let_def)
next
  case (3 a b)
  let ?n = "unat a * 65536 + unat b * 256"
  have "?n mod 64 = 0" by (simp add: mod_eq_0_iff_dvd)
  moreover have "?n div 262144 < 64" "?n div 65536 = unat a" "?n div 256 mod 256 = unat b"
    using pack_bytes [of "unat a" "unat b" 0] unat_byte_less [of a] unat_byte_less [of b] by simp_all
  ultimately have "?n div 262144 < 64" "?n mod 64 = 0" "?n div 65536 = unat a" "?n div 256 mod 256 = unat b" by simp_all
  with b64_bytes_short(1) [of ?n] show ?case by (simp add: Let_def)
next
  case (4 a b c bs)
  let ?n = "unat a * 65536 + unat b * 256 + unat c"
  have "?n div 262144 < 64" "?n div 65536 = unat a" "?n div 256 mod 256 = unat b" "?n mod 256 = unat c"
    using pack_bytes [of "unat a" "unat b" "unat c"] unat_byte_less [of a] unat_byte_less [of b] unat_byte_less [of c]
    by simp_all
  with b64_bytes_three [of ?n] 4 show ?case by (simp add: Let_def)
qed simp

lemma b64_encode_text: "list_all (\<lambda>c. 33 \<le> (of_char c :: nat)) (b64_encode bs)"
proof (induction bs rule: b64_encode.induct)
  case (2 a)
  have "unat a * 65536 div 262144 < 64" using pack_bytes(1) [of "unat a" 0 0] unat_byte_less [of a] by simp
  then show ?case by (simp add: Let_def b64_sym_text)
next
  case (3 a b)
  have "(unat a * 65536 + unat b * 256) div 262144 < 64"
    using pack_bytes(1) [of "unat a" "unat b" 0] unat_byte_less [of a] unat_byte_less [of b] by simp
  then show ?case by (simp add: Let_def b64_sym_text)
next
  case (4 a b c bs)
  have "(unat a * 65536 + unat b * 256 + unat c) div 262144 < 64"
    using pack_bytes(1) [of "unat a" "unat b" "unat c"] unat_byte_less [of a] unat_byte_less [of b] unat_byte_less [of c]
    by simp
  with 4 show ?case by (simp add: Let_def b64_sym_text)
qed simp

lemma text_no_newlines: "list_all (\<lambda>c. 33 \<le> (of_char c :: nat)) s \<Longrightarrow> strip_newlines s = s"
  by (rule strip_newlines_id) (auto simp: list_all_iff)

lemma b64_decode_encode: "b64_std_decode (b64_encode bs) = Some bs"
  by (simp add: b64_std_decode_def text_no_newlines b64_encode_text b64_groups_encode)

lemma text_trim: "list_all (\<lambda>c. 33 \<le> (of_char c :: nat)) s \<Longrightarrow> trim_space s = s"
proof -
  assume a: "list_all (\<lambda>c. 33 \<le> (of_char c :: nat)) s"
  have "dropWhile is_space t = t" if "list_all (\<lambda>c. 33 \<le> (of_char c :: nat)) t" for t
    using that by (cases t) (auto simp: is_space_def Let_def)
  moreover have "list_all (\<lambda>c. 33 \<le> (of_char c :: nat)) (rev s)" using a by (simp add: list_all_iff)
  ultimately show ?thesis using a by (simp add: trim_space_def)
qed

lemma hex_encode_text: "list_all (\<lambda>c. 33 \<le> (of_char c :: nat)) (hex_encode bs)"
proof (induction bs)
  case (Cons b bs)
  have "unat b div 16 < 16" "unat b mod 16 < 16" using unat_byte_less [of b] by auto
  then have "33 \<le> (of_char (hex_digit (unat b div 16)) :: nat)" "33 \<le> (of_char (hex_digit (unat b mod 16)) :: nat)"
    by (auto simp: hex_digit_def)
  with Cons show ?case by (simp add: hex_encode_def)
qed (simp add: hex_encode_def)

end
