(* ===== verification/TypeBitmap.thy ===== *)
theory TypeBitmap
  imports GoEncoding
begin

text \<open>
  The NSEC and NSEC3 type bitmap encoder of \<^verbatim>\<open>internal/dns/util.go\<close>, a decoder for the
  format of RFC 4034, section 4.1.2, and the proof that decoding an encoded set of types
  gives back exactly the set.
\<close>

section \<open>The encoder\<close>

text \<open>
  \<^verbatim>\<open>typeBitmap\<close>: repeated types are dropped, the rest sorted by the insertion sort of the
  source, and every window of 256 types becomes its number, a length and that many bytes.
\<close>

fun insert_back :: "u16 list \<Rightarrow> u16 \<Rightarrow> u16 list" where
  "insert_back [] t = [t]"
| "insert_back (x # rs) t = (if t < x then x # insert_back rs t else t # x # rs)"

text \<open>
  The inner loop moves the next element left past the larger ones. The sorted prefix is
  kept here in reverse, so that the loop is a recursion from its last element.
\<close>

definition insertion_sort :: "u16 list \<Rightarrow> u16 list" where
  "insertion_sort ts = rev (foldl insert_back [] ts)"

definition window_of :: "u16 \<Rightarrow> byte" where
  "window_of t = ucast (drop_bit 8 t)"

definition bit_mask :: "u16 \<Rightarrow> byte" where
  "bit_mask t = drop_bit (unat (t AND 7)) 0x80"

definition bit_slot :: "u16 \<Rightarrow> nat" where
  "bit_slot t = unat (drop_bit 3 (t AND 0xff))"

definition set_type_bit :: "bytes \<Rightarrow> u16 \<Rightarrow> bytes" where
  "set_type_bit bits t = bits[bit_slot t := (bits ! bit_slot t) OR bit_mask t]"

text \<open>Dropping the trailing zero bytes: the \<^verbatim>\<open>n\<close> of the source.\<close>

fun significant :: "bytes \<Rightarrow> nat \<Rightarrow> nat" where
  "significant bits 0 = 0"
| "significant bits (Suc n) = (if bits ! n = 0 then significant bits n else Suc n)"

definition window_block :: "byte \<Rightarrow> u16 list \<Rightarrow> bytes" where
  "window_block w ts =
     (let bits = foldl set_type_bit (replicate 32 0) ts; n = significant bits 32
      in w # word_of_nat n # take n bits)"

function bitmap_windows :: "u16 list \<Rightarrow> bytes" where
  "bitmap_windows [] = []"
| "bitmap_windows (t # ts) =
     window_block (window_of t) (t # takeWhile (\<lambda>u. window_of u = window_of t) ts)
       @ bitmap_windows (dropWhile (\<lambda>u. window_of u = window_of t) ts)"
  by pat_completeness auto
termination
  by (relation "measure length") (auto simp: le_imp_less_Suc length_dropWhile_le)

definition typeBitmap :: "u16 list \<Rightarrow> bytes" where
  "typeBitmap types = bitmap_windows (insertion_sort (dedup_on (\<lambda>t. t) [] types))"

section \<open>A reference decoder\<close>

definition window_types :: "byte \<Rightarrow> bytes \<Rightarrow> u16 list" where
  "window_types w bs =
     map (\<lambda>i. word_of_nat (256 * unat w + i))
       (filter (\<lambda>i. bit (bs ! (i div 8)) (7 - i mod 8)) [0..<8 * length bs])"

function bitmap_decode :: "bytes \<Rightarrow> u16 list option" where
  "bitmap_decode bs =
     (case bs of
        [] \<Rightarrow> Some []
      | [_] \<Rightarrow> None
      | w # n # rest \<Rightarrow>
          if length rest < unat n then None
          else map_option ((@) (window_types w (take (unat n) rest)))
                 (bitmap_decode (drop (unat n) rest)))"
  by pat_completeness auto
termination
  by (relation "measure length") auto

declare bitmap_decode.simps [simp del]

section \<open>Setting the bits of one window\<close>

definition low_byte :: "u16 \<Rightarrow> nat" where
  "low_byte t = unat t mod 256"

lemma unat_u16_less: "unat (t :: u16) < 65536"
proof -
  have "unat t < 2 ^ LENGTH(16)" by (rule unsigned_less)
  then show ?thesis by simp
qed

lemma unat_window_of: "unat (window_of t) = unat t div 256"
proof -
  have "unat t div 256 < 256" using unat_u16_less [of t] by simp
  then show ?thesis by (simp add: window_of_def unat_ucast_byte unat_drop_bit)
qed

lemma and_mask_unat: "unat (t AND mask n) = unat (t :: 'a::len word) mod 2 ^ n"
  by (metis take_bit_eq_mask take_bit_eq_mod unsigned_take_bit_eq)

lemma bit_slot_eq: "bit_slot t = low_byte t div 8"
proof -
  have m: "(mask 8 :: u16) = 0xff" by (simp add: mask_eq_exp_minus_1)
  have "unat (t AND 0xff) = unat t mod 256" using and_mask_unat [of t 8] unfolding m by simp
  then show ?thesis unfolding bit_slot_def low_byte_def unat_drop_bit by simp
qed

lemma bit_0x80: "bit (0x80 :: byte) m \<longleftrightarrow> m = 7"
proof -
  have "(0x80 :: byte) = 2 ^ 7" by simp
  then show ?thesis by (simp only: bit_exp_iff) (auto simp: possible_bit_word)
qed

lemma bit_bit_mask: "k < 8 \<Longrightarrow> bit (bit_mask t) k \<longleftrightarrow> k = 7 - low_byte t mod 8"
proof -
  assume k: "k < 8"
  have m: "(mask 3 :: u16) = 7" by (simp add: mask_eq_exp_minus_1)
  have shift: "unat (t AND 7) = unat t mod 8" using and_mask_unat [of t 3] unfolding m by simp
  have low: "low_byte t mod 8 = unat t mod 8"
    by (simp add: low_byte_def mod_mod_cancel)
  have "bit (bit_mask t) k \<longleftrightarrow> unat t mod 8 + k = 7"
    by (simp only: bit_mask_def shift bit_drop_bit_eq bit_0x80 o_def)
  then show ?thesis using low k by auto
qed

definition window_bit :: "bytes \<Rightarrow> nat \<Rightarrow> bool" where
  "window_bit bits i = bit (bits ! (i div 8)) (7 - i mod 8)"

lemma length_set_type_bit [simp]: "length (set_type_bit bits t) = length bits"
  by (simp add: set_type_bit_def)

lemma low_byte_less [simp]: "low_byte t < 256"
  by (simp add: low_byte_def)

lemma window_bit_set:
  assumes "length bits = 32" and "i < 256"
  shows "window_bit (set_type_bit bits t) i \<longleftrightarrow> window_bit bits i \<or> low_byte t = i"
proof -
  have slot: "low_byte t div 8 < 32" using low_byte_less [of t] by linarith
  have "bit (bit_mask t) (7 - i mod 8) \<longleftrightarrow> low_byte t mod 8 = i mod 8"
    by (subst bit_bit_mask) auto
  moreover have "low_byte t div 8 = i div 8 \<and> low_byte t mod 8 = i mod 8 \<longleftrightarrow> low_byte t = i"
    by (metis div_mult_mod_eq)
  ultimately show ?thesis
    using assms slot
    by (cases "low_byte t div 8 = i div 8")
      (auto simp: window_bit_def set_type_bit_def bit_slot_eq bit_or_iff)
qed

lemma window_bit_fold:
  assumes "length bits = 32" and "i < 256"
  shows "length (foldl set_type_bit bits ts) = 32"
    and "window_bit (foldl set_type_bit bits ts) i \<longleftrightarrow> window_bit bits i \<or> i \<in> low_byte ` set ts"
  using assms by (induction ts arbitrary: bits) (auto simp: window_bit_set)

lemma window_bit_zero: "i < 256 \<Longrightarrow> \<not> window_bit (replicate 32 0) i"
  by (simp add: window_bit_def)

section \<open>Dropping the zero tail\<close>

lemma significant_le: "significant bits n \<le> n"
  by (induction n) auto

lemma significant_zero: "significant bits n \<le> j \<Longrightarrow> j < n \<Longrightarrow> bits ! j = 0"
  by (induction n) (auto simp: less_Suc_eq split: if_splits)

lemma significant_pos: "j < n \<Longrightarrow> bits ! j \<noteq> 0 \<Longrightarrow> j < significant bits n"
  using significant_zero by (metis not_less)

section \<open>One window\<close>

lemma window_types_take:
  assumes "length bits = 32" and "n = significant bits 32"
  shows "window_types w (take n bits)
       = map (\<lambda>i. word_of_nat (256 * unat w + i)) (filter (window_bit bits) [0..<256])"
proof -
  have n: "n \<le> 32" using assms(2) significant_le by simp
  have "[0..<8 * n + (256 - 8 * n)] = [0..<8 * n] @ [8 * n..<8 * n + (256 - 8 * n)]"
    by (rule upt_add_eq_append) simp
  then have split: "[0..<256] = [0..<8 * n] @ [8 * n..<256]" using n by simp
  have "filter (window_bit bits) [8 * n..<256] = []"
  proof (rule filter_False, intro ballI)
    fix i
    assume "i \<in> set [8 * n..<256]"
    then have "n \<le> i div 8" and "i div 8 < 32" by auto
    then have "bits ! (i div 8) = 0" using assms(2) significant_zero by blast
    then show "\<not> window_bit bits i" by (simp add: window_bit_def)
  qed
  moreover have "filter (\<lambda>i. bit (take n bits ! (i div 8)) (7 - i mod 8)) [0..<8 * n]
      = filter (window_bit bits) [0..<8 * n]"
    by (rule filter_cong) (auto simp: window_bit_def)
  ultimately show ?thesis
    using assms n by (simp add: window_types_def split)
qed

lemma sorted_map_unat: "sorted (map unat ts) \<longleftrightarrow> sorted (ts :: 'a::len word list)"
  by (simp add: sorted_map flip: word_le_nat_alt)

text \<open>The types of one window, sorted and distinct, are read back from its bits.\<close>

lemma window_types_block:
  assumes "sorted ts" and "distinct ts" and "\<And>t. t \<in> set ts \<Longrightarrow> window_of t = w"
  shows "map (\<lambda>i. word_of_nat (256 * unat w + i)) (filter (\<lambda>i. i \<in> low_byte ` set ts) [0..<256]) = ts"
    (is "map ?f (filter ?P _) = ts")
proof (rule sorted_distinct_set_unique)
  have val: "unat t = 256 * unat w + low_byte t" if "t \<in> set ts" for t
    using assms(3) [OF that] unat_window_of [of t] by (auto simp: low_byte_def)
  have conv: "?f (low_byte t) = t" if "t \<in> set ts" for t
    using val [OF that, symmetric] by simp
  show "set (map ?f (filter ?P [0..<256])) = set ts"
    using conv low_byte_less by (auto simp: image_iff) force
  show "sorted ts" "distinct ts" by (fact assms)+
  have u: "unat (?f i) = 256 * unat w + i" if "i < 256" for i
  proof -
    have "256 * unat w + i < 65536" using that unat_byte_less [of w] by linarith
    then show ?thesis by (simp only: unat_of_nat take_bit_eq_mod) simp
  qed
  have "map unat (map ?f (filter ?P [0..<256])) = map (\<lambda>i. 256 * unat w + i) (filter ?P [0..<256])"
    using u by auto
  moreover have "sorted (map (\<lambda>i. 256 * unat w + i) (filter ?P [0..<256]))"
    by (simp add: sorted_map sorted_wrt_filter)
  ultimately show "sorted (map ?f (filter ?P [0..<256]))"
    using sorted_map_unat by metis
  have "inj_on ?f (set (filter ?P [0..<256]))"
    by (rule inj_onI) (metis (no_types, lifting) u add_left_cancel atLeastLessThan_iff mem_Collect_eq set_filter set_upt)
  then show "distinct (map ?f (filter ?P [0..<256]))"
    by (simp add: distinct_map)
qed

lemma decode_window_block:
  assumes "ts \<noteq> []" and "sorted ts" and "distinct ts" and w: "\<And>t. t \<in> set ts \<Longrightarrow> window_of t = w"
  shows "bitmap_decode (window_block w ts @ rest) = map_option ((@) ts) (bitmap_decode rest)"
proof -
  define bits where "bits = foldl set_type_bit (replicate 32 0) ts"
  define n where "n = significant bits 32"
  have len: "length bits = 32"
    unfolding bits_def by (rule window_bit_fold(1) [of _ 0]) auto
  have n: "n \<le> 32" unfolding n_def by (rule significant_le)
  have un: "unat (word_of_nat n :: byte) = n" using n by (simp add: unat_of_nat take_bit_eq_mod)
  have wb: "window_bit bits i \<longleftrightarrow> i \<in> low_byte ` set ts" if "i < 256" for i
    unfolding bits_def using window_bit_fold(2) [of "replicate 32 0" i ts] that window_bit_zero by simp
  have "filter (window_bit bits) [0..<256] = filter (\<lambda>i. i \<in> low_byte ` set ts) [0..<256]"
    by (rule filter_cong) (auto simp: wb)
  then have "window_types w (take n bits) = ts"
    using window_types_take [OF len n_def] window_types_block [OF assms(2,3) w] by simp
  moreover have "window_block w ts = w # word_of_nat n # take n bits"
    by (simp add: window_block_def bits_def n_def Let_def)
  ultimately show ?thesis
    using len n un by (simp add: bitmap_decode.simps [of "w # _"])
qed

section \<open>The whole bitmap\<close>

lemma decode_bitmap_windows:
  "sorted ts \<Longrightarrow> distinct ts \<Longrightarrow> bitmap_decode (bitmap_windows ts) = Some ts"
proof (induction ts rule: bitmap_windows.induct)
  case 1
  then show ?case by (simp add: bitmap_decode.simps)
next
  case (2 t ts)
  let ?P = "\<lambda>u. window_of u = window_of t"
  have split: "ts = takeWhile ?P ts @ dropWhile ?P ts" by simp
  have srt: "sorted (takeWhile ?P ts @ dropWhile ?P ts)" "distinct (takeWhile ?P ts @ dropWhile ?P ts)"
    using 2(2,3) by simp_all
  have "bitmap_decode (bitmap_windows (dropWhile ?P ts)) = Some (dropWhile ?P ts)"
    using srt by (intro 2(1)) (auto simp: sorted_append)
  moreover have "bitmap_decode (window_block (window_of t) (t # takeWhile ?P ts) @ r)
      = map_option ((@) (t # takeWhile ?P ts)) (bitmap_decode r)" for r
    using 2(2,3) srt
    by (intro decode_window_block) (auto simp: sorted_append dest: set_takeWhileD)
  ultimately show ?case by simp
qed

lemma mset_insert_back [simp]: "mset (insert_back rs t) = add_mset t (mset rs)"
  by (induction rs) auto

lemma sorted_insert_back: "sorted (rev rs) \<Longrightarrow> sorted (rev (insert_back rs t))"
proof (induction rs)
  case (Cons x rs)
  have "set (insert_back rs t) = insert t (set rs)"
    by (metis mset_insert_back set_mset_add_mset_insert set_mset_mset)
  then show ?case using Cons by (auto simp: sorted_append)
qed simp

lemma insertion_sort_foldl:
  "sorted (rev rs) \<Longrightarrow> sorted (rev (foldl insert_back rs ts)) \<and>
     mset (foldl insert_back rs ts) = mset rs + mset ts"
  by (induction ts arbitrary: rs) (auto simp: sorted_insert_back)

lemma insertion_sort_sort: "insertion_sort ts = sort ts"
  using insertion_sort_foldl [of "[]" ts]
  by (intro properties_for_sort [symmetric]) (auto simp: insertion_sort_def)

text \<open>
  C15. The NSEC and NSEC3 type bitmap loses nothing and invents nothing: reading the encoding
  of any list of types by the rules of RFC 4034 gives the types of the list, each once, in
  ascending order, whatever windows they fall in.
\<close>

theorem typeBitmap_roundtrip:
  "bitmap_decode (typeBitmap types) = Some (sorted_list_of_set (set types))"
proof -
  let ?ts = "sort (dedup_on (\<lambda>t. t) [] types)"
  have "?ts = sorted_list_of_set (set types)"
    by (rule sorted_distinct_set_unique) simp_all
  then show ?thesis
    using decode_bitmap_windows [of ?ts] by (simp add: typeBitmap_def insertion_sort_sort)
qed

end
