(* ===== verification/Budget.thy ===== *)
theory Budget
  imports Prelude Complex_Main
begin

text \<open>
  \<^verbatim>\<open>internal/budget/budget.go\<close>: the query budget, its counter, rate limiter and semaphore.
  Durations are integers of nanoseconds, a \<^verbatim>\<open>float64\<close> number of tokens is a rational (the
  values the limiter computes are exact), and a mutex is the atomicity of each operation.
\<close>

section \<open>The budget\<close>

record budget =
  MaxQueries :: int
  MaxQPS :: int
  MaxConcurrency :: int
  PerTimeout :: int
  RecursionLimit :: int

definition budgetDefaults :: budget where
  "budgetDefaults = \<lparr>MaxQueries = 400, MaxQPS = 50, MaxConcurrency = 16,
     PerTimeout = 3 * 1000000000, RecursionLimit = 8\<rparr>"

definition budgetValidated :: "budget \<Rightarrow> budget" where
  "budgetValidated b =
     (let b1 = (if MaxQueries b \<le> 0 then b\<lparr>MaxQueries := 400\<rparr> else b);
          b2 = (if MaxQPS b1 \<le> 0 then b1\<lparr>MaxQPS := 50\<rparr> else b1);
          b3 = (if MaxConcurrency b2 \<le> 0 then b2\<lparr>MaxConcurrency := 1\<rparr> else b2);
          b4 = (if PerTimeout b3 \<le> 0 then b3\<lparr>PerTimeout := 3 * 1000000000\<rparr> else b3)
      in if RecursionLimit b4 \<le> 0 then b4\<lparr>RecursionLimit := 8\<rparr> else b4)"

section \<open>The counter\<close>

record counter =
  ct_remaining :: int

definition newCounter :: "int \<Rightarrow> counter" where
  "newCounter n = \<lparr>ct_remaining = (if n \<le> 0 then 400 else n)\<rparr>"

definition counterRemaining :: "counter \<Rightarrow> int" where
  "counterRemaining c = ct_remaining c"

definition counterConsume :: "counter \<Rightarrow> bool \<times> counter" where
  "counterConsume c =
     (if ct_remaining c \<le> 0 then (False, c) else (True, c\<lparr>ct_remaining := ct_remaining c - 1\<rparr>))"

section \<open>The rate limiter\<close>

record limiter =
  rl_tokens :: rat
  rl_max :: rat
  rl_refill :: rat
  rl_last :: int

definition newRateLimiter :: "rat \<Rightarrow> int \<Rightarrow> limiter" where
  "newRateLimiter qps0 now =
     (let qps = (if qps0 \<le> 0 then 50 else qps0) in
      \<lparr>rl_tokens = qps, rl_max = qps, rl_refill = qps, rl_last = now\<rparr>)"

text \<open>
  One turn of the loop of \<^verbatim>\<open>Wait\<close> under the mutex, at the time \<open>now\<close>: a token is taken
  (\<^term>\<open>None\<close>) or the duration to sleep is computed.
\<close>

definition waitTurn :: "int \<Rightarrow> limiter \<Rightarrow> limiter \<times> int option" where
  "waitTurn now r0 =
     (let r1 = r0\<lparr>rl_last := now, rl_tokens := rl_max r0\<rparr>;
          r = (if rl_max r1 < rl_tokens r1 then r1\<lparr>rl_tokens := rl_max r1\<rparr> else r1)
      in if 1 \<le> rl_tokens r then (r\<lparr>rl_tokens := rl_tokens r - 1\<rparr>, None)
         else (let wait = \<lfloor>(1 - rl_tokens r) / rl_refill r * 1000000000\<rfloor>
               in (r, Some (if wait \<le> 0 then 1000000 else wait))))"

text \<open>
  The whole loop. Each turn has its time and, should it sleep, whether the context ends the
  sleep. \<^term>\<open>Some True\<close>: a token was taken; \<^term>\<open>Some False\<close>: the context was done;
  \<^term>\<open>None\<close>: still waiting when the list of turns ends.
\<close>

fun rateWait :: "(int \<times> bool) list \<Rightarrow> limiter \<Rightarrow> limiter \<times> bool option" where
  "rateWait [] r = (r, None)"
| "rateWait ((now, cancelled) # turns) r =
     (case waitTurn now r of
        (r', None) \<Rightarrow> (r', Some True)
      | (r', Some _) \<Rightarrow> if cancelled then (r', Some False) else rateWait turns r')"

section \<open>The semaphore\<close>

record semaphore =
  sm_width :: nat
  sm_held :: nat

definition newSemaphore :: "int \<Rightarrow> semaphore" where
  "newSemaphore w = \<lparr>sm_width = (if w \<le> 0 then 1 else nat w), sm_held = 0\<rparr>"

text \<open>The two channel operations; \<^term>\<open>None\<close> is a goroutine that blocks.\<close>

definition semAcquire :: "semaphore \<Rightarrow> semaphore option" where
  "semAcquire s = (if sm_held s < sm_width s then Some (s\<lparr>sm_held := sm_held s + 1\<rparr>) else None)"

definition semRelease :: "semaphore \<Rightarrow> semaphore option" where
  "semRelease s = (if 0 < sm_held s then Some (s\<lparr>sm_held := sm_held s - 1\<rparr>) else None)"

section \<open>The interface of a counter\<close>

text \<open>
  What the resolver relies on: a grant is given exactly while something is left, and takes
  one of it.
\<close>

locale allowance =
  fixes left :: "'s \<Rightarrow> int" and take_one :: "'s \<Rightarrow> bool \<times> 's"
  assumes grant: "0 < left s \<Longrightarrow> fst (take_one s) \<and> left (snd (take_one s)) = left s - 1"
    and refuse: "left s \<le> 0 \<Longrightarrow> \<not> fst (take_one s) \<and> left (snd (take_one s)) = left s"
begin

text \<open>The answers to \<open>n\<close> requests in a row.\<close>

primrec requests :: "nat \<Rightarrow> 's \<Rightarrow> bool list \<times> 's" where
  "requests 0 s = ([], s)"
| "requests (Suc n) s = (let (ok, s1) = take_one s; (oks, s2) = requests n s1 in (ok # oks, s2))"

lemma requests_refused: "left s \<le> 0 \<Longrightarrow> fst (requests n s) = replicate n False"
proof (induction n arbitrary: s)
  case (Suc n)
  then show ?case using refuse [OF Suc.prems] by (auto simp: split_beta Let_def)
qed simp

lemma requests_granted:
  "0 \<le> left s \<Longrightarrow> fst (requests n s) = replicate (min n (nat (left s))) True @ replicate (n - nat (left s)) False"
proof (induction n arbitrary: s)
  case (Suc n)
  show ?case
  proof (cases "0 < left s")
    case True
    note g = grant [OF True]
    have "fst (requests n (snd (take_one s)))
        = replicate (min n (nat (left s) - 1)) True @ replicate (n - (nat (left s) - 1)) False"
      using Suc.IH [of "snd (take_one s)"] g True by (simp add: nat_diff_distrib)
    moreover obtain k where "nat (left s) = Suc k" using True by (cases "nat (left s)") auto
    ultimately show ?thesis using g by (simp add: split_beta Let_def)
  next
    case False
    then show ?thesis using requests_refused [of s "Suc n"] Suc.prems by simp
  qed
qed simp

lemma requests_left: "0 \<le> left s \<Longrightarrow> 0 \<le> left (snd (requests n s))"
proof (induction n arbitrary: s)
  case (Suc n)
  have "0 \<le> left (snd (take_one s))"
    using grant [of s] refuse [of s] Suc.prems by (cases "0 < left s") auto
  from Suc.IH [OF this] show ?case by (simp add: split_beta Let_def)
qed simp

end

interpretation counter: allowance ct_remaining counterConsume
  by unfold_locales (auto simp: counterConsume_def)

text \<open>The calls of \<^verbatim>\<open>Consume\<close> a run makes, one after the other.\<close>

definition consumeAll :: "nat \<Rightarrow> counter \<Rightarrow> bool list \<times> counter" where
  "consumeAll n c = counter.requests n c"

lemma newCounter_pos: "0 < ct_remaining (newCounter n)"
  by (simp add: newCounter_def)

lemma validated_simps [simp]:
  "MaxQueries (budgetValidated b) = (if MaxQueries b \<le> 0 then 400 else MaxQueries b)"
  "MaxQPS (budgetValidated b) = (if MaxQPS b \<le> 0 then 50 else MaxQPS b)"
  "MaxConcurrency (budgetValidated b) = (if MaxConcurrency b \<le> 0 then 1 else MaxConcurrency b)"
  "PerTimeout (budgetValidated b) = (if PerTimeout b \<le> 0 then 3 * 1000000000 else PerTimeout b)"
  "RecursionLimit (budgetValidated b) = (if RecursionLimit b \<le> 0 then 8 else RecursionLimit b)"
  by (simp_all add: budgetValidated_def Let_def)

text \<open>
  Of any number of calls of \<^verbatim>\<open>Consume\<close> on a counter built for \<open>n\<close> queries, exactly the
  first \<open>n\<close> (400 for an \<open>n\<close> that is not positive) are allowed, and the counter never falls
  below zero.
\<close>

theorem counter_grants:
  "fst (consumeAll k (newCounter n)) =
     replicate (min k (nat (if n \<le> 0 then 400 else n))) True
     @ replicate (k - nat (if n \<le> 0 then 400 else n)) False
   \<and> 0 \<le> ct_remaining (snd (consumeAll k (newCounter n)))"
  using counter.requests_granted [of "newCounter n" k] counter.requests_left [of "newCounter n" k]
  by (auto simp: consumeAll_def newCounter_def)

section \<open>The rate limiter never waits\<close>

lemma waitTurn_full: "1 \<le> rl_max r \<Longrightarrow> waitTurn now r = (r\<lparr>rl_last := now, rl_tokens := rl_max r - 1\<rparr>, None)"
  by (simp add: waitTurn_def)

lemma waitTurn_max [simp]: "rl_max (fst (waitTurn now r)) = rl_max r"
  by (simp add: waitTurn_def Let_def)

lemma waitTurn_fst: "waitTurn now r = (r', d) \<Longrightarrow> rl_max r' = rl_max r"
  using waitTurn_max [of now r] by simp

lemma newRateLimiter_max [simp]: "rl_max (newRateLimiter q now) = (if q \<le> 0 then 50 else q)"
  by (simp add: newRateLimiter_def Let_def)

text \<open>The calls of \<^verbatim>\<open>Wait\<close> at the given times: how each one's first turn ends.\<close>

fun waits :: "int list \<Rightarrow> limiter \<Rightarrow> int option list" where
  "waits [] r = []"
| "waits (t # ts) r = snd (waitTurn t r) # waits ts (fst (waitTurn t r))"

lemma waits_full: "1 \<le> rl_max r \<Longrightarrow> waits ts r = replicate (length ts) None"
  by (induction ts arbitrary: r) (simp_all add: waitTurn_full)

text \<open>
  The rate limiter never delays a query: with the rate of a validated budget, every call of
  \<^verbatim>\<open>Wait\<close> takes a token in its first turn, whatever the times of the calls and however many
  there are. The bucket is refilled to its maximum on every call.
\<close>

theorem rate_limiter_never_waits:
  "waits ts (newRateLimiter (of_int (MaxQPS (budgetValidated b))) t0) = replicate (length ts) None"
  by (rule waits_full) simp

text \<open>Whatever \<^verbatim>\<open>Wait\<close> did before, the size of the bucket is that of the start.\<close>

lemma rateWait_max [simp]: "rl_max (fst (rateWait turns r)) = rl_max r"
  by (induction turns r rule: rateWait.induct) (auto split: prod.splits option.splits dest: waitTurn_fst)

lemma history_max: "rl_max (fold (\<lambda>turns r. fst (rateWait turns r)) calls r) = rl_max r"
  by (induction calls arbitrary: r) simp_all

lemma rateWait_grants: "1 \<le> rl_max r \<Longrightarrow> snd (rateWait ((t, c) # turns) r) = Some True"
  by (simp add: waitTurn_full)

lemma rateWait_starves:
  "rl_max r < 1 \<Longrightarrow> snd (rateWait turns r) = (if True \<in> snd ` set turns then Some False else None)"
proof (induction turns arbitrary: r)
  case (Cons turn turns)
  obtain t c where turn: "turn = (t, c)" by fastforce
  obtain d r' where "waitTurn t r = (r', Some d)" "rl_max r' < 1"
    using Cons.prems by (simp add: waitTurn_def Let_def)
  then show ?case using Cons.IH [of r'] turn by auto
qed simp

text \<open>
  C9. When a call of \<^verbatim>\<open>Wait\<close> comes to an end, whatever calls came before it on the same limiter:
  with a rate of at least one per second (a rate that is not positive is fifty) its first turn
  grants the query; with a rate between zero and one no turn ever does, and the call ends
  only when its context is done.
\<close>

theorem wait_ends_iff:
  "let r = fold (\<lambda>turns r. fst (rateWait turns r)) calls (newRateLimiter qps t0) in
     snd (rateWait ((t, c) # turns) r) =
       (if qps \<le> 0 \<or> 1 \<le> qps then Some True
        else if True \<in> set (c # map snd turns) then Some False else None)"
proof -
  let ?r = "fold (\<lambda>turns r. fst (rateWait turns r)) calls (newRateLimiter qps t0)"
  have m: "rl_max ?r = (if qps \<le> 0 then 50 else qps)" by (simp add: history_max)
  show ?thesis
  proof (cases "qps \<le> 0 \<or> 1 \<le> qps")
    case True
    then have "1 \<le> rl_max ?r" unfolding m by auto
    from rateWait_grants [OF this] True show ?thesis by (simp add: Let_def)
  next
    case False
    then have "rl_max ?r < 1" unfolding m by simp
    from rateWait_starves [OF this, of "(t, c) # turns"] False show ?thesis by (simp add: Let_def del: rateWait.simps)
  qed
qed

section \<open>Lemmas: the semaphore\<close>

lemma newSemaphore_simps [simp]:
  "sm_held (newSemaphore w) = 0" "sm_width (newSemaphore w) = (if w \<le> 0 then 1 else nat w)"
  by (simp_all add: newSemaphore_def)

lemma semAcquire_Some:
  "semAcquire s = Some s' \<longleftrightarrow> sm_held s < sm_width s \<and> s' = s\<lparr>sm_held := sm_held s + 1\<rparr>"
  by (auto simp: semAcquire_def)

lemma semRelease_Some: "semRelease s = Some s' \<longleftrightarrow> 0 < sm_held s \<and> s' = s\<lparr>sm_held := sm_held s - 1\<rparr>"
  by (auto simp: semRelease_def)

end
