(* ===== verification/DnsLib.thy ===== *)
theory DnsLib
  imports GoEncoding
begin

text \<open>
  The data of the third-party package \<^verbatim>\<open>github.com/miekg/dns\<close> that the source reads:
  resource records, messages, type and response codes. The package's own functions are not
  part of this repository; the ones the source calls are the fields of the record \<open>dnslib\<close>,
  which every definition that uses one of them takes as its argument, and what the source
  relies on about them is the predicate \<open>dns_names_ok\<close>.
\<close>

section \<open>Codes\<close>

definition TypeA :: u16 where "TypeA = 1"
definition TypeNS :: u16 where "TypeNS = 2"
definition TypeCNAME :: u16 where "TypeCNAME = 5"
definition TypeSOA :: u16 where "TypeSOA = 6"
definition TypePTR :: u16 where "TypePTR = 12"
definition TypeMX :: u16 where "TypeMX = 15"
definition TypeTXT :: u16 where "TypeTXT = 16"
definition TypeAAAA :: u16 where "TypeAAAA = 28"
definition TypeSRV :: u16 where "TypeSRV = 33"
definition TypeDS :: u16 where "TypeDS = 43"
definition TypeRRSIG :: u16 where "TypeRRSIG = 46"
definition TypeNSEC :: u16 where "TypeNSEC = 47"
definition TypeDNSKEY :: u16 where "TypeDNSKEY = 48"
definition TypeNSEC3 :: u16 where "TypeNSEC3 = 50"
definition TypeAXFR :: u16 where "TypeAXFR = 252"
definition TypeANY :: u16 where "TypeANY = 255"
definition TypeCAA :: u16 where "TypeCAA = 257"
definition ClassINET :: u16 where "ClassINET = 1"

lemmas type_defs [go_simps] =
  TypeA_def TypeNS_def TypeCNAME_def TypeSOA_def TypePTR_def TypeMX_def TypeTXT_def TypeAAAA_def
  TypeSRV_def TypeDS_def TypeRRSIG_def TypeNSEC_def TypeDNSKEY_def TypeNSEC3_def TypeAXFR_def
  TypeANY_def TypeCAA_def ClassINET_def

definition RcodeSuccess :: int where "RcodeSuccess = 0"
definition RcodeNameError :: int where "RcodeNameError = 3"
definition RcodeRefused :: int where "RcodeRefused = 5"

lemmas rcode_defs [go_simps] = RcodeSuccess_def RcodeNameError_def RcodeRefused_def

section \<open>Resource records\<close>

record rr_header =
  h_name :: string
  h_rrtype :: u16
  h_class :: u16
  h_ttl :: u32

record soa =
  soa_ns :: string
  soa_mbox :: string
  soa_serial :: u32
  soa_refresh :: u32
  soa_retry :: u32
  soa_expire :: u32
  soa_minttl :: u32

record caa =
  caa_flag :: byte
  caa_tag :: string
  caa_value :: string

record dnskey =
  dk_flags :: u16
  dk_protocol :: byte
  dk_algorithm :: byte
  dk_publickey :: string

record ds =
  ds_keytag :: u16
  ds_algorithm :: byte
  ds_digesttype :: byte
  ds_digest :: string

record rrsig =
  sg_typecovered :: u16
  sg_algorithm :: byte
  sg_labels :: byte
  sg_origttl :: u32
  sg_expiration :: u32
  sg_inception :: u32
  sg_keytag :: u16
  sg_signername :: string
  sg_signature :: string

record nsec3 =
  n3_hash :: byte
  n3_flags :: byte
  n3_iterations :: u16
  n3_saltlength :: byte
  n3_salt :: string
  n3_nextdomain :: string
  n3_types :: "u16 list"

text \<open>
  The concrete type of a record, as the source's type switches see it. An address is
  \<^term>\<open>None\<close> for a nil \<^verbatim>\<open>net.IP\<close>. A type the source never names is \<open>Other_RR\<close> with its
  presentation form.
\<close>

datatype rdata =
    A_RR "bytes option" | AAAA_RR "bytes option" | NS_RR string | SOA_RR soa
  | TXT_RR "string list" | CNAME_RR string | PTR_RR string | MX_RR u16 string
  | SRV_RR u16 u16 u16 string | CAA_RR caa | DNSKEY_RR dnskey | DS_RR ds
  | NSEC_RR string "u16 list" | NSEC3_RR nsec3 | RRSIG_RR rrsig | Other_RR string

record rr =
  rr_hdr :: rr_header
  rr_data :: rdata

abbreviation rr_name :: "rr \<Rightarrow> string" where
  "rr_name r \<equiv> h_name (rr_hdr r)"

abbreviation rr_type :: "rr \<Rightarrow> u16" where
  "rr_type r \<equiv> h_rrtype (rr_hdr r)"

abbreviation rr_ttl :: "rr \<Rightarrow> u32" where
  "rr_ttl r \<equiv> h_ttl (rr_hdr r)"

section \<open>Messages\<close>

text \<open>
  A section is a slice of \<^verbatim>\<open>dns.RR\<close> interfaces, an entry of which may be nil. The EDNS0
  record is its UDP size and DO bit. Transaction ids are not modelled.
\<close>

type_synonym section_rrs = "rr option list"

record question =
  q_name :: string
  q_type :: u16

record msg =
  m_rcode :: int
  m_authoritative :: bool
  m_recursion_available :: bool
  m_recursion_desired :: bool
  m_edns :: "(u16 \<times> bool) option"
  m_question :: "question list"
  m_answer :: section_rrs
  m_ns :: section_rrs

definition new_msg :: msg where
  "new_msg = \<lparr>m_rcode = 0, m_authoritative = False, m_recursion_available = False,
     m_recursion_desired = False, m_edns = None, m_question = [], m_answer = [], m_ns = []\<rparr>"

section \<open>The functions of the package\<close>

text \<open>
  \<open>fqdn\<close> and \<open>isFqdn\<close> are \<^verbatim>\<open>dns.Fqdn\<close> and \<^verbatim>\<open>dns.IsFqdn\<close>; \<open>packName\<close> is
  \<^verbatim>\<open>dns.PackDomainName\<close> into a buffer of 256 bytes without compression, \<^term>\<open>None\<close> for an
  error; \<open>setRcode\<close> is \<^verbatim>\<open>Msg.SetRcode\<close> on a new message; \<open>typeToString\<close> and \<open>rcodeToString\<close> are the tables; \<open>rrString\<close> is a record's
  presentation form.
\<close>

record dnslib =
  fqdn :: "string \<Rightarrow> string"
  isFqdn :: "string \<Rightarrow> bool"
  packName :: "string \<Rightarrow> bytes option"
  setRcode :: "msg \<Rightarrow> int \<Rightarrow> msg"
  typeToString :: "u16 \<Rightarrow> string"
  rcodeToString :: "int \<Rightarrow> string"
  rrString :: "rr \<Rightarrow> string"

text \<open>
  The documented behaviour of the name functions: a fully qualified name ends in a dot and
  is left alone, any other name gets a dot and is then fully qualified, and being fully
  qualified does not depend on the case of letters.
\<close>

definition dns_names_ok :: "dnslib \<Rightarrow> bool" where
  "dns_names_ok L \<longleftrightarrow>
     (\<forall>s. isFqdn L s \<longrightarrow> has_suffix s ''.'' \<and> fqdn L s = s) \<and>
     (\<forall>s. \<not> isFqdn L s \<longrightarrow> fqdn L s = s @ ''.'') \<and>
     (\<forall>s. isFqdn L (fqdn L s)) \<and>
     (\<forall>s. isFqdn L (to_lower s) = isFqdn L s)"

lemma lower_dot [simp]: "lower_char CHR ''.'' = CHR ''.''"
  by (simp add: lower_char_def Let_def)

lemma fqdn_idem [simp]: "dns_names_ok L \<Longrightarrow> fqdn L (fqdn L s) = fqdn L s"
  by (simp add: dns_names_ok_def)

lemma isFqdn_fqdn [simp]: "dns_names_ok L \<Longrightarrow> isFqdn L (fqdn L s)"
  by (simp add: dns_names_ok_def)

lemma fqdn_isFqdn: "dns_names_ok L \<Longrightarrow> isFqdn L s \<Longrightarrow> fqdn L s = s"
  by (simp add: dns_names_ok_def)

lemma fqdn_to_lower: "dns_names_ok L \<Longrightarrow> fqdn L (to_lower s) = to_lower (fqdn L s)"
  by (cases "isFqdn L s") (simp_all add: dns_names_ok_def)

lemma fqdn_ends_dot: "dns_names_ok L \<Longrightarrow> has_suffix (fqdn L s) ''.''"
  by (cases "isFqdn L s") (auto simp: dns_names_ok_def has_suffix_iff)

lemma fqdn_ne [simp]: "dns_names_ok L \<Longrightarrow> fqdn L s \<noteq> []"
  using fqdn_ends_dot [of L s] by (auto simp: has_suffix_iff)

text \<open>A reply carries its code and starts with empty sections and clear flags.\<close>

definition dns_reply_ok :: "dnslib \<Rightarrow> bool" where
  "dns_reply_ok L \<longleftrightarrow> (\<forall>m c. m_rcode (setRcode L m c) = c \<and> m_answer (setRcode L m c) = [] \<and>
     m_ns (setRcode L m c) = [] \<and> \<not> m_authoritative (setRcode L m c) \<and>
     \<not> m_recursion_available (setRcode L m c))"

lemma setRcode_simps [simp]:
  assumes "dns_reply_ok L"
  shows "m_rcode (setRcode L m c) = c" "m_answer (setRcode L m c) = []" "m_ns (setRcode L m c) = []"
    "\<not> m_authoritative (setRcode L m c)" "\<not> m_recursion_available (setRcode L m c)"
  using assms by (simp_all add: dns_reply_ok_def)

text \<open>
  A concrete library for examples: names without escapes, labels of at most 63 bytes.
\<close>

definition plain_pack :: "string \<Rightarrow> bytes option" where
  "plain_pack s = (if s = ''.'' then Some [0] else
     (let ls = split_on CHR ''.'' (trim_suffix s ''.'') in
      if list_all (\<lambda>l. 0 < length l \<and> length l < 64) ls \<and> length s \<le> 254
      then Some (concat (map (\<lambda>l. word_of_nat (length l) # bytes_of l) ls) @ [0]) else None))"

definition plain_lib :: dnslib where
  "plain_lib = \<lparr>fqdn = (\<lambda>s. if has_suffix s ''.'' then s else s @ ''.''),
     isFqdn = (\<lambda>s. has_suffix s ''.''), packName = plain_pack,
     setRcode = (\<lambda>m c. new_msg\<lparr>m_rcode := c, m_question := take 1 (m_question m)\<rparr>),
     typeToString = (\<lambda>t. if t = TypeA then ''A'' else if t = TypeNS then ''NS''
        else if t = TypeSOA then ''SOA'' else if t = TypeTXT then ''TXT'' else ''''),
     rcodeToString = (\<lambda>c. if c = 0 then ''NOERROR'' else if c = 3 then ''NXDOMAIN'' else ''''),
     rrString = (\<lambda>r. rr_name r)\<rparr>"

lemma has_suffix_to_lower_dot: "has_suffix (to_lower s) ''.'' = has_suffix s ''.''"
proof
  assume "has_suffix (to_lower s) ''.''"
  then obtain a where a: "to_lower s = a @ ''.''" by (auto simp: has_suffix_iff)
  then obtain b c where s: "s = b @ [c]" by (cases s rule: rev_cases) auto
  with a have "lower_char c = CHR ''.''" by simp
  then have "c = CHR ''.''"
    by (cases "65 \<le> (of_char c :: nat) \<and> (of_char c :: nat) \<le> 90")
      (auto simp: lower_char_def Let_def char_of_eq_iff take_bit_eq_mod)
  with s show "has_suffix s ''.''" by (auto simp: has_suffix_iff)
qed (auto simp: has_suffix_iff)

lemma plain_lib_ok: "dns_names_ok plain_lib"
  by (auto simp: dns_names_ok_def plain_lib_def has_suffix_to_lower_dot) (auto simp: has_suffix_iff)

lemma plain_lib_reply: "dns_reply_ok plain_lib"
  by (simp add: dns_reply_ok_def plain_lib_def new_msg_def)

end
