(* ===== verification/Network.thy ===== *)
theory Network
  imports Budget DnsLib "HOL-Library.Product_Lexorder"
begin

text \<open>
  \<^verbatim>\<open>internal/resolver/network.go\<close>: the resolver over UDP and TCP. What the wire answers,
  when the context is done and what the system's resolver file says are arguments; the
  choice of server, the spending of the budget, the order of attempts and the bound on a
  transfer are the source's.
\<close>

section \<open>Errors\<close>

datatype go_error = DeadlineExceeded | Canceled | ErrNoQuestion | ErrZoneRefused | OtherError string

section \<open>The server address\<close>

text \<open>The position of the last colon; \<^verbatim>\<open>net.SplitHostPort\<close> succeeding.\<close>

definition last_index :: "char \<Rightarrow> string \<Rightarrow> nat option" where
  "last_index c s = (case filter (\<lambda>i. s ! i = c) [0..<length s] of [] \<Rightarrow> None | xs \<Rightarrow> Some (last xs))"

definition index_byte :: "char \<Rightarrow> string \<Rightarrow> nat option" where
  "index_byte c s = find (\<lambda>i. s ! i = c) [0..<length s]"

definition splitHostPortOk :: "string \<Rightarrow> bool" where
  "splitHostPortOk s =
     (case last_index CHR '':'' s of None \<Rightarrow> False
      | Some i \<Rightarrow>
          if take 1 s = ''['' then
            (case index_byte CHR '']'' s of None \<Rightarrow> False
             | Some e \<Rightarrow> e + 1 = i \<and> CHR ''['' \<notin> set (drop 1 s) \<and> CHR '']'' \<notin> set (drop (e + 1) s))
          else CHR '':'' \<notin> set (take i s) \<and> CHR ''['' \<notin> set s \<and> CHR '']'' \<notin> set s)"

definition joinPort :: "string \<Rightarrow> string" where
  "joinPort host = (if splitHostPortOk host then host else host @ '':53'')"

text \<open>The servers of the system's resolver file; \<^term>\<open>None\<close> when it cannot be read.\<close>

definition systemResolver :: "string list option \<Rightarrow> string option" where
  "systemResolver conf = (case conf of None \<Rightarrow> None | Some [] \<Rightarrow> None | Some (s # _) \<Rightarrow> Some s)"

definition defaultServer :: "string list option \<Rightarrow> string list \<Rightarrow> string" where
  "defaultServer conf resolvers =
     (case resolvers of r # _ \<Rightarrow> joinPort r
      | [] \<Rightarrow> (case systemResolver conf of Some srv \<Rightarrow> joinPort srv | None \<Rightarrow> ''1.1.1.1:53''))"

section \<open>The resolver\<close>

record config =
  cfg_timeout :: int
  cfg_retries :: int
  cfg_edns :: bool
  cfg_dnssec :: bool
  cfg_budget :: budget
  cfg_udpaddr :: string

record network =
  nw_client_timeout :: int
  nw_cfg :: config
  nw_bud :: budget
  nw_counter :: counter
  nw_rate :: limiter
  nw_sem :: semaphore

definition newNetwork :: "int \<Rightarrow> config \<Rightarrow> network" where
  "newNetwork now cfg =
     (let b = budgetValidated (cfg_budget cfg);
          timeout = (if cfg_timeout cfg \<le> 0 then PerTimeout b else cfg_timeout cfg)
      in \<lparr>nw_client_timeout = timeout, nw_cfg = cfg, nw_bud = b,
          nw_counter = newCounter (MaxQueries b),
          nw_rate = newRateLimiter (of_int (MaxQPS b)) now,
          nw_sem = newSemaphore (MaxConcurrency b)\<rparr>)"

text \<open>
  \<^verbatim>\<open>spend\<close> as one caller runs it: consume, wait, acquire. Whether the context is done at
  the two waits is an argument; acquiring blocks while the semaphore is full unless the
  context is done, and the outer \<^term>\<open>None\<close> is a caller blocked for ever.
\<close>

definition spend :: "(int \<times> bool) list \<Rightarrow> bool \<Rightarrow> network \<Rightarrow> (go_error + unit) option \<times> network" where
  "spend turns cancelled n =
     (let (ok, c) = counterConsume (nw_counter n); n1 = n\<lparr>nw_counter := c\<rparr> in
      if \<not> ok then (Some (Inl DeadlineExceeded), n1)
      else (case rateWait turns (nw_rate n1) of
          (r, None) \<Rightarrow> (None, n1\<lparr>nw_rate := r\<rparr>)
        | (r, Some False) \<Rightarrow> (Some (Inl Canceled), n1\<lparr>nw_rate := r\<rparr>)
        | (r, Some True) \<Rightarrow>
            (let n2 = n1\<lparr>nw_rate := r\<rparr> in
             if cancelled then (Some (Inl Canceled), n2)
             else (case semAcquire (nw_sem n2) of
                 None \<Rightarrow> (None, n2)
               | Some s \<Rightarrow> (Some (Inr ()), n2\<lparr>nw_sem := s\<rparr>)))))"

definition release :: "network \<Rightarrow> network" where
  "release n = (case semRelease (nw_sem n) of None \<Rightarrow> n | Some s \<Rightarrow> n\<lparr>nw_sem := s\<rparr>)"

section \<open>One query\<close>

datatype transport = Udp | Tcp

text \<open>The order in which the transports of an attempt are tried.\<close>

instantiation transport :: linorder
begin

definition less_eq_transport :: "transport \<Rightarrow> transport \<Rightarrow> bool" where
  "s \<le> t \<longleftrightarrow> s = Udp \<or> t = Tcp"

definition less_transport :: "transport \<Rightarrow> transport \<Rightarrow> bool" where
  "s < t \<longleftrightarrow> s = Udp \<and> t = Tcp"

instance
  by standard (metis less_eq_transport_def less_transport_def transport.exhaust transport.distinct(1))+

end

text \<open>
  \<^verbatim>\<open>send\<close>: what the exchange returned, unless the context was done first, in which case the
  result is dropped for the context's error.
\<close>

definition netSend :: "go_error option \<Rightarrow> go_error + msg option \<Rightarrow> go_error + msg option" where
  "netSend ctxErr outcome = (case ctxErr of Some e \<Rightarrow> Inl e | None \<Rightarrow> outcome)"

text \<open>
  The retry loop: attempt \<open>a\<close> of \<open>k\<close> left, what each send gives (\<open>ex\<close>) and the context's
  error after the UDP send of an attempt (\<open>ctx\<close>). The result carries the sends made.
\<close>

fun attempts :: "(nat \<Rightarrow> transport \<Rightarrow> go_error + msg option) \<Rightarrow> (nat \<Rightarrow> go_error option) \<Rightarrow> nat \<Rightarrow> nat
    \<Rightarrow> (nat \<times> transport) list \<times> (go_error + msg option)" where
  "attempts ex ctx a 0 = ([], Inl DeadlineExceeded)"
| "attempts ex ctx a (Suc k) =
     (case ex a Udp of
        Inr (Some m) \<Rightarrow> ([(a, Udp)], Inr (Some m))
      | _ \<Rightarrow>
        (case ctx a of Some e \<Rightarrow> ([(a, Udp)], Inl e)
         | None \<Rightarrow>
           (case ex a Tcp of
              Inr m \<Rightarrow> ([(a, Udp), (a, Tcp)], Inr m)
            | Inl _ \<Rightarrow> (let (sent, res) = attempts ex ctx (Suc a) k
                        in ((a, Udp) # (a, Tcp) # sent, res)))))"

definition netServer :: "string list option \<Rightarrow> network \<Rightarrow> string \<Rightarrow> string" where
  "netServer conf n server0 =
     (let server = (if server0 = '''' then cfg_udpaddr (nw_cfg n) else server0)
      in if server = '''' then defaultServer conf [] else server)"

definition netRetries :: "network \<Rightarrow> nat" where
  "netRetries n = (if cfg_retries (nw_cfg n) < 0 then 0 else nat (cfg_retries (nw_cfg n)))"

text \<open>The answer of \<^verbatim>\<open>Query\<close> with the server used and the sends made.\<close>

definition netQuery :: "string list option \<Rightarrow> (string \<Rightarrow> nat \<Rightarrow> transport \<Rightarrow> go_error + msg option) \<Rightarrow>
    (nat \<Rightarrow> go_error option) \<Rightarrow> (int \<times> bool) list \<Rightarrow> bool \<Rightarrow> string \<Rightarrow> network \<Rightarrow>
    ((nat \<times> transport) list \<times> (go_error + msg option)) option \<times> network" where
  "netQuery conf ex ctx turns cancelled server n =
     (case spend turns cancelled n of
        (None, n') \<Rightarrow> (None, n')
      | (Some (Inl e), n') \<Rightarrow> (Some ([], Inl e), n')
      | (Some (Inr _), n') \<Rightarrow>
          (Some (attempts (ex (netServer conf n' server)) ctx 0 (netRetries n' + 1)), release n'))"

text \<open>\<^verbatim>\<open>perContext\<close>: the time left to the deadline of the context, when it has one.\<close>

definition perContext :: "network \<Rightarrow> int option \<Rightarrow> int" where
  "perContext n remaining =
     (let per = (case remaining of None \<Rightarrow> PerTimeout (nw_bud n)
                 | Some t \<Rightarrow> if t < PerTimeout (nw_bud n) then t else PerTimeout (nw_bud n))
      in if per \<le> 0 then PerTimeout (nw_bud n) else per)"

section \<open>Transfers\<close>

definition maxTransfer :: nat where "maxTransfer = 100000"

text \<open>One loop of \<^verbatim>\<open>extractTransfer\<close>: the bound is tested after each append.\<close>

fun extractLoop :: "nat \<Rightarrow> rr list \<Rightarrow> section_rrs \<Rightarrow> rr list" where
  "extractLoop mx out [] = out"
| "extractLoop mx out (None # rs) = extractLoop mx out rs"
| "extractLoop mx out (Some r # rs) =
     (if mx \<le> length (out @ [r]) then out @ [r] else extractLoop mx (out @ [r]) rs)"

definition extractTransfer :: "msg option \<Rightarrow> rr list" where
  "extractTransfer resp =
     (case resp of None \<Rightarrow> []
      | Some m \<Rightarrow> extractLoop maxTransfer (extractLoop maxTransfer [] (m_answer m)) (m_ns m))"

definition netTransfer :: "go_error + msg option \<Rightarrow> (int \<times> bool) list \<Rightarrow> bool \<Rightarrow> network \<Rightarrow>
    (go_error + rr list) option \<times> network" where
  "netTransfer exchange turns cancelled n =
     (case spend turns cancelled n of
        (None, n') \<Rightarrow> (None, n')
      | (Some (Inl e), n') \<Rightarrow> (Some (Inl e), n')
      | (Some (Inr _), n') \<Rightarrow>
          (Some (case exchange of Inl e \<Rightarrow> Inl e | Inr m \<Rightarrow> Inr (extractTransfer m)), release n'))"

section \<open>Lemmas: the transfer bound\<close>

lemma extractLoop_take:
  "length out < mx \<Longrightarrow> extractLoop mx out rs = out @ take (mx - length out) (somes rs)"
proof (induction mx out rs rule: extractLoop.induct)
  case (3 mx out r rs)
  then have "mx - length out = Suc (mx - Suc (length out))" by simp
  with 3 show ?case by (auto simp: not_le)
qed auto

lemma extractLoop_full: "mx \<le> length out \<Longrightarrow> extractLoop mx out rs = out @ take 1 (somes rs)"
  by (induction rs) (auto simp: somes_Cons split: option.splits)

text \<open>
  What a transfer keeps of a response: the first 100000 non-nil answer records, and then as
  many authority records as fit; but when the answer section alone fills the bound one
  authority record is still appended, so the bound is exceeded by one.
\<close>

theorem extractTransfer_eq:
  "extractTransfer (Some m) =
     take 100000 (somes (m_answer m)) @
     take (if 100000 \<le> length (somes (m_answer m)) then 1 else 100000 - length (somes (m_answer m)))
       (somes (m_ns m))"
proof (cases "maxTransfer \<le> length (somes (m_answer m))")
  case True
  then show ?thesis
    using extractLoop_take [of "[]" maxTransfer "m_answer m"]
      extractLoop_full [of maxTransfer "take maxTransfer (somes (m_answer m))" "m_ns m"]
    by (simp add: extractTransfer_def maxTransfer_def)
next
  case False
  then show ?thesis
    using extractLoop_take [of "[]" maxTransfer "m_answer m"]
      extractLoop_take [of "somes (m_answer m)" maxTransfer "m_ns m"]
    by (simp add: extractTransfer_def maxTransfer_def)
qed

section \<open>Lemmas: queries\<close>

text \<open>The sends of an attempt loop: UDP then TCP, attempt by attempt, without a gap.\<close>

definition send_plan :: "nat \<Rightarrow> nat \<Rightarrow> (nat \<times> transport) list" where
  "send_plan a k = concat (map (\<lambda>i. [(i, Udp), (i, Tcp)]) [a..<a + k])"

lemma send_plan_Suc: "send_plan a (Suc k) = (a, Udp) # (a, Tcp) # send_plan (Suc a) k"
  by (simp add: send_plan_def upt_conv_Cons del: upt_Suc)

lemma length_send_plan [simp]: "length (send_plan a k) = 2 * k"
  by (induction k arbitrary: a) (auto simp: send_plan_Suc, simp add: send_plan_def)

text \<open>A send that \<^verbatim>\<open>Query\<close> takes as its answer: a message, or over TCP any result that is no error.\<close>

definition accepted :: "transport \<Rightarrow> go_error + msg option \<Rightarrow> bool" where
  "accepted t r \<longleftrightarrow> (case r of Inl _ \<Rightarrow> False | Inr m \<Rightarrow> t = Tcp \<or> m \<noteq> None)"

lemma accepted_Udp: "accepted Udp r \<longleftrightarrow> (\<exists>m. r = Inr (Some m))"
  by (auto simp: accepted_def split: sum.splits)

lemma accepted_Tcp: "accepted Tcp r \<longleftrightarrow> (\<exists>m. r = Inr m)"
  by (auto simp: accepted_def split: sum.splits)

lemma attempts_udp_ok: "ex a Udp = Inr (Some m) \<Longrightarrow> attempts ex ctx a (Suc k) = ([(a, Udp)], Inr (Some m))"
  by simp

lemma attempts_udp_fail:
  "\<not> accepted Udp (ex a Udp) \<Longrightarrow> attempts ex ctx a (Suc k) =
     (case ctx a of Some e \<Rightarrow> ([(a, Udp)], Inl e)
      | None \<Rightarrow> (case ex a Tcp of Inr m \<Rightarrow> ([(a, Udp), (a, Tcp)], Inr m)
         | Inl _ \<Rightarrow> (let (sent, res) = attempts ex ctx (Suc a) k in ((a, Udp) # (a, Tcp) # sent, res))))"
  by (cases "ex a Udp") (auto simp: accepted_def split: option.splits)

declare attempts.simps(2) [simp del]

lemma attempts_spec:
  assumes ctx: "\<And>i. ctx i = None"
  shows "attempts ex ctx a k =
    (case find (\<lambda>(i, t). accepted t (ex i t)) (send_plan a k) of
       None \<Rightarrow> (send_plan a k, Inl DeadlineExceeded)
     | Some (i, t) \<Rightarrow> (takeWhile (\<lambda>x. x \<noteq> (i, t)) (send_plan a k) @ [(i, t)], ex i t))"
proof (induction k arbitrary: a)
  case 0
  then show ?case by (simp add: send_plan_def)
next
  case (Suc k)
  have ne: "i \<noteq> a" if "find (\<lambda>(i, t). accepted t (ex i t)) (send_plan (Suc a) k) = Some (i, t)" for i t
    using that by (auto simp: find_Some_iff send_plan_def dest!: nth_mem)
  show ?case
  proof (cases "accepted Udp (ex a Udp)")
    case True
    then obtain m where "ex a Udp = Inr (Some m)" by (auto simp: accepted_Udp)
    then show ?thesis by (simp add: attempts_udp_ok send_plan_Suc accepted_Udp)
  next
    case udp: False
    show ?thesis
    proof (cases "accepted Tcp (ex a Tcp)")
      case True
      then obtain m where "ex a Tcp = Inr m" by (auto simp: accepted_Tcp)
      then show ?thesis using udp ctx by (simp add: attempts_udp_fail send_plan_Suc accepted_Tcp)
    next
      case False
      then obtain e where "ex a Tcp = Inl e" by (cases "ex a Tcp") (auto simp: accepted_Tcp)
      then show ?thesis
        using udp False ctx Suc ne by (auto simp: attempts_udp_fail send_plan_Suc split: option.splits)
    qed
  qed
qed

lemma length_attempts: "length (fst (attempts ex ctx a k)) \<le> 2 * k"
proof (induction k arbitrary: a)
  case (Suc k)
  show ?case
  proof (cases "accepted Udp (ex a Udp)")
    case True
    then show ?thesis by (auto simp: accepted_Udp attempts_udp_ok)
  next
    case False
    then show ?thesis using Suc [of "Suc a"]
      by (auto simp: attempts_udp_fail Let_def split_beta split: option.splits sum.splits)
  qed
qed simp

text \<open>The sends of a query, in the order of attempts and transports: none is repeated.\<close>

lemma attempts_ascending:
  "sorted_wrt (<) (fst (attempts ex ctx a k)) \<and> (\<forall>x \<in> set (fst (attempts ex ctx a k)). a \<le> fst x)"
proof (induction k arbitrary: a)
  case (Suc k)
  have up: "(a, Udp) < (a, Tcp)" by (simp add: less_transport_def)
  show ?case
  proof (cases "accepted Udp (ex a Udp)")
    case True
    then show ?thesis by (auto simp: accepted_Udp attempts_udp_ok)
  next
    case False
    have "(a, t) < x \<and> a \<le> fst x" if "x \<in> set (fst (attempts ex ctx (Suc a) k))" for t x
      using Suc [of "Suc a"] that by (cases x) (auto simp: Suc_le_eq)
    then show ?thesis using False up Suc [of "Suc a"]
      by (auto simp: attempts_udp_fail Let_def split_beta split: option.splits sum.splits)
  qed
qed simp

text \<open>
  C18. Without a cancellation, one query tries UDP then TCP, attempt after attempt for
  \<^verbatim>\<open>Retries\<close> + 1 attempts, stops at the first send that is accepted and returns its result; the
  error is returned exactly when none is accepted, after all the sends.
\<close>

theorem netQuery_first_accepted:
  assumes "spend turns cancelled n = (Some (Inr ()), n')" and "\<And>i. ctx i = None"
  shows "fst (netQuery conf ex ctx turns cancelled server n) = Some
    (let plan = send_plan 0 (Suc (netRetries n')); answer = ex (netServer conf n' server) in
     case find (\<lambda>(i, t). accepted t (answer i t)) plan of
       None \<Rightarrow> (plan, Inl DeadlineExceeded)
     | Some (i, t) \<Rightarrow> (takeWhile (\<lambda>x. x \<noteq> (i, t)) plan @ [(i, t)], answer i t))"
  using attempts_spec [of ctx "ex (netServer conf n' server)" 0 "Suc (netRetries n')"] assms
  by (simp add: netQuery_def Let_def)

definition ex_net :: network where
  "ex_net = newNetwork 0 \<lparr>cfg_timeout = 0, cfg_retries = 1, cfg_edns = False, cfg_dnssec = False,
     cfg_budget = \<lparr>MaxQueries = 2, MaxQPS = 1, MaxConcurrency = 0, PerTimeout = 0, RecursionLimit = 0\<rparr>,
     cfg_udpaddr = ''1.1.1.1:53''\<rparr>"

lemma ex_net_spend:
  "spend [(0, False)] False ex_net = (Some (Inr ()), snd (spend [(0, False)] False ex_net))"
  "netRetries (snd (spend [(0, False)] False ex_net)) = 1"
  by (simp_all add: ex_net_def newNetwork_def spend_def counterConsume_def newCounter_def
      newRateLimiter_def waitTurn_full semAcquire_def newSemaphore_def netRetries_def)

theorem netQuery_first_accepted_witness:
  "fst (netQuery None (\<lambda>s i t. if i = 1 \<and> t = Tcp then Inr (Some new_msg) else Inl Canceled)
     (\<lambda>_. None) [(0, False)] False [] ex_net)
   = Some ([(0, Udp), (0, Tcp), (1, Udp), (1, Tcp)], Inr (Some new_msg))"
proof -
  have p: "send_plan 0 2 = [(0, Udp), (0, Tcp), (1, Udp), (1, Tcp)]"
    by (simp add: send_plan_def upt_conv_Cons numeral_2_eq_2)
  show ?thesis
    using netQuery_first_accepted [OF ex_net_spend(1), of "\<lambda>_. None" None
        "\<lambda>s i t. if i = 1 \<and> t = Tcp then Inr (Some new_msg) else Inl Canceled" "[]"]
    by (simp add: ex_net_spend(2) Let_def numeral_2_eq_2 [symmetric] p accepted_def del: One_nat_def)
qed

text \<open>What \<^verbatim>\<open>spend\<close> does to the resolver: one query of the budget, one slot when it succeeds.\<close>

lemma spend_frame:
  "nw_cfg (snd (spend turns cancelled n)) = nw_cfg n"
  "nw_bud (snd (spend turns cancelled n)) = nw_bud n"
  by (auto simp: spend_def Let_def split: prod.splits option.splits bool.splits)

lemma spend_counter:
  "ct_remaining (nw_counter (snd (spend turns cancelled n))) =
     (if 0 < ct_remaining (nw_counter n) then ct_remaining (nw_counter n) - 1 else ct_remaining (nw_counter n))"
  by (auto simp: spend_def counterConsume_def Let_def split: prod.splits option.splits bool.splits)

lemma spend_sem:
  "nw_sem (snd (spend turns cancelled n)) =
     (if fst (spend turns cancelled n) = Some (Inr ())
      then (nw_sem n)\<lparr>sm_held := sm_held (nw_sem n) + 1\<rparr> else nw_sem n)"
  by (auto simp: spend_def Let_def semAcquire_Some split: prod.splits option.splits bool.splits)

lemma release_spend:
  "fst (spend turns cancelled n) = Some (Inr ()) \<Longrightarrow>
     nw_sem (release (snd (spend turns cancelled n))) = nw_sem n"
  by (simp add: release_def semRelease_def spend_sem)

text \<open>The account of one query, proved once for the property below and for the runs that make queries.\<close>

lemma netQuery_frame:
  "nw_sem (snd (netQuery conf ex ctx turns cancelled server n)) = nw_sem n \<and>
   ct_remaining (nw_counter (snd (netQuery conf ex ctx turns cancelled server n)))
     = ct_remaining (nw_counter n) - (if 0 < ct_remaining (nw_counter n) then 1 else 0) \<and>
   (case fst (netQuery conf ex ctx turns cancelled server n) of
      None \<Rightarrow> True
    | Some (sent, res) \<Rightarrow> sorted_wrt (<) sent \<and> length sent \<le> 2 * (netRetries n + 1) \<and>
        (ct_remaining (nw_counter n) \<le> 0 \<longrightarrow> sent = [] \<and> res = Inl DeadlineExceeded))"
proof -
  obtain r n' where s: "spend turns cancelled n = (r, n')" by (cases "spend turns cancelled n")
  have c: "ct_remaining (nw_counter n') = ct_remaining (nw_counter n) - (if 0 < ct_remaining (nw_counter n) then 1 else 0)"
    using spend_counter [of turns cancelled n] s by simp
  have ret: "netRetries n' = netRetries n"
    using spend_frame(1) [of turns cancelled n] s by (simp add: netRetries_def)
  have rel: "nw_counter (release n') = nw_counter n'" by (simp add: release_def split: option.splits)
  have exhausted: "r = Some (Inl DeadlineExceeded)" if "ct_remaining (nw_counter n) \<le> 0"
    using that s by (simp add: spend_def counterConsume_def)
  consider "r = None" | e where "r = Some (Inl e)" | "r = Some (Inr ())" by (metis option.exhaust old.sum.exhaust unit.exhaust)
  then show ?thesis
  proof cases
    case 3
    have "nw_sem (release n') = nw_sem n" using release_spend [of turns cancelled n] s 3 by simp
    moreover have "0 < ct_remaining (nw_counter n)" using exhausted 3 by fastforce
    ultimately show ?thesis
      using 3 s c rel ret length_attempts [of "ex (netServer conf n' server)" ctx 0 "netRetries n' + 1"]
        attempts_ascending [of "ex (netServer conf n' server)" ctx 0 "netRetries n' + 1"]
      by (auto simp: netQuery_def split: prod.splits)
  qed (use s c exhausted spend_sem [of turns cancelled n] in \<open>auto simp: netQuery_def\<close>)
qed

text \<open>
  C19. The account of one query, on every path: the counter goes down by one unless it was
  exhausted, the slot of the semaphore is given back (also when the query fails, is cancelled or
  is refused), and at most two sends per attempt are made, UDP before TCP and none repeated; so the budget counts calls of
  \<^verbatim>\<open>Query\<close>, not the packets they send.
\<close>

theorem netQuery_account:
  "nw_sem (snd (netQuery conf ex ctx turns cancelled server n)) = nw_sem n \<and>
   ct_remaining (nw_counter (snd (netQuery conf ex ctx turns cancelled server n)))
     = ct_remaining (nw_counter n) - (if 0 < ct_remaining (nw_counter n) then 1 else 0) \<and>
   (case fst (netQuery conf ex ctx turns cancelled server n) of
      None \<Rightarrow> True
    | Some (sent, res) \<Rightarrow> sorted_wrt (<) sent \<and> length sent \<le> 2 * (netRetries n + 1) \<and>
        (ct_remaining (nw_counter n) \<le> 0 \<longrightarrow> sent = [] \<and> res = Inl DeadlineExceeded))"
  by (rule netQuery_frame)

theorem netQuery_account_witness:
  "ct_remaining (nw_counter (snd (netQuery None (\<lambda>s i t. Inl Canceled) (\<lambda>_. None) [(0, False)] False [] ex_net))) = 1"
  using netQuery_account [of None "\<lambda>s i t. Inl Canceled" "\<lambda>_. None" "[(0, False)]" False "[]" ex_net]
  by (simp add: ex_net_def newNetwork_def newCounter_def)

lemma netTransfer_frame:
  "nw_sem (snd (netTransfer xch turns cancelled n)) = nw_sem n \<and>
   ct_remaining (nw_counter (snd (netTransfer xch turns cancelled n)))
     = ct_remaining (nw_counter n) - (if 0 < ct_remaining (nw_counter n) then 1 else 0)"
proof -
  obtain r n' where s: "spend turns cancelled n = (r, n')" by (cases "spend turns cancelled n")
  have c: "ct_remaining (nw_counter n') = ct_remaining (nw_counter n) - (if 0 < ct_remaining (nw_counter n) then 1 else 0)"
    using spend_counter [of turns cancelled n] s by simp
  have rel: "nw_counter (release n') = nw_counter n'" by (simp add: release_def split: option.splits)
  consider "r = None" | e where "r = Some (Inl e)" | "r = Some (Inr ())" by (metis option.exhaust old.sum.exhaust unit.exhaust)
  then show ?thesis
  proof cases
    case 3
    have "nw_sem (release n') = nw_sem n" using release_spend [of turns cancelled n] s 3 by simp
    then show ?thesis using 3 s c rel by (simp add: netTransfer_def)
  qed (use s c spend_sem [of turns cancelled n] in \<open>auto simp: netTransfer_def\<close>)
qed

lemma perContext_bounds: "0 < PerTimeout (nw_bud n) \<Longrightarrow> 0 < perContext n d \<and> perContext n d \<le> PerTimeout (nw_bud n)"
  by (auto simp: perContext_def Let_def split: option.splits)

text \<open>
  Every send of a resolver built from a configuration has a time limit that is positive and
  at most the validated per-server timeout, whatever deadline the context carries.
\<close>

theorem perContext_within_budget:
  "0 < perContext (newNetwork now cfg) deadline \<and>
   perContext (newNetwork now cfg) deadline \<le> PerTimeout (budgetValidated (cfg_budget cfg))"
  using perContext_bounds [of "newNetwork now cfg" deadline] by (simp add: newNetwork_def Let_def)

end
