(* ===== verification/Concurrency.thy ===== *)
theory Concurrency
  imports Network
begin

text \<open>
  Concurrent callers of one \<^verbatim>\<open>NetworkResolver\<close> (\<^verbatim>\<open>internal/resolver/network.go\<close>). Each caller
  runs \<^verbatim>\<open>spend\<close>, is in flight while it exchanges, and ends with the deferred \<^verbatim>\<open>release\<close>; the
  steps are the atomic operations of the counter, the limiter and the semaphore, interleaved
  in any order.
\<close>

section \<open>Steps\<close>

datatype phase = Idle | Consumed | Admitted | InFlight | Answered | Refused | Cancelled

record pool =
  pl_net :: network
  pl_phase :: "nat \<Rightarrow> phase"

abbreviation goes :: "pool \<Rightarrow> nat \<Rightarrow> phase \<Rightarrow> (network \<Rightarrow> network) \<Rightarrow> pool" where
  "goes p i ph upd \<equiv> p\<lparr>pl_net := upd (pl_net p), pl_phase := (pl_phase p)(i := ph)\<rparr>"

inductive pool_step :: "pool \<Rightarrow> pool \<Rightarrow> bool" where
  consume: "pl_phase p i = Idle \<Longrightarrow> counterConsume (nw_counter (pl_net p)) = (True, c)
     \<Longrightarrow> pool_step p (goes p i Consumed (nw_counter_update (\<lambda>_. c)))"
| refuse: "pl_phase p i = Idle \<Longrightarrow> counterConsume (nw_counter (pl_net p)) = (False, c)
     \<Longrightarrow> pool_step p (goes p i Refused (nw_counter_update (\<lambda>_. c)))"
| admit: "pl_phase p i = Consumed \<Longrightarrow> waitTurn now (nw_rate (pl_net p)) = (r, None)
     \<Longrightarrow> pool_step p (goes p i Admitted (nw_rate_update (\<lambda>_. r)))"
| sleep: "pl_phase p i = Consumed \<Longrightarrow> waitTurn now (nw_rate (pl_net p)) = (r, Some d)
     \<Longrightarrow> pool_step p (goes p i Consumed (nw_rate_update (\<lambda>_. r)))"
| cancel_wait: "pl_phase p i = Consumed \<Longrightarrow> waitTurn now (nw_rate (pl_net p)) = (r, Some d)
     \<Longrightarrow> pool_step p (goes p i Cancelled (nw_rate_update (\<lambda>_. r)))"
| cancel_acquire: "pl_phase p i = Admitted \<Longrightarrow> pool_step p (goes p i Cancelled (\<lambda>n. n))"
| acquire: "pl_phase p i = Admitted \<Longrightarrow> semAcquire (nw_sem (pl_net p)) = Some s
     \<Longrightarrow> pool_step p (goes p i InFlight (nw_sem_update (\<lambda>_. s)))"
| finish: "pl_phase p i = InFlight \<Longrightarrow> pool_step p (goes p i Answered release)"

inductive_cases pool_stepE: "pool_step p q"

text \<open>A caller moves along these edges only: it exchanges after it has paid, waited and acquired.\<close>

lemma pool_step_edges:
  "pool_step p q \<Longrightarrow> pl_phase p i \<noteq> pl_phase q i \<Longrightarrow> (pl_phase p i, pl_phase q i) \<in>
     {(Idle, Consumed), (Idle, Refused), (Consumed, Admitted), (Consumed, Cancelled),
      (Admitted, Cancelled), (Admitted, InFlight), (InFlight, Answered)}"
  by (erule pool_stepE) (auto split: if_splits)

definition pool_start :: "int \<Rightarrow> config \<Rightarrow> pool" where
  "pool_start now cfg = \<lparr>pl_net = newNetwork now cfg, pl_phase = (\<lambda>_. Idle)\<rparr>"

section \<open>The invariant\<close>

definition callers :: "(nat \<Rightarrow> phase) \<Rightarrow> phase set \<Rightarrow> nat set" where
  "callers f ps = {i. f i \<in> ps}"

text \<open>The phases of a caller that holds one query of the budget.\<close>

definition paid :: "phase set" where
  "paid = {Consumed, Admitted, InFlight, Answered, Cancelled}"

definition pool_inv :: "nat \<Rightarrow> int \<Rightarrow> pool \<Rightarrow> bool" where
  "pool_inv w m p \<longleftrightarrow> finite (callers (pl_phase p) (- {Idle})) \<and>
     sm_width (nw_sem (pl_net p)) = w \<and> sm_held (nw_sem (pl_net p)) = card (callers (pl_phase p) {InFlight}) \<and>
     sm_held (nw_sem (pl_net p)) \<le> w \<and> 0 \<le> ct_remaining (nw_counter (pl_net p)) \<and>
     ct_remaining (nw_counter (pl_net p)) + int (card (callers (pl_phase p) paid)) = m"

lemma callers_upd:
  "callers (f(i := ph)) ps = (if ph \<in> ps then insert i (callers f ps) else callers f ps - {i})"
  by (auto simp: callers_def)

lemma finite_callers: "finite (callers f (- {Idle})) \<Longrightarrow> Idle \<notin> ps \<Longrightarrow> finite (callers f ps)"
  by (erule rev_finite_subset) (auto simp: callers_def)

lemma finite_upd: "finite (callers f (- {Idle})) \<Longrightarrow> finite (callers (f(i := ph)) (- {Idle}))"
  by (simp add: callers_upd)

lemma card_upd:
  assumes "finite (callers f (- {Idle}))" and "Idle \<notin> ps"
  shows "card (callers (f(i := ph)) ps) =
    (if ph \<in> ps then if f i \<in> ps then card (callers f ps) else Suc (card (callers f ps))
     else if f i \<in> ps then card (callers f ps) - 1 else card (callers f ps))"
proof -
  have "i \<in> callers f ps \<longleftrightarrow> f i \<in> ps" by (simp add: callers_def)
  then show ?thesis using finite_callers [OF assms] by (auto simp: callers_upd insert_absorb)
qed

lemma card_callers_pos:
  "finite (callers f (- {Idle})) \<Longrightarrow> Idle \<notin> ps \<Longrightarrow> f i \<in> ps \<Longrightarrow> 0 < card (callers f ps)"
  using finite_callers [of f ps] by (auto simp: callers_def card_gt_0_iff)

lemma pool_inv_start:
  "pool_inv (sm_width (nw_sem (newNetwork now cfg))) (ct_remaining (nw_counter (newNetwork now cfg)))
     (pool_start now cfg)"
  by (simp add: pool_inv_def pool_start_def callers_def paid_def newNetwork_def Let_def newCounter_def)

lemma paid_iff [simp]: "ph \<in> paid \<longleftrightarrow> ph \<noteq> Idle \<and> ph \<noteq> Refused"
  by (cases ph) (auto simp: paid_def)

text \<open>
  One caller moves from its phase to \<open>ph\<close>: the counter pays for a caller that becomes paid,
  the semaphore for one that becomes in flight.
\<close>

lemma pool_inv_move:
  assumes inv: "pool_inv w m p"
    and sem: "sm_width (nw_sem n) = sm_width (nw_sem (pl_net p))"
      "sm_held (nw_sem n) + of_bool (pl_phase p i = InFlight) = sm_held (nw_sem (pl_net p)) + of_bool (ph = InFlight)"
      "sm_held (nw_sem n) \<le> w"
    and ctr: "0 \<le> ct_remaining (nw_counter n)"
      "ct_remaining (nw_counter n) + of_bool (ph \<in> paid)
         = ct_remaining (nw_counter (pl_net p)) + of_bool (pl_phase p i \<in> paid)"
  shows "pool_inv w m (p\<lparr>pl_net := n, pl_phase := (pl_phase p)(i := ph)\<rparr>)"
proof -
  let ?f = "pl_phase p"
  have fin: "finite (callers ?f (- {Idle}))"
    and held: "sm_held (nw_sem (pl_net p)) = card (callers ?f {InFlight})"
    and sum: "ct_remaining (nw_counter (pl_net p)) + int (card (callers ?f paid)) = m"
    and width: "sm_width (nw_sem (pl_net p)) = w"
    using inv by (simp_all add: pool_inv_def)
  have "sm_held (nw_sem n) = card (callers (?f(i := ph)) {InFlight})"
    using sem(2) held card_upd [OF fin, of "{InFlight}" i ph] card_callers_pos [OF fin, of "{InFlight}" i]
    by (simp split: if_splits)
  moreover have "ct_remaining (nw_counter n) + int (card (callers (?f(i := ph)) paid)) = m"
    using ctr(2) sum card_upd [OF fin, of paid i ph] card_callers_pos [OF fin, of paid i]
    by (simp del: paid_iff add: paid_iff [of Idle] split: if_splits)
  ultimately show ?thesis using finite_upd [OF fin] sem(1,3) ctr(1) width by (simp add: pool_inv_def)
qed

lemma pool_step_inv:
  assumes step: "pool_step p q" and inv: "pool_inv w m p"
  shows "pool_inv w m q"
proof -
  have b: "0 \<le> ct_remaining (nw_counter (pl_net p))" "sm_held (nw_sem (pl_net p)) \<le> w"
    "sm_width (nw_sem (pl_net p)) = w"
    using inv by (simp_all add: pool_inv_def)
  have held: "0 < sm_held (nw_sem (pl_net p))" if "pl_phase p i = InFlight" for i
    using inv card_callers_pos [of "pl_phase p" "{InFlight}" i] that by (simp add: pool_inv_def)
  from step show ?thesis
  proof cases
    case (consume i c)
    then show ?thesis using b
      by (simp, intro pool_inv_move [OF inv]) (auto simp: counterConsume_def split: if_splits)
  next
    case (refuse i c)
    then show ?thesis using b
      by (simp, intro pool_inv_move [OF inv]) (auto simp: counterConsume_def split: if_splits)
  next
    case (finish i)
    then show ?thesis using b held [OF finish(2)]
      by (simp, intro pool_inv_move [OF inv]) (auto simp: release_def semRelease_def)
  next
    case (acquire i s)
    then show ?thesis using b
      by (simp, intro pool_inv_move [OF inv]) (auto simp: semAcquire_Some)
  next
    case (admit i now r)
    then show ?thesis using b by (simp, intro pool_inv_move [OF inv]) auto
  next
    case (sleep i now r d)
    then show ?thesis using b by (simp, intro pool_inv_move [OF inv]) auto
  next
    case (cancel_wait i now r d)
    then show ?thesis using b by (simp, intro pool_inv_move [OF inv]) auto
  next
    case (cancel_acquire i)
    then show ?thesis using b pool_inv_move [OF inv, of "pl_net p" i Cancelled] by simp
  qed
qed

lemma pool_reachable_inv:
  "pool_step\<^sup>*\<^sup>* p q \<Longrightarrow> pool_inv w m p \<Longrightarrow> pool_inv w m q"
  by (induction rule: rtranclp_induct) (auto intro: pool_step_inv)

lemma newNetwork_simps [simp]:
  "sm_width (nw_sem (newNetwork now cfg)) = nat (MaxConcurrency (budgetValidated (cfg_budget cfg)))"
  "ct_remaining (nw_counter (newNetwork now cfg)) = MaxQueries (budgetValidated (cfg_budget cfg))"
  by (auto simp: newNetwork_def Let_def newCounter_def)

lemma paid_mono:
  "finite (callers f (- {Idle})) \<Longrightarrow> card (callers f {InFlight, Answered}) \<le> card (callers f paid)"
  by (rule card_mono [OF finite_callers]) (auto simp: callers_def)

text \<open>
  C16. However many callers share one resolver and however their steps interleave, at most
  \<^verbatim>\<open>MaxConcurrency\<close> of them are in flight, at most \<^verbatim>\<open>MaxQueries\<close> of them ever get to
  exchange, and the semaphore never blocks them for good: while every slot is taken, some
  caller is in flight and can finish.
\<close>

theorem pool_within_budget:
  assumes "pool_step\<^sup>*\<^sup>* (pool_start now cfg) p"
  shows "int (card (callers (pl_phase p) {InFlight})) \<le> MaxConcurrency (budgetValidated (cfg_budget cfg)) \<and>
    int (card (callers (pl_phase p) {InFlight, Answered})) \<le> MaxQueries (budgetValidated (cfg_budget cfg)) \<and>
    (semAcquire (nw_sem (pl_net p)) = None \<longrightarrow> (\<exists>i q. pl_phase p i = InFlight \<and> pool_step p q \<and> pl_phase q i = Answered))"
proof (intro conjI impI)
  let ?w = "nat (MaxConcurrency (budgetValidated (cfg_budget cfg)))"
  have inv: "pool_inv ?w (MaxQueries (budgetValidated (cfg_budget cfg))) p"
    using pool_reachable_inv [OF assms pool_inv_start] by simp
  have pos: "0 < ?w" and w: "int ?w = MaxConcurrency (budgetValidated (cfg_budget cfg))" by simp_all
  show "int (card (callers (pl_phase p) {InFlight})) \<le> MaxConcurrency (budgetValidated (cfg_budget cfg))"
    using inv w unfolding pool_inv_def by linarith
  show "int (card (callers (pl_phase p) {InFlight, Answered})) \<le> MaxQueries (budgetValidated (cfg_budget cfg))"
    using inv paid_mono [of "pl_phase p"] unfolding pool_inv_def by linarith
  assume "semAcquire (nw_sem (pl_net p)) = None"
  then have "0 < card (callers (pl_phase p) {InFlight})"
    using inv pos by (auto simp: pool_inv_def semAcquire_def split: if_splits)
  then obtain i where "pl_phase p i = InFlight" by (auto simp: callers_def card_gt_0_iff)
  then show "\<exists>i q. pl_phase p i = InFlight \<and> pool_step p q \<and> pl_phase q i = Answered"
    using finish [of p i] by (intro exI [of _ i] exI [of _ "goes p i Answered release"]) simp
qed

theorem pool_within_budget_witness:
  "\<exists>p. pool_step\<^sup>*\<^sup>* (pool_start 0 (nw_cfg ex_net)) p \<and> pl_phase p 7 = Consumed \<and>
     int (card (callers (pl_phase p) {InFlight})) \<le> 1"
proof -
  let ?s = "pool_start 0 (nw_cfg ex_net)"
  obtain c where c: "counterConsume (nw_counter (pl_net ?s)) = (True, c)"
    by (simp add: counterConsume_def pool_start_def ex_net_def newNetwork_def newCounter_def)
  have r: "pool_step\<^sup>*\<^sup>* ?s (goes ?s 7 Consumed (nw_counter_update (\<lambda>_. c)))"
    using consume [OF _ c, of 7] by (intro r_into_rtranclp) (simp add: pool_start_def)
  have b: "MaxConcurrency (budgetValidated (cfg_budget (nw_cfg ex_net))) = 1"
    by (simp add: ex_net_def newNetwork_def)
  from pool_within_budget [OF r] b show ?thesis
    by (intro exI [of _ "goes ?s 7 Consumed (nw_counter_update (\<lambda>_. c))"]) (simp add: r)
qed

end
