(* ===== verification/Ledger.thy ===== *)
theory Ledger
  imports Concurrency
begin

text \<open>
  What the sharing of a resolver promises, as a small specification: a ledger of the queries
  still allowed, the free slots, and the callers that have paid, are running or are through.
  The steps of \<open>pool_step\<close> (\<^verbatim>\<open>internal/resolver/network.go\<close>, \<^verbatim>\<open>internal/budget\<close>) are shown to
  implement it, and to bring every caller to an end.
\<close>

section \<open>The specification\<close>

record ledger =
  lg_left :: nat
  lg_free :: nat
  lg_waiting :: "nat set"
  lg_running :: "nat set"
  lg_over :: "nat set"

definition newcomer :: "ledger \<Rightarrow> nat \<Rightarrow> bool" where
  "newcomer l i \<longleftrightarrow> i \<notin> lg_waiting l \<union> lg_running l \<union> lg_over l"

inductive ledger_step :: "ledger \<Rightarrow> ledger \<Rightarrow> bool" where
  pay: "newcomer l i \<Longrightarrow> 0 < lg_left l
     \<Longrightarrow> ledger_step l (l\<lparr>lg_left := lg_left l - 1, lg_waiting := insert i (lg_waiting l)\<rparr>)"
| turn_away: "newcomer l i \<Longrightarrow> lg_left l = 0 \<Longrightarrow> ledger_step l (l\<lparr>lg_over := insert i (lg_over l)\<rparr>)"
| start: "i \<in> lg_waiting l \<Longrightarrow> 0 < lg_free l
     \<Longrightarrow> ledger_step l (l\<lparr>lg_free := lg_free l - 1, lg_waiting := lg_waiting l - {i}, lg_running := insert i (lg_running l)\<rparr>)"
| give_up: "i \<in> lg_waiting l
     \<Longrightarrow> ledger_step l (l\<lparr>lg_waiting := lg_waiting l - {i}, lg_over := insert i (lg_over l)\<rparr>)"
| stop: "i \<in> lg_running l
     \<Longrightarrow> ledger_step l (l\<lparr>lg_free := lg_free l + 1, lg_running := lg_running l - {i}, lg_over := insert i (lg_over l)\<rparr>)"

definition ledger_start :: "nat \<Rightarrow> nat \<Rightarrow> ledger" where
  "ledger_start queries slots =
     \<lparr>lg_left = queries, lg_free = slots, lg_waiting = {}, lg_running = {}, lg_over = {}\<rparr>"

section \<open>The refinement\<close>

definition ledger_of :: "pool \<Rightarrow> ledger" where
  "ledger_of p =
     \<lparr>lg_left = nat (ct_remaining (nw_counter (pl_net p))),
      lg_free = sm_width (nw_sem (pl_net p)) - sm_held (nw_sem (pl_net p)),
      lg_waiting = callers (pl_phase p) {Consumed, Admitted},
      lg_running = callers (pl_phase p) {InFlight},
      lg_over = callers (pl_phase p) {Answered, Refused, Cancelled}\<rparr>"

lemma callers_member [simp]: "i \<in> callers f ps \<longleftrightarrow> f i \<in> ps"
  by (simp add: callers_def)

lemma newcomer_idle: "newcomer (ledger_of p) i \<longleftrightarrow> pl_phase p i = Idle"
  by (cases "pl_phase p i") (auto simp: newcomer_def ledger_of_def)

lemma held_pos:
  "pool_inv w m p \<Longrightarrow> pl_phase p i = InFlight \<Longrightarrow> 0 < sm_held (nw_sem (pl_net p))"
  using card_callers_pos [of "pl_phase p" "{InFlight}" i] by (simp add: pool_inv_def)

lemma step_simulated:
  assumes step: "pool_step p q" and inv: "pool_inv w m p"
  shows "ledger_step\<^sup>=\<^sup>= (ledger_of p) (ledger_of q)"
proof -
  have w: "sm_held (nw_sem (pl_net p)) \<le> sm_width (nw_sem (pl_net p))"
    and c0: "0 \<le> ct_remaining (nw_counter (pl_net p))"
    using inv by (simp_all add: pool_inv_def)
  from step show ?thesis
  proof cases
    case (consume i c)
    then have "0 < lg_left (ledger_of p)" "ledger_of q = (ledger_of p)\<lparr>lg_left := lg_left (ledger_of p) - 1,
        lg_waiting := insert i (lg_waiting (ledger_of p))\<rparr>"
      by (auto simp: ledger_of_def callers_upd counterConsume_def split: if_splits)
    with consume ledger_step.pay [of "ledger_of p" i] show ?thesis by (simp add: newcomer_idle)
  next
    case (refuse i c)
    then have "lg_left (ledger_of p) = 0" "ledger_of q = (ledger_of p)\<lparr>lg_over := insert i (lg_over (ledger_of p))\<rparr>"
      by (auto simp: ledger_of_def callers_upd counterConsume_def split: if_splits)
    with refuse ledger_step.turn_away [of "ledger_of p" i] show ?thesis by (simp add: newcomer_idle)
  next
    case (admit i now r)
    then have "ledger_of q = ledger_of p" by (auto simp: ledger_of_def callers_upd)
    then show ?thesis by simp
  next
    case (sleep i now r d)
    then have "ledger_of q = ledger_of p" by (auto simp: ledger_of_def callers_upd)
    then show ?thesis by simp
  next
    case (cancel_wait i now r d)
    then have "i \<in> lg_waiting (ledger_of p)" "ledger_of q = (ledger_of p)\<lparr>lg_waiting := lg_waiting (ledger_of p) - {i},
        lg_over := insert i (lg_over (ledger_of p))\<rparr>"
      by (auto simp: ledger_of_def callers_upd)
    with ledger_step.give_up show ?thesis by auto
  next
    case (cancel_acquire i)
    then have "i \<in> lg_waiting (ledger_of p)" "ledger_of q = (ledger_of p)\<lparr>lg_waiting := lg_waiting (ledger_of p) - {i},
        lg_over := insert i (lg_over (ledger_of p))\<rparr>"
      by (auto simp: ledger_of_def callers_upd)
    with ledger_step.give_up show ?thesis by auto
  next
    case (acquire i s)
    then have "i \<in> lg_waiting (ledger_of p)" "0 < lg_free (ledger_of p)"
      "ledger_of q = (ledger_of p)\<lparr>lg_free := lg_free (ledger_of p) - 1, lg_waiting := lg_waiting (ledger_of p) - {i},
        lg_running := insert i (lg_running (ledger_of p))\<rparr>"
      by (auto simp: ledger_of_def callers_upd semAcquire_Some)
    with ledger_step.start show ?thesis by auto
  next
    case (finish i)
    then have "i \<in> lg_running (ledger_of p)"
      "ledger_of q = (ledger_of p)\<lparr>lg_free := lg_free (ledger_of p) + 1, lg_running := lg_running (ledger_of p) - {i},
        lg_over := insert i (lg_over (ledger_of p))\<rparr>"
      using held_pos [OF inv, of i] w
      by (auto simp: ledger_of_def callers_upd release_def semRelease_def)
    with ledger_step.stop show ?thesis by auto
  qed
qed

lemma newNetwork_fresh [simp]:
  "sm_held (nw_sem (newNetwork now cfg)) = 0" "1 \<le> rl_max (nw_rate (newNetwork now cfg))"
  by (simp_all add: newNetwork_def Let_def)

lemma ledger_of_start:
  "ledger_of (pool_start now cfg) = ledger_start (nat (MaxQueries (budgetValidated (cfg_budget cfg))))
     (nat (MaxConcurrency (budgetValidated (cfg_budget cfg))))"
  by (simp add: ledger_of_def ledger_start_def pool_start_def callers_def del: validated_simps)

lemma reachable_inv:
  "pool_step\<^sup>*\<^sup>* (pool_start now cfg) p \<Longrightarrow>
     pool_inv (nat (MaxConcurrency (budgetValidated (cfg_budget cfg)))) (MaxQueries (budgetValidated (cfg_budget cfg))) p"
  using pool_reachable_inv [OF _ pool_inv_start [of now cfg]] by simp

text \<open>What the specification itself keeps: a slot is free or taken, and nobody is in two places.\<close>

definition ledger_inv :: "nat \<Rightarrow> nat \<Rightarrow> ledger \<Rightarrow> bool" where
  "ledger_inv queries slots l \<longleftrightarrow>
     finite (lg_waiting l) \<and> finite (lg_running l) \<and> finite (lg_over l) \<and>
     lg_waiting l \<inter> lg_running l = {} \<and> lg_waiting l \<inter> lg_over l = {} \<and> lg_running l \<inter> lg_over l = {} \<and>
     lg_free l + card (lg_running l) = slots \<and>
     lg_left l + card (lg_waiting l) + card (lg_running l) \<le> queries"

lemma ledger_inv_start: "ledger_inv queries slots (ledger_start queries slots)"
  by (simp add: ledger_inv_def ledger_start_def)

lemma ledger_inv_step: "ledger_step l l' \<Longrightarrow> ledger_inv queries slots l \<Longrightarrow> ledger_inv queries slots l'"
proof (induction rule: ledger_step.induct)
  case (start i l)
  have "Suc (card (lg_waiting l - {i})) = card (lg_waiting l)"
    using start by (intro card_Suc_Diff1) (auto simp: ledger_inv_def)
  moreover have "i \<notin> lg_running l" using start by (auto simp: ledger_inv_def)
  ultimately show ?case using start by (auto simp: ledger_inv_def)
next
  case (stop i l)
  have "Suc (card (lg_running l - {i})) = card (lg_running l)"
    using stop by (intro card_Suc_Diff1) (auto simp: ledger_inv_def)
  with stop show ?case by (auto simp: ledger_inv_def)
next
  case (give_up i l)
  have "Suc (card (lg_waiting l - {i})) = card (lg_waiting l)"
    using give_up by (intro card_Suc_Diff1) (auto simp: ledger_inv_def)
  with give_up show ?case by (auto simp: ledger_inv_def)
qed (auto simp: ledger_inv_def newcomer_def)

lemma ledger_reachable: "ledger_step\<^sup>*\<^sup>* l l' \<Longrightarrow> ledger_inv queries slots l \<Longrightarrow> ledger_inv queries slots l'"
  by (induction rule: rtranclp_induct) (auto intro: ledger_inv_step)

lemma run_simulated:
  assumes "pool_step\<^sup>*\<^sup>* p q" and "pool_inv w m p"
  shows "ledger_step\<^sup>*\<^sup>* (ledger_of p) (ledger_of q)"
  using assms
proof (induction rule: rtranclp_induct)
  case (step q r)
  have "pool_inv w m q" using pool_reachable_inv step by blast
  from step_simulated [OF step(2) this] show ?case
    using step.IH [OF step.prems] by (auto intro: rtranclp.rtrancl_into_rtrancl)
qed simp

text \<open>
  C6. The counter, the limiter and the semaphore together implement the ledger: whatever callers do
  and however their operations interleave, what is seen of the shared resolver is a run of the
  ledger from the validated budget, in which a caller pays before it starts, is turned away only
  when nothing is left, and starts only when a slot is free.
\<close>

theorem pool_refines_ledger:
  assumes "pool_step\<^sup>*\<^sup>* (pool_start now cfg) p"
  shows "let queries = nat (MaxQueries (budgetValidated (cfg_budget cfg)));
             slots = nat (MaxConcurrency (budgetValidated (cfg_budget cfg)))
         in ledger_step\<^sup>*\<^sup>* (ledger_start queries slots) (ledger_of p) \<and> ledger_inv queries slots (ledger_of p)"
  using run_simulated [OF assms reachable_inv [OF rtranclp.rtrancl_refl]] ledger_reachable [OF _ ledger_inv_start]
  by (simp add: ledger_of_start Let_def)

text \<open>The steps of the first \<open>k\<close> callers only.\<close>

definition moves :: "nat \<Rightarrow> pool \<Rightarrow> pool \<Rightarrow> bool" where
  "moves k p q \<longleftrightarrow> pool_step p q \<and> (\<forall>i. k \<le> i \<longrightarrow> pl_phase q i = pl_phase p i)"

text \<open>One caller of a fresh resolver has paid.\<close>

definition ex_paid :: pool where
  "ex_paid = (let s = pool_start 0 (nw_cfg ex_net)
              in goes s 0 Consumed (nw_counter_update (\<lambda>c. snd (counterConsume c))))"

lemma ex_paid_moves: "moves 1 (pool_start 0 (nw_cfg ex_net)) ex_paid"
proof -
  let ?s = "pool_start 0 (nw_cfg ex_net)"
  obtain c where c: "counterConsume (nw_counter (pl_net ?s)) = (True, c)"
    by (simp add: counterConsume_def pool_start_def ex_net_def newNetwork_def newCounter_def)
  have "pool_step ?s (goes ?s 0 Consumed (nw_counter_update (\<lambda>_. c)))"
    using c by (intro consume) (simp_all add: pool_start_def)
  moreover have "ex_paid = goes ?s 0 Consumed (nw_counter_update (\<lambda>_. c))"
    using c by (simp add: ex_paid_def Let_def)
  moreover have "pl_phase ex_paid i = pl_phase ?s i" if "1 \<le> i" for i
    using that by (simp add: ex_paid_def Let_def)
  ultimately show ?thesis unfolding moves_def by simp
qed

theorem pool_refines_ledger_witness:
  "ledger_step\<^sup>*\<^sup>* (ledger_start 2 1) (ledger_of ex_paid) \<and> ledger_inv 2 1 (ledger_of ex_paid) \<and>
   lg_waiting (ledger_of ex_paid) = {0}"
proof -
  have "lg_waiting (ledger_of ex_paid) = {0}"
    by (auto simp: ledger_of_def ex_paid_def pool_start_def Let_def callers_upd callers_def)
  with pool_refines_ledger [OF r_into_rtranclp, of 0 "nw_cfg ex_net" ex_paid] ex_paid_moves show ?thesis
    by (simp add: moves_def ex_net_def newNetwork_def Let_def)
qed

section \<open>Every caller comes to an end\<close>

text \<open>How many steps a caller still has before it, and all of them together.\<close>

fun togo :: "phase \<Rightarrow> nat" where
  "togo Idle = 4"
| "togo Consumed = 3"
| "togo Admitted = 2"
| "togo InFlight = 1"
| "togo _ = 0"

definition work :: "nat \<Rightarrow> pool \<Rightarrow> nat" where
  "work k p = (\<Sum>i<k. togo (pl_phase p i))"

text \<open>The limiter of a validated budget has a token at every turn, so nobody sleeps.\<close>

lemma nobody_sleeps:
  "1 \<le> rl_max (nw_rate (pl_net p)) \<Longrightarrow> pool_step p q \<Longrightarrow>
     1 \<le> rl_max (nw_rate (pl_net q)) \<and> (\<exists>i. togo (pl_phase q i) < togo (pl_phase p i) \<and> (\<forall>j. j \<noteq> i \<longrightarrow> pl_phase q j = pl_phase p j))"
  by (erule pool_stepE) (auto simp: waitTurn_full release_def split: option.splits intro!: exI)

lemma work_decreases:
  assumes "moves k p q" and "1 \<le> rl_max (nw_rate (pl_net p))"
  shows "work k q < work k p" and "1 \<le> rl_max (nw_rate (pl_net q))"
proof -
  have st: "pool_step p q" and out: "\<And>i. k \<le> i \<Longrightarrow> pl_phase q i = pl_phase p i"
    using assms(1) by (auto simp: moves_def)
  from nobody_sleeps [OF assms(2) st] obtain i where
    i: "togo (pl_phase q i) < togo (pl_phase p i)" and other: "\<And>j. j \<noteq> i \<Longrightarrow> pl_phase q j = pl_phase p j"
    and m: "1 \<le> rl_max (nw_rate (pl_net q))" by blast
  show "1 \<le> rl_max (nw_rate (pl_net q))" by (rule m)
  have "i < k" using i out [of i] by (cases "i < k") auto
  then show "work k q < work k p" unfolding work_def
    using i other by (intro sum_strict_mono_ex1) (auto intro: order.strict_implies_order, metis order.refl order.strict_implies_order)
qed

lemma work_bounds:
  "(moves k ^^ n) p q \<Longrightarrow> 1 \<le> rl_max (nw_rate (pl_net p)) \<Longrightarrow>
     n + work k q \<le> work k p \<and> 1 \<le> rl_max (nw_rate (pl_net q))"
proof (induction n arbitrary: q)
  case (Suc n)
  then obtain r where "(moves k ^^ n) p r" and m: "moves k r q" by (auto simp: relcompp_apply)
  with Suc have "n + work k r \<le> work k p" and r: "1 \<le> rl_max (nw_rate (pl_net r))" by auto
  with work_decreases [OF m r] show ?case by simp
qed simp

lemma moves_reach: "(moves k ^^ n) p q \<Longrightarrow> pool_step\<^sup>*\<^sup>* p q"
  by (rule relpowp_imp_rtranclp) (erule relpowp_mono [rotated], simp add: moves_def)


definition through :: "phase \<Rightarrow> bool" where
  "through ph \<longleftrightarrow> ph \<in> {Answered, Refused, Cancelled}"

text \<open>A step in which nobody is cancelled.\<close>

definition serves :: "nat \<Rightarrow> pool \<Rightarrow> pool \<Rightarrow> bool" where
  "serves k p q \<longleftrightarrow> moves k p q \<and> callers (pl_phase q) {Cancelled} \<subseteq> callers (pl_phase p) {Cancelled}"

lemma serves_goes: "pool_step p (goes p i ph upd) \<Longrightarrow> i < k \<Longrightarrow> ph \<noteq> Cancelled \<Longrightarrow> \<exists>q. serves k p q"
  by (rule exI [of _ "goes p i ph upd"]) (auto simp: serves_def moves_def split: if_splits)

text \<open>Whoever is not through can be served, or the callers that hold all the slots can.\<close>

lemma can_serve:
  assumes i: "i < k" "\<not> through (pl_phase p i)" and max: "1 \<le> rl_max (nw_rate (pl_net p))"
    and inv: "pool_inv w m p" "0 < w" and out: "\<And>j. k \<le> j \<Longrightarrow> pl_phase p j = Idle"
  shows "\<exists>q. serves k p q"
proof (cases "pl_phase p i")
  case Idle
  obtain ok c where "counterConsume (nw_counter (pl_net p)) = (ok, c)" by fastforce
  then show ?thesis using consume [OF Idle, of c] refuse [OF Idle, of c] i(1)
    by (cases ok) (auto elim!: serves_goes)
next
  case Consumed
  have "pool_step p (goes p i Admitted (nw_rate_update (\<lambda>_. fst (waitTurn 0 (nw_rate (pl_net p))))))"
    using waitTurn_full [OF max, of 0] by (intro admit [OF Consumed]) simp
  then show ?thesis by (rule serves_goes [OF _ i(1)]) simp
next
  case Admitted
  show ?thesis
  proof (cases "semAcquire (nw_sem (pl_net p))")
    case (Some s)
    from acquire [OF Admitted Some] show ?thesis by (rule serves_goes [OF _ i(1)]) simp
  next
    case None
    then have "0 < card (callers (pl_phase p) {InFlight})"
      using inv by (auto simp: pool_inv_def semAcquire_def split: if_splits)
    then obtain j where j: "pl_phase p j = InFlight" by (auto simp: card_gt_0_iff)
    then have "j < k" using out [of j] by (cases "j < k") auto
    from finish [OF j] show ?thesis by (rule serves_goes [OF _ \<open>j < k\<close>]) simp
  qed
next
  case InFlight
  from finish [OF InFlight] show ?thesis by (rule serves_goes [OF _ i(1)]) simp
qed (use i(2) in \<open>simp_all add: through_def\<close>)

text \<open>A caller is refused only when nothing is left, and nothing comes back.\<close>

lemma refused_exhausted:
  "pool_step p q \<Longrightarrow> 0 \<le> ct_remaining (nw_counter (pl_net p)) \<Longrightarrow>
   (pl_phase p j = Refused \<Longrightarrow> ct_remaining (nw_counter (pl_net p)) = 0) \<Longrightarrow>
   pl_phase q j = Refused \<Longrightarrow> ct_remaining (nw_counter (pl_net q)) = 0"
  by (erule pool_stepE)
    (auto simp: counterConsume_def release_def split: if_splits option.splits)

lemma reachable_refused:
  assumes "pool_step\<^sup>*\<^sup>* (pool_start now cfg) p" and "pl_phase p j = Refused"
  shows "ct_remaining (nw_counter (pl_net p)) = 0"
  using assms
proof (induction rule: rtranclp_induct)
  case base
  then show ?case by (simp add: pool_start_def)
next
  case (step p q)
  have "0 \<le> ct_remaining (nw_counter (pl_net p))" using reachable_inv [OF step(1)] by (simp add: pool_inv_def)
  then show ?case using refused_exhausted [OF step(2), of j] step by blast
qed

lemma moves_outside: "(moves k ^^ n) p q \<Longrightarrow> k \<le> j \<Longrightarrow> pl_phase q j = pl_phase p j"
proof (induction n arbitrary: q)
  case (Suc n)
  then obtain r where "(moves k ^^ n) p r" "moves k r q" by (auto simp: relcompp_apply)
  then have "pl_phase q j = pl_phase r j" using Suc.prems(2) unfolding moves_def by blast
  with Suc.IH [OF \<open>(moves k ^^ n) p r\<close> Suc.prems(2)] show ?case by simp
qed simp

lemma answered_all:
  assumes inv: "pool_inv w m p" and out: "\<And>j. k \<le> j \<Longrightarrow> pl_phase p j = Idle"
    and fin: "\<And>i. i < k \<Longrightarrow> pl_phase p i \<in> {Answered, Refused}"
    and ref: "\<And>j. pl_phase p j = Refused \<Longrightarrow> ct_remaining (nw_counter (pl_net p)) = 0"
  shows "int (card (callers (pl_phase p) {Answered})) = min (int k) m"
proof -
  let ?A = "callers (pl_phase p) {Answered}"
  have "pl_phase p i \<in> {Idle, Answered, Refused}" for i
    using out [of i] fin [of i] by (cases "k \<le> i") auto
  then have "pl_phase p i \<in> paid \<longleftrightarrow> pl_phase p i \<in> {Answered}" for i by fastforce
  then have "callers (pl_phase p) paid = ?A" unfolding callers_def by blast
  then have sum: "ct_remaining (nw_counter (pl_net p)) + int (card ?A) = m" and pos: "0 \<le> ct_remaining (nw_counter (pl_net p))"
    using inv by (simp_all add: pool_inv_def)
  have sub: "?A \<subseteq> {..<k}" using out by (force simp: not_le [symmetric])
  show ?thesis
  proof (cases "?A = {..<k}")
    case True
    with sum pos show ?thesis by simp
  next
    case False
    then obtain j where "j < k" "j \<notin> ?A" using sub by blast
    with ref [of j] fin [of j] have "ct_remaining (nw_counter (pl_net p)) = 0" by auto
    moreover have "card ?A \<le> k" using card_mono [OF _ sub] by simp
    ultimately show ?thesis using sum by simp
  qed
qed

text \<open>
  C7. Of any number of callers that share a resolver, all are through after at most four steps per caller
  in total (4k for k callers), whatever the interleaving; until then some caller can always be served without a
  cancellation, so nobody blocks for ever; and when nobody was cancelled, as many are answered as
  the budget allows and only the others are refused.
\<close>

theorem pool_settles:
  assumes run: "(moves k ^^ n) (pool_start now cfg) p"
  shows "n \<le> 4 * k \<and>
    ((\<exists>i < k. \<not> through (pl_phase p i)) \<longrightarrow> (\<exists>q. serves k p q)) \<and>
    ((\<forall>i < k. pl_phase p i \<in> {Answered, Refused}) \<longrightarrow>
       int (card (callers (pl_phase p) {Answered})) = min (int k) (MaxQueries (budgetValidated (cfg_budget cfg))))"
proof -
  have start: "1 \<le> rl_max (nw_rate (pl_net (pool_start now cfg)))" "work k (pool_start now cfg) = 4 * k"
    by (simp_all add: pool_start_def work_def)
  note bound = work_bounds [OF run start(1)]
  note reach = moves_reach [OF run]
  have out: "pl_phase p j = Idle" if "k \<le> j" for j
    using moves_outside [OF run that] by (simp add: pool_start_def)
  have serve: "\<exists>q. serves k p q" if "i < k" "\<not> through (pl_phase p i)" for i
    by (rule can_serve [OF that _ reachable_inv [OF reach] _ out]) (use bound in simp_all)
  have all: "int (card (callers (pl_phase p) {Answered})) = min (int k) (MaxQueries (budgetValidated (cfg_budget cfg)))"
    if fin: "\<forall>i < k. pl_phase p i \<in> {Answered, Refused}"
  proof (rule answered_all [OF reachable_inv [OF reach] out])
    show "pl_phase p i \<in> {Answered, Refused}" if "i < k" for i using fin that by blast
  qed (simp_all add: reachable_refused [OF reach])
  have "n \<le> 4 * k" using bound unfolding start(2) by linarith
  then show ?thesis using serve all by blast
qed

theorem pool_settles_witness:
  "pl_phase ex_paid 0 = Consumed \<and> (\<exists>q. serves 1 ex_paid q) \<and> (moves 1 ^^ 1) (pool_start 0 (nw_cfg ex_net)) ex_paid"
proof -
  have run: "(moves 1 ^^ 1) (pool_start 0 (nw_cfg ex_net)) ex_paid" using ex_paid_moves by (simp add: eq_OO)
  have "pl_phase ex_paid 0 = Consumed" by (simp add: ex_paid_def Let_def)
  moreover from this have "\<not> through (pl_phase ex_paid 0)" by (simp add: through_def)
  ultimately show ?thesis using pool_settles [OF run] run by blast
qed

end
