(* ===== verification/GoNet.thy ===== *)
theory GoNet
  imports GoEncoding
begin

text \<open>
  The part of Go's \<^verbatim>\<open>net\<close> package that the source calls on an IP address, a slice of
  bytes that is 4 or 16 long when it is well formed.
\<close>

section \<open>The two forms of an address\<close>

definition mapped_prefix :: bytes where
  "mapped_prefix = replicate 10 0 @ [255, 255]"

definition to4 :: "bytes \<Rightarrow> bytes option" where
  "to4 ip = (if length ip = 4 then Some ip
     else if length ip = 16 \<and> take 12 ip = mapped_prefix then Some (drop 12 ip) else None)"

definition to16 :: "bytes \<Rightarrow> bytes option" where
  "to16 ip = (if length ip = 4 then Some (mapped_prefix @ ip)
     else if length ip = 16 then Some ip else None)"

definition ip_equal :: "bytes \<Rightarrow> bytes \<Rightarrow> bool" where
  "ip_equal a b \<longleftrightarrow>
     (if length a = length b then a = b
      else if length a = 4 \<and> length b = 16 then take 12 b = mapped_prefix \<and> a = drop 12 b
      else length a = 16 \<and> length b = 4 \<and> take 12 a = mapped_prefix \<and> b = drop 12 a)"

section \<open>Ranges\<close>

definition isLoopback :: "bytes \<Rightarrow> bool" where
  "isLoopback ip = (case to4 ip of Some v \<Rightarrow> v ! 0 = 127 | None \<Rightarrow> ip_equal ip (replicate 15 0 @ [1]))"

definition isPrivate :: "bytes \<Rightarrow> bool" where
  "isPrivate ip = (case to4 ip of
     Some v \<Rightarrow> v ! 0 = 10 \<or> (v ! 0 = 172 \<and> v ! 1 AND 0xf0 = 16) \<or> (v ! 0 = 192 \<and> v ! 1 = 168)
   | None \<Rightarrow> length ip = 16 \<and> ip ! 0 AND 0xfe = 0xfc)"

definition isLinkLocalUnicast :: "bytes \<Rightarrow> bool" where
  "isLinkLocalUnicast ip = (case to4 ip of
     Some v \<Rightarrow> v ! 0 = 169 \<and> v ! 1 = 254
   | None \<Rightarrow> length ip = 16 \<and> ip ! 0 = 0xfe \<and> ip ! 1 AND 0xc0 = 0x80)"

definition isUnspecified :: "bytes \<Rightarrow> bool" where
  "isUnspecified ip \<longleftrightarrow> ip_equal ip [0, 0, 0, 0] \<or> ip_equal ip (replicate 16 0)"

section \<open>Text\<close>

fun hex_nat :: "nat \<Rightarrow> string" where
  "hex_nat n = (if n < 16 then [hex_digit n] else hex_nat (n div 16) @ [hex_digit (n mod 16)])"

declare hex_nat.simps [simp del]

fun pair_up :: "bytes \<Rightarrow> nat list" where
  "pair_up (a # b # r) = (unat a * 256 + unat b) # pair_up r"
| "pair_up _ = []"

text \<open>The first longest run of at least two zero groups, as start and length.\<close>

definition zero_run :: "nat list \<Rightarrow> nat \<Rightarrow> nat" where
  "zero_run gs i = length (takeWhile (\<lambda>g. g = 0) (drop i gs))"

definition best_run :: "nat list \<Rightarrow> (nat \<times> nat) option" where
  "best_run gs = foldl (\<lambda>best i. let l = zero_run gs i in
      if 2 \<le> l \<and> (case best of None \<Rightarrow> 0 | Some (_, m) \<Rightarrow> m) < l then Some (i, l) else best)
    None [0..<length gs]"

definition v6_string :: "bytes \<Rightarrow> string" where
  "v6_string ip = (let gs = pair_up ip in
     case best_run gs of
       None \<Rightarrow> join '':'' (map hex_nat gs)
     | Some (i, l) \<Rightarrow> join '':'' (map hex_nat (take i gs)) @ ''::''
          @ join '':'' (map hex_nat (drop (i + l) gs)))"

definition ipString :: "bytes \<Rightarrow> string" where
  "ipString ip =
     (if ip = [] then ''<nil>''
      else if length ip \<noteq> 4 \<and> length ip \<noteq> 16 then CHR ''?'' # hex_encode ip
      else case to4 ip of
        Some v \<Rightarrow> join ''.'' (map word_str v)
      | None \<Rightarrow> v6_string ip)"

lemma to4_length: "to4 ip = Some v \<Longrightarrow> length v = 4"
  by (auto simp: to4_def split: if_splits)

lemma to16_length: "to16 ip = Some v \<Longrightarrow> length v = 16"
  by (auto simp: to16_def mapped_prefix_def split: if_splits)

section \<open>Parsing\<close>

definition dec_digit :: "char \<Rightarrow> nat option" where
  "dec_digit c = (let n = (of_char c :: nat) in if 48 \<le> n \<and> n \<le> 57 then Some (n - 48) else None)"

text \<open>A field of a dotted quad: digits without a leading zero, at most 255.\<close>

definition v4_field :: "string \<Rightarrow> byte option" where
  "v4_field s = (case all_some (map dec_digit s) of
       None \<Rightarrow> None
     | Some ds \<Rightarrow> (let n = foldl (\<lambda>a d. a * 10 + d) 0 ds in
         if ds = [] \<or> (1 < length ds \<and> hd ds = 0) \<or> 255 < n then None else Some (word_of_nat n)))"

definition parseIPv4 :: "string \<Rightarrow> bytes option" where
  "parseIPv4 s = (let fs = split_on CHR ''.'' s in if length fs = 4 then all_some (map v4_field fs) else None)"

text \<open>A group of an IPv6 address: one to four hexadecimal digits. The last may be a dotted quad.\<close>

definition v6_field :: "string \<Rightarrow> bytes option" where
  "v6_field s = (if s = [] \<or> 4 < length s then None
     else map_option (\<lambda>ds. be16 (word_of_nat (foldl (\<lambda>a d. a * 16 + d) 0 ds))) (all_some (map hex_val s)))"

fun v6_fields :: "string list \<Rightarrow> bytes option" where
  "v6_fields [] = Some []"
| "v6_fields [p] = (if CHR ''.'' \<in> set p then parseIPv4 p else v6_field p)"
| "v6_fields (p # q # ps) =
     Option.bind (v6_field p) (\<lambda>b. map_option ((@) b) (v6_fields (q # ps)))"

text \<open>The text before and after the first \<^verbatim>\<open>::\<close>.\<close>

fun cut_ellipsis :: "string \<Rightarrow> (string \<times> string) option" where
  "cut_ellipsis (c # d # s) = (if c = CHR '':'' \<and> d = CHR '':'' then Some ([], s)
     else map_option (\<lambda>(a, b). (c # a, b)) (cut_ellipsis (d # s)))"
| "cut_ellipsis _ = None"

definition v6_side :: "string \<Rightarrow> string list" where
  "v6_side s = (if s = [] then [] else split_on CHR '':'' s)"

definition parseIPv6 :: "string \<Rightarrow> bytes option" where
  "parseIPv6 s =
     (case cut_ellipsis s of
        None \<Rightarrow> (case v6_fields (split_on CHR '':'' s) of
            Some b \<Rightarrow> if length b = 16 then Some b else None | None \<Rightarrow> None)
      | Some (l, r) \<Rightarrow>
          (case (all_some (map v6_field (v6_side l)), v6_fields (v6_side r)) of
             (Some ls, Some rs) \<Rightarrow> (let left = concat ls in
                if length left + length rs \<le> 14
                then Some (left @ replicate (16 - length left - length rs) 0 @ rs) else None)
           | _ \<Rightarrow> None))"

text \<open>\<^verbatim>\<open>net.ParseIP\<close>: the first dot or colon decides, and the result has sixteen bytes.\<close>

definition parseIP :: "string \<Rightarrow> bytes option" where
  "parseIP s =
     (case find (\<lambda>c. c = CHR ''.'' \<or> c = CHR '':'' \<or> c = CHR ''%'') s of
        Some c \<Rightarrow> (if c = CHR ''.'' then map_option ((@) mapped_prefix) (parseIPv4 s)
                   else if c = CHR '':'' then parseIPv6 s else None)
      | None \<Rightarrow> None)"

end
