(* ===== verification/DnsUtil.thy ===== *)
theory DnsUtil
  imports DnsLib TypeBitmap GoNet
begin

text \<open>
  \<^verbatim>\<open>internal/dns/util.go\<close>: extraction of records from message sections, and the canonical
  wire form of record data that signatures and digests are computed over. A \<^verbatim>\<open>[]byte\<close>
  result that may be nil is an option; \<open>go_append\<close> is \<^verbatim>\<open>append\<close> on such a slice, which
  stays nil when nothing is added.
\<close>

section \<open>Field decoders\<close>

definition decodeHexField :: "string \<Rightarrow> bytes option" where
  "decodeHexField s = hex_decode (trim_space s)"

definition decodeBase64Field :: "string \<Rightarrow> bytes" where
  "decodeBase64Field s0 = (let s = trim_space s0 in
     if s = '''' then []
     else case b64_std_decode s of Some b \<Rightarrow> b
     | None \<Rightarrow> (case b64_raw_decode s of Some b \<Rightarrow> b | None \<Rightarrow> bytes_of s))"

definition decodeBase32HexField :: "string \<Rightarrow> bytes option" where
  "decodeBase32HexField s0 = (let s = trim_space (to_upper s0) in
     if s = '''' then Some [] else b32hex_decode s)"

definition ipTo4 :: "bytes \<Rightarrow> bytes" where
  "ipTo4 ip = (case to4 ip of Some v4 \<Rightarrow> v4 | None \<Rightarrow> ip)"

section \<open>Queries\<close>

definition safeNewMsg :: "dnslib \<Rightarrow> string \<Rightarrow> u16 \<Rightarrow> msg" where
  "safeNewMsg L name qtype = new_msg
     \<lparr>m_question := [\<lparr>q_name = fqdn L name, q_type = qtype\<rparr>], m_recursion_desired := True\<rparr>"

definition setEDNS :: "msg \<Rightarrow> int \<Rightarrow> bool \<Rightarrow> msg" where
  "setEDNS m udpSize dnssec =
     (let sz = (if udpSize \<le> 0 then 1232 else udpSize) in
      case m_edns m of None \<Rightarrow> m | Some _ \<Rightarrow> m\<lparr>m_edns := Some (word_of_int sz, dnssec)\<rparr>)"

section \<open>Record sets\<close>

definition normName :: "string \<Rightarrow> string" where
  "normName n = to_lower n"

definition rrByName :: "dnslib \<Rightarrow> section_rrs \<Rightarrow> (string \<times> rr list) list" where
  "rrByName L records =
     fold (\<lambda>r. add_to (normName (fqdn L (rr_name r))) r) (somes records) []"

text \<open>The name servers of the NS records, lowered, each once, in order of appearance.\<close>

definition ns_target :: "rr \<Rightarrow> string option" where
  "ns_target r = (case rr_data r of NS_RR n \<Rightarrow> Some (normName n) | _ \<Rightarrow> None)"

definition nsNames :: "section_rrs \<Rightarrow> string list" where
  "nsNames records = dedup_on (\<lambda>n. n) [] (List.map_filter ns_target (somes records))"

definition rr_addr :: "rr \<Rightarrow> bytes option" where
  "rr_addr r = (case rr_data r of A_RR ip \<Rightarrow> ip | AAAA_RR ip \<Rightarrow> ip | _ \<Rightarrow> None)"

definition addrsOf :: "section_rrs \<Rightarrow> bytes list" where
  "addrsOf records = List.map_filter rr_addr (somes records)"

definition ttlOf :: "rr option \<Rightarrow> u32" where
  "ttlOf r = (case r of None \<Rightarrow> 0 | Some r \<Rightarrow> rr_ttl r)"

fun soaOf :: "section_rrs \<Rightarrow> soa option" where
  "soaOf [] = None"
| "soaOf (None # rs) = soaOf rs"
| "soaOf (Some r # rs) = (case rr_data r of SOA_RR s \<Rightarrow> Some s | _ \<Rightarrow> soaOf rs)"

definition firstOf :: "section_rrs \<Rightarrow> u16 \<Rightarrow> rr option" where
  "firstOf records typ = find (\<lambda>r. rr_type r = typ) (somes records)"

definition rrsOfType :: "section_rrs \<Rightarrow> u16 \<Rightarrow> rr list" where
  "rrsOfType records typ = filter (\<lambda>r. rr_type r = typ) (somes records)"

section \<open>Names\<close>

definition uncompressedName :: "dnslib \<Rightarrow> string \<Rightarrow> bytes option" where
  "uncompressedName L n = packName L (fqdn L (to_lower n))"

definition canonicalName :: "dnslib \<Rightarrow> string \<Rightarrow> bytes option" where
  "canonicalName L n = uncompressedName L n"

text \<open>\<^verbatim>\<open>splitLabels\<close>; the slice expression on an empty name panics, here \<^term>\<open>None\<close>.\<close>

definition splitLabels :: "string \<Rightarrow> string list option" where
  "splitLabels n = (if n = [] then None
     else if butlast n = [] then Some [''''] else Some (split_on CHR ''.'' (butlast n)))"

section \<open>Record data\<close>

definition go_append :: "bytes option \<Rightarrow> bytes \<Rightarrow> bytes option" where
  "go_append xs ys = (case xs of Some b \<Rightarrow> Some (b @ ys) | None \<Rightarrow> if ys = [] then None else Some ys)"

text \<open>The bytes of a slice that may be nil.\<close>

definition raw :: "bytes option \<Rightarrow> bytes" where
  "raw b = (case b of None \<Rightarrow> [] | Some b \<Rightarrow> b)"

definition txt_piece :: "string \<Rightarrow> bytes" where
  "txt_piece s = (let s' = (if 255 < length s then take 255 s else s)
     in word_of_nat (length s') # bytes_of s')"

definition txtRdata :: "string list \<Rightarrow> bytes option" where
  "txtRdata ss = foldl (\<lambda>out s. go_append out (txt_piece s)) None ss"

definition caaRdata :: "caa \<Rightarrow> bytes" where
  "caaRdata r = (let tag0 = bytes_of (caa_tag r);
       tag = (if 63 < length tag0 then take 63 tag0 else tag0)
     in [caa_flag r, word_of_nat (length tag)] @ tag @ bytes_of (caa_value r))"

definition dnskeyRdata :: "dnskey \<Rightarrow> bytes" where
  "dnskeyRdata r = be16 (dk_flags r) @ [dk_protocol r, dk_algorithm r] @ decodeBase64Field (dk_publickey r)"

text \<open>
  \<^verbatim>\<open>dsRdata\<close> allocates four bytes, fills the first two, and appends: the two zero bytes
  between the key tag and the algorithm are the source's.
\<close>

definition dsRdata :: "ds \<Rightarrow> bytes" where
  "dsRdata r = be16 (ds_keytag r) @ [0, 0] @ [ds_algorithm r, ds_digesttype r]
     @ raw (decodeHexField (ds_digest r))"

definition rrData :: "dnslib \<Rightarrow> rr \<Rightarrow> bytes option" where
  "rrData L r =
     (case rr_data r of
        A_RR ip \<Rightarrow> map_option ipTo4 ip
      | AAAA_RR ip \<Rightarrow> ip
      | NS_RR n \<Rightarrow> uncompressedName L n
      | SOA_RR s \<Rightarrow> Some (raw (uncompressedName L (soa_ns s)) @ raw (uncompressedName L (soa_mbox s))
          @ be32 (soa_serial s) @ be32 (soa_refresh s) @ be32 (soa_retry s)
          @ be32 (soa_expire s) @ be32 (soa_minttl s))
      | TXT_RR ss \<Rightarrow> txtRdata ss
      | CNAME_RR n \<Rightarrow> uncompressedName L n
      | PTR_RR n \<Rightarrow> uncompressedName L n
      | MX_RR p n \<Rightarrow> Some (be16 p @ raw (uncompressedName L n))
      | SRV_RR p w q n \<Rightarrow> Some (be16 p @ be16 w @ be16 q @ raw (uncompressedName L n))
      | CAA_RR c \<Rightarrow> Some (caaRdata c)
      | DNSKEY_RR k \<Rightarrow> Some (dnskeyRdata k)
      | DS_RR d \<Rightarrow> Some (dsRdata d)
      | NSEC_RR n ts \<Rightarrow> go_append (uncompressedName L n) (typeBitmap ts)
      | NSEC3_RR n \<Rightarrow>
          (case decodeHexField (n3_salt n) of None \<Rightarrow> None
           | Some salt \<Rightarrow>
             (case decodeBase32HexField (n3_nextdomain n) of None \<Rightarrow> None
              | Some nxt \<Rightarrow> Some ([n3_hash n, n3_flags n] @ be16 (n3_iterations n)
                  @ word_of_nat (length salt) # salt @ word_of_nat (length nxt) # nxt
                  @ typeBitmap (n3_types n))))
      | RRSIG_RR _ \<Rightarrow> None
      | Other_RR _ \<Rightarrow> None)"

text \<open>\<^verbatim>\<open>RRSIGData\<close>: the fixed fields and the signature field as it stands, without the signer.\<close>

definition rrsigData :: "rrsig \<Rightarrow> bytes" where
  "rrsigData r = be16 (sg_typecovered r) @ [sg_algorithm r, sg_labels r] @ be32 (sg_origttl r)
     @ be32 (sg_expiration r) @ be32 (sg_inception r) @ be16 (sg_keytag r) @ bytes_of (sg_signature r)"

definition rcodeString :: "dnslib \<Rightarrow> msg option \<Rightarrow> string" where
  "rcodeString L m = (case m of None \<Rightarrow> ''nil'' | Some m \<Rightarrow> rcodeToString L (m_rcode m))"

section \<open>Lemmas\<close>

lemma slot_rrByName:
  "slot (rrByName L rs) k = filter (\<lambda>r. normName (fqdn L (rr_name r)) = k) (somes rs)"
  unfolding rrByName_def
  using slot_fold_add_to [where g = "\<lambda>r. r" and f = "\<lambda>r. normName (fqdn L (rr_name r))" and m = "[]"]
  by simp

end
