(* ===== verification/FakeServer.thy ===== *)
theory FakeServer
  imports Network DnsUtil
begin

text \<open>
  \<^verbatim>\<open>internal/resolver/fake.go\<close>: the in-memory authoritative server. Its zone table and the
  record table of a zone are Go maps that the code ranges over; their order here is the order
  of one such loop. \<^verbatim>\<open>dns.Copy\<close> is the identity on values.
\<close>

section \<open>State\<close>

record zone =
  z_name :: string
  z_records :: "(string \<times> rr list) list"
  z_transfer :: bool
  z_recursive :: bool
  z_soa :: "rr option"

record logged_query =
  lq_name :: string
  lq_type :: u16
  lq_server :: string

record fake =
  fk_zones :: "(string \<times> zone) list"
  fk_fallback :: "rr list"
  fk_log :: "logged_query list"
  fk_limit :: int

definition newFake :: fake where
  "newFake = \<lparr>fk_zones = [], fk_fallback = [], fk_log = [], fk_limit = 0\<rparr>"

definition zoneKey :: "dnslib \<Rightarrow> zone \<Rightarrow> string" where
  "zoneKey L z = fqdn L (to_lower (z_name z))"

definition addZone :: "dnslib \<Rightarrow> zone \<Rightarrow> fake \<Rightarrow> fake" where
  "addZone L z f = f\<lparr>fk_zones := put (zoneKey L z) z (fk_zones f)\<rparr>"

definition recordQuery :: "question \<Rightarrow> fake \<Rightarrow> fake" where
  "recordQuery q f = f\<lparr>fk_log := fk_log f @ [\<lparr>lq_name = q_name q, lq_type = q_type q, lq_server = ''fake''\<rparr>]\<rparr>"

section \<open>Finding the zone\<close>

definition inZoneName :: "string \<Rightarrow> string \<Rightarrow> bool" where
  "inZoneName name lz \<longleftrightarrow> name = lz \<or> has_suffix name (CHR ''.'' # lz)"

definition findZone :: "dnslib \<Rightarrow> fake \<Rightarrow> string \<Rightarrow> zone option" where
  "findZone L f name = fst (fold (\<lambda>(_, z) (best, bestLen).
      if inZoneName name (zoneKey L z) \<and> bestLen < int (length (z_name z))
      then (Some z, int (length (z_name z))) else (best, bestLen)) (fk_zones f) (None, -1))"

section \<open>Answers\<close>

definition zoneRecords :: "zone \<Rightarrow> string \<Rightarrow> rr list" where
  "zoneRecords z name = slot (z_records z) name"

definition is_soa_rr :: "rr \<Rightarrow> bool" where
  "is_soa_rr r = (case rr_data r of SOA_RR _ \<Rightarrow> True | _ \<Rightarrow> False)"

definition zoneSOA :: "dnslib \<Rightarrow> zone \<Rightarrow> rr option" where
  "zoneSOA L z = (case z_soa z of Some r \<Rightarrow> Some r
     | None \<Rightarrow> find is_soa_rr (zoneRecords z (zoneKey L z)))"

definition typeMatches :: "question \<Rightarrow> rr \<Rightarrow> bool" where
  "typeMatches q r \<longleftrightarrow> rr_type r = q_type q \<or> q_type q = TypeANY"

definition setName :: "string \<Rightarrow> rr \<Rightarrow> rr" where
  "setName n r = r\<lparr>rr_hdr := (rr_hdr r)\<lparr>h_name := n\<rparr>\<rparr>"

definition wildcardAnswers :: "zone \<Rightarrow> question \<Rightarrow> string \<Rightarrow> rr list" where
  "wildcardAnswers z q name = concat (map (\<lambda>(key, rrs).
      if has_prefix key ''*.'' \<and> has_suffix name (drop 2 key)
      then map (setName name) (filter (typeMatches q) rrs) else []) (z_records z))"

definition denialRecord :: "rr \<Rightarrow> bool" where
  "denialRecord r = (case rr_data r of NSEC_RR _ _ \<Rightarrow> True | NSEC3_RR _ \<Rightarrow> True
     | RRSIG_RR s \<Rightarrow> sg_typecovered s = TypeNSEC \<or> sg_typecovered s = TypeNSEC3 | _ \<Rightarrow> False)"

definition allRecords :: "zone \<Rightarrow> rr list" where
  "allRecords z = concat (map snd (z_records z))"

definition recursionIP :: bytes where
  "recursionIP = replicate 10 0 @ [255, 255, 93, 184, 216, 34]"

definition defaultRecursionAnswer :: "dnslib \<Rightarrow> fake \<Rightarrow> question \<Rightarrow> rr list" where
  "defaultRecursionAnswer L f q =
     (if 0 < length (fk_fallback f) then fk_fallback f
      else [\<lparr>rr_hdr = \<lparr>h_name = fqdn L (to_lower (q_name q)), h_rrtype = TypeA, h_class = ClassINET, h_ttl = 60\<rparr>,
             rr_data = A_RR (Some recursionIP)\<rparr>])"

text \<open>The body of \<^verbatim>\<open>Query\<close> for a question and the zone found for it.\<close>

definition zoneReply :: "dnslib \<Rightarrow> fake \<Rightarrow> zone \<Rightarrow> msg \<Rightarrow> question \<Rightarrow> msg" where
  "zoneReply L f z req q =
     (let name = fqdn L (to_lower (q_name q));
          exact = filter (typeMatches q) (zoneRecords z name);
          wild = (if length exact = 0 then wildcardAnswers z q name else []);
          any = (if q_type q = TypeANY then filter (\<lambda>r. rr_name r \<noteq> zoneKey L z) (allRecords z) else []);
          answer = exact @ wild @ any;
          ns = (if length answer = 0
                then (case zoneSOA L z of None \<Rightarrow> [] | Some s \<Rightarrow> [s]) @ filter denialRecord (allRecords z)
                else []);
          resp = (setRcode L req RcodeSuccess)\<lparr>m_authoritative := True\<rparr>;
          resp = resp\<lparr>m_answer := m_answer resp @ map Some answer, m_ns := m_ns resp @ map Some ns\<rparr>
      in if z_recursive z \<and> q_type q \<noteq> TypeAXFR
         then resp\<lparr>m_recursion_available := True,
                 m_answer := m_answer resp @ map Some (defaultRecursionAnswer L f q)\<rparr>
         else resp)"

definition fakeQuery :: "dnslib \<Rightarrow> msg option \<Rightarrow> fake \<Rightarrow> (go_error + msg) \<times> fake" where
  "fakeQuery L req f =
     (case req of None \<Rightarrow> (Inl ErrNoQuestion, f)
      | Some m \<Rightarrow> (case m_question m of [] \<Rightarrow> (Inl ErrNoQuestion, f)
        | q # _ \<Rightarrow>
           (let f1 = recordQuery q f in
            case findZone L f1 (fqdn L (to_lower (q_name q))) of
              None \<Rightarrow> (Inr (setRcode L m RcodeNameError), f1)
            | Some z \<Rightarrow> (Inr (zoneReply L f1 z m q), f1))))"

text \<open>The loop of \<^verbatim>\<open>Transfer\<close> over the records of the zone's own name.\<close>

fun transferLoop :: "int \<Rightarrow> rr list \<Rightarrow> rr list \<Rightarrow> rr list" where
  "transferLoop limit out [] = out"
| "transferLoop limit out (r # rs) =
     (if 0 < limit \<and> limit \<le> int (length (out @ [r])) then out @ [r] else transferLoop limit (out @ [r]) rs)"

definition fakeTransfer :: "dnslib \<Rightarrow> msg option \<Rightarrow> fake \<Rightarrow> go_error + rr list" where
  "fakeTransfer L req f =
     (case req of None \<Rightarrow> Inl ErrNoQuestion
      | Some m \<Rightarrow> (case m_question m of [] \<Rightarrow> Inl ErrNoQuestion
        | q # _ \<Rightarrow>
           (case findZone L f (fqdn L (to_lower (q_name q))) of
              None \<Rightarrow> Inl ErrZoneRefused
            | Some z \<Rightarrow> if \<not> z_transfer z then Inl ErrZoneRefused
                else Inr (transferLoop (fk_limit f) [] (zoneRecords z (z_name z))))))"

section \<open>Lemmas: the zone found\<close>

definition candidates :: "dnslib \<Rightarrow> fake \<Rightarrow> string \<Rightarrow> zone set" where
  "candidates L f name = {z \<in> snd ` set (fk_zones f). inZoneName name (zoneKey L z)}"

lemma findZone_fold:
  "fold (\<lambda>(_, z) (best, bestLen).
      if inZoneName name (zoneKey L z) \<and> bestLen < int (length (z_name z))
      then (Some z, int (length (z_name z))) else (best, bestLen)) zs (b, l) = (b', l') \<Longrightarrow>
   (l' = l \<and> b' = b \<or> (\<exists>z \<in> snd ` set zs. inZoneName name (zoneKey L z) \<and> b' = Some z \<and> l' = int (length (z_name z)) \<and> l < l')) \<and>
   (\<forall>z \<in> snd ` set zs. inZoneName name (zoneKey L z) \<longrightarrow> int (length (z_name z)) \<le> l') \<and> l \<le> l'"
proof (induction zs arbitrary: b l)
  case (Cons x zs)
  obtain k z where x: "x = (k, z)" by (cases x)
  show ?case
  proof (cases "inZoneName name (zoneKey L z) \<and> l < int (length (z_name z))")
    case True
    then show ?thesis using Cons.IH [of "Some z" "int (length (z_name z))"] Cons.prems
      unfolding x by fastforce
  next
    case False
    have step: "fold (\<lambda>(_, z) (best, bestLen).
      if inZoneName name (zoneKey L z) \<and> bestLen < int (length (z_name z))
      then (Some z, int (length (z_name z))) else (best, bestLen)) zs (b, l) = (b', l')"
      using Cons.prems False unfolding x by (auto split: if_splits)
    show ?thesis using Cons.IH [OF step] False unfolding x by fastforce
  qed
qed simp

lemma findZone_Some:
  assumes "findZone L f name = Some z"
  shows "z \<in> candidates L f name" "\<And>y. y \<in> candidates L f name \<Longrightarrow> length (z_name y) \<le> length (z_name z)"
proof -
  let ?r = "fold (\<lambda>(_, z) (best, bestLen).
      if inZoneName name (zoneKey L z) \<and> bestLen < int (length (z_name z))
      then (Some z, int (length (z_name z))) else (best, bestLen)) (fk_zones f) (None, -1)"
  obtain b l where r: "?r = (b, l)" by (cases ?r)
  then have b: "b = Some z" using assms by (simp add: findZone_def)
  note F = findZone_fold [OF r]
  show "z \<in> candidates L f name" using F b by (auto simp: candidates_def)
  show "length (z_name y) \<le> length (z_name z)" if "y \<in> candidates L f name" for y
    using F b that by (auto simp: candidates_def)
qed

lemma findZone_None: "findZone L f name = None \<longleftrightarrow> candidates L f name = {}"
proof -
  let ?r = "fold (\<lambda>(_, z) (best, bestLen).
      if inZoneName name (zoneKey L z) \<and> bestLen < int (length (z_name z))
      then (Some z, int (length (z_name z))) else (best, bestLen)) (fk_zones f) (None, -1)"
  obtain b l where r: "?r = (b, l)" by (cases ?r)
  show ?thesis using findZone_fold [OF r] r by (fastforce simp: findZone_def candidates_def)
qed

text \<open>
  The zone that answers is the one with the longest name among the zones whose name ends
  the name asked, at a label boundary; where these names have different lengths the answer
  does not depend on the order of the zone table.
\<close>

theorem findZone_longest:
  assumes "inj_on (\<lambda>z. length (z_name z)) (candidates L f name)"
  shows "findZone L f name = Some z \<longleftrightarrow> z \<in> candidates L f name \<and>
    (\<forall>y \<in> candidates L f name. length (z_name y) \<le> length (z_name z))"
proof
  assume "findZone L f name = Some z"
  then show "z \<in> candidates L f name \<and> (\<forall>y \<in> candidates L f name. length (z_name y) \<le> length (z_name z))"
    using findZone_Some by blast
next
  assume z: "z \<in> candidates L f name \<and> (\<forall>y \<in> candidates L f name. length (z_name y) \<le> length (z_name z))"
  then obtain x where x: "findZone L f name = Some x" using findZone_None by blast
  have "length (z_name x) = length (z_name z)"
    using findZone_Some [OF x] z by (simp add: le_antisym)
  then have "x = z" using assms z findZone_Some(1) [OF x] by (auto dest: inj_onD)
  then show "findZone L f name = Some z" using x by simp
qed

definition ex_zone :: "string \<Rightarrow> zone" where
  "ex_zone n = \<lparr>z_name = n, z_records = [], z_transfer = True, z_recursive = False, z_soa = None\<rparr>"

definition ex_fake :: fake where
  "ex_fake = newFake\<lparr>fk_zones := [(''b.'', ex_zone ''b.''), (''a.b.'', ex_zone ''a.b.'')]\<rparr>"

theorem findZone_longest_witness: "findZone plain_lib ex_fake ''x.a.b.'' = Some (ex_zone ''a.b.'')"
proof -
  have c: "candidates plain_lib ex_fake ''x.a.b.'' = {ex_zone ''b.'', ex_zone ''a.b.''}"
    by (auto simp: candidates_def ex_fake_def newFake_def inZoneName_def zoneKey_def ex_zone_def
        plain_lib_def has_suffix_def to_lower_def lower_char_def)
  have "inj_on (\<lambda>z. length (z_name z)) (candidates plain_lib ex_fake ''x.a.b.'')"
    unfolding c by (auto simp: inj_on_def ex_zone_def)
  from findZone_longest [OF this, of "ex_zone ''a.b.''"] show ?thesis
    unfolding c by (simp add: ex_zone_def)
qed

section \<open>Lemmas: replies\<close>

lemma transferLoop_take:
  "length out < nat limit \<Longrightarrow> transferLoop limit out rs = out @ take (nat limit - length out) rs"
proof (induction limit out rs rule: transferLoop.induct)
  case (2 limit out r rs)
  then have "nat limit - length out = Suc (nat limit - Suc (length out))" by simp
  with 2 show ?case by (auto simp: not_le)
qed simp

lemma transferLoop_all: "limit \<le> 0 \<Longrightarrow> transferLoop limit out rs = out @ rs"
  by (induction limit out rs rule: transferLoop.induct) auto

text \<open>
  A transfer is refused unless a zone that allows transfers matches the name; it then returns
  the records stored under the zone's own name, in order, cut to the transfer limit when a
  positive limit is set.
\<close>

theorem fakeTransfer_bounded:
  "fakeTransfer L (Some m) f =
     (case m_question m of [] \<Rightarrow> Inl ErrNoQuestion
      | q # _ \<Rightarrow> (case findZone L f (fqdn L (to_lower (q_name q))) of
           None \<Rightarrow> Inl ErrZoneRefused
         | Some z \<Rightarrow> if z_transfer z
             then Inr (if 0 < fk_limit f then take (nat (fk_limit f)) (slot (z_records z) (z_name z))
                       else slot (z_records z) (z_name z))
             else Inl ErrZoneRefused))"
  by (auto simp: fakeTransfer_def zoneRecords_def transferLoop_all transferLoop_take not_less
      split: list.splits option.splits)

text \<open>The records a name owns, and those a wildcard of the zone lends it, for a question.\<close>

lemma zoneReply_sections:
  assumes "dns_reply_ok L" and "\<not> z_recursive z" and "q_type q \<noteq> TypeANY"
  defines "name \<equiv> fqdn L (to_lower (q_name q))"
  defines "exact \<equiv> filter (\<lambda>r. rr_type r = q_type q) (slot (z_records z) name)"
  shows "m_answer (zoneReply L f z m q) =
      map Some (if exact \<noteq> [] then exact else wildcardAnswers z q name)"
    and "m_ns (zoneReply L f z m q) =
      (if m_answer (zoneReply L f z m q) = []
       then map Some ((case zoneSOA L z of None \<Rightarrow> [] | Some s \<Rightarrow> [s]) @ filter denialRecord (allRecords z)) else [])"
    and "m_rcode (zoneReply L f z m q) = RcodeSuccess" "m_authoritative (zoneReply L f z m q)"
proof -
  have tm: "typeMatches q = (\<lambda>r. rr_type r = q_type q)" using assms(3) by (simp add: fun_eq_iff typeMatches_def)
  show "m_answer (zoneReply L f z m q) = map Some (if exact \<noteq> [] then exact else wildcardAnswers z q name)"
    "m_ns (zoneReply L f z m q) = (if m_answer (zoneReply L f z m q) = []
       then map Some ((case zoneSOA L z of None \<Rightarrow> [] | Some s \<Rightarrow> [s]) @ filter denialRecord (allRecords z)) else [])"
    "m_rcode (zoneReply L f z m q) = RcodeSuccess" "m_authoritative (zoneReply L f z m q)"
    using assms(1-3) by (simp_all add: zoneReply_def Let_def tm zoneRecords_def exact_def name_def)
qed

lemma wildcardAnswers_set:
  "r \<in> set (wildcardAnswers z q name) \<longleftrightarrow>
     (\<exists>suffix rs r0. (''*.'' @ suffix, rs) \<in> set (z_records z) \<and> has_suffix name suffix \<and>
        r0 \<in> set rs \<and> typeMatches q r0 \<and> r = setName name r0)"
  by (auto simp: wildcardAnswers_def has_prefix_iff split: if_splits) fastforce+

text \<open>
  C32. The answer to a question for one type in a zone that is not recursive: the code is
  NXDOMAIN exactly when no zone matches the name, every answer has the type asked, the
  authority section proves a negative answer only when the answer is empty, and then starts
  with the zone's SOA when there is one.
\<close>

theorem fakeQuery_reply:
  assumes "dns_reply_ok L" and "m_question m = q # qs" and "q_type q \<noteq> TypeANY"
    and "\<And>z. z \<in> candidates L f (fqdn L (to_lower (q_name q))) \<Longrightarrow> \<not> z_recursive z"
  shows "\<exists>r. fst (fakeQuery L (Some m) f) = Inr r \<and>
    (m_rcode r = RcodeNameError \<longleftrightarrow> candidates L f (fqdn L (to_lower (q_name q))) = {}) \<and>
    (\<forall>x. Some x \<in> set (m_answer r) \<longrightarrow> rr_type x = q_type q) \<and>
    (m_answer r \<noteq> [] \<longrightarrow> m_ns r = []) \<and>
    (\<forall>z s. findZone L f (fqdn L (to_lower (q_name q))) = Some z \<longrightarrow> zoneSOA L z = Some s \<longrightarrow>
       m_answer r = [] \<longrightarrow> hd (m_ns r) = Some s)"
proof -
  have rec: "findZone L (recordQuery q f) n = findZone L f n" for n
    by (simp add: findZone_def recordQuery_def)
  show ?thesis
  proof (cases "findZone L f (fqdn L (to_lower (q_name q)))")
    case None
    then have "candidates L f (fqdn L (to_lower (q_name q))) = {}" using findZone_None by blast
    then show ?thesis using None assms(1,2) by (simp add: fakeQuery_def rec rcode_defs Let_def)
  next
    case (Some z)
    have nr: "\<not> z_recursive z" using findZone_Some(1) [OF Some] assms(4) by blast
    note S = zoneReply_sections [OF assms(1) nr assms(3), of "recordQuery q f" m]
    have ty: "rr_type x = q_type q" if "Some x \<in> set (m_answer (zoneReply L (recordQuery q f) z m q))" for x
      using that assms(3)
      by (auto simp: S(1) wildcardAnswers_set typeMatches_def setName_def split: if_splits)
    have ne: "candidates L f (fqdn L (to_lower (q_name q))) \<noteq> {}" using findZone_Some(1) [OF Some] by blast
    let ?r = "zoneReply L (recordQuery q f) z m q"
    have q: "fst (fakeQuery L (Some m) f) = Inr ?r" using Some assms(2) by (simp add: fakeQuery_def rec Let_def)
    have code: "m_rcode ?r = RcodeNameError \<longleftrightarrow> candidates L f (fqdn L (to_lower (q_name q))) = {}"
      using S(3) ne by (simp add: rcode_defs)
    have ns: "m_answer ?r \<noteq> [] \<longrightarrow> m_ns ?r = []" using S(2) by simp
    have soa: "hd (m_ns ?r) = Some s" if "zoneSOA L z = Some s" "m_answer ?r = []" for s
      using that S(2) by simp
    show ?thesis
      by (rule exI [of _ ?r], intro conjI allI impI) (use q code ns soa ty Some in auto)
  qed
qed

theorem fakeQuery_reply_witness:
  "\<exists>r. fst (fakeQuery plain_lib (Some (safeNewMsg plain_lib ''x.a.b'' TypeA)) ex_fake) = Inr r \<and>
     m_rcode r \<noteq> RcodeNameError"
proof -
  let ?q = "\<lparr>q_name = ''x.a.b.'', q_type = TypeA\<rparr>"
  have n: "fqdn plain_lib (to_lower (q_name ?q)) = ''x.a.b.''"
    by (simp add: plain_lib_def has_suffix_def to_lower_def lower_char_def)
  have m: "m_question (safeNewMsg plain_lib ''x.a.b'' TypeA) = ?q # []"
    by (simp add: safeNewMsg_def plain_lib_def has_suffix_def new_msg_def)
  have c: "candidates plain_lib ex_fake ''x.a.b.'' = {ex_zone ''b.'', ex_zone ''a.b.''}"
    by (auto simp: candidates_def ex_fake_def newFake_def inZoneName_def zoneKey_def ex_zone_def
        plain_lib_def has_suffix_def to_lower_def lower_char_def)
  have a: "q_type ?q \<noteq> TypeANY" by (simp add: type_defs)
  have nr: "\<not> z_recursive z" if "z \<in> candidates plain_lib ex_fake (fqdn plain_lib (to_lower (q_name ?q)))" for z
    using that unfolding n c by (auto simp: ex_zone_def)
  from fakeQuery_reply [where f = ex_fake, OF plain_lib_reply m a nr] show ?thesis unfolding n c by auto
qed

end
