(* ===== verification/DnssecParse.thy ===== *)
theory DnssecParse
  imports DnsUtil
begin

text \<open>
  \<^verbatim>\<open>internal/dnssec/parse.go\<close> and \<^verbatim>\<open>helpers.go\<close>: keys, signatures and DS records read from
  their resource records, key tags, DS digests and the checks around the cryptographic
  primitives. The primitives themselves (hashes and signature schemes of the Go library) are
  the fields of the record \<open>crypto\<close>, an argument of what uses them.
\<close>

section \<open>Constants and errors\<close>

definition AlgRSASHA1 :: byte where "AlgRSASHA1 = 5"
definition AlgRSASHA1NSEC3 :: byte where "AlgRSASHA1NSEC3 = 7"
definition AlgRSASHA256 :: byte where "AlgRSASHA256 = 8"
definition AlgRSASHA512 :: byte where "AlgRSASHA512 = 10"
definition ECDSAP256 :: byte where "ECDSAP256 = 13"
definition ECDSAP384 :: byte where "ECDSAP384 = 14"
definition Ed25519 :: byte where "Ed25519 = 15"

lemmas alg_defs [go_simps] = AlgRSASHA1_def AlgRSASHA1NSEC3_def AlgRSASHA256_def AlgRSASHA512_def
  ECDSAP256_def ECDSAP384_def Ed25519_def

definition deprecatedAlgorithms :: "byte set" where
  "deprecatedAlgorithms = {AlgRSASHA1, AlgRSASHA1NSEC3}"

definition DigestTypeSHA1 :: byte where "DigestTypeSHA1 = 1"
definition DigestTypeSHA256 :: byte where "DigestTypeSHA256 = 2"
definition DigestTypeSHA512 :: byte where "DigestTypeSHA512 = 3"

lemmas digest_defs [go_simps] = DigestTypeSHA1_def DigestTypeSHA256_def DigestTypeSHA512_def

datatype dnssec_error = ErrEmptyKey | ErrBadKeyLength | ErrBadSignature | ErrKeyMismatch
  | ErrSigInvalid | ErrUnsupportedAlgo | ErrBadDigestType | ErrBadEncoding | ErrLibrary

definition algoName :: "byte \<Rightarrow> string" where
  "algoName algo =
     (if algo = 1 then ''RSAMD5''
      else if algo = AlgRSASHA256 then ''RSA-SHA256''
      else if algo = AlgRSASHA512 then ''RSA-SHA512''
      else if algo = Ed25519 then ''Ed25519''
      else if algo = ECDSAP256 then ''ECDSA-P256-SHA256''
      else if algo = ECDSAP384 then ''ECDSA-P384-SHA384''
      else ''UNKNOWN'')"

section \<open>Primitives\<close>

datatype hash = SHA1 | SHA256 | SHA512

datatype curve = P256 | P384

datatype pubkey = Ed25519Key bytes | EcdsaKey curve bytes | RsaKey nat int

text \<open>
  \<open>digest\<close>: the hash functions; \<open>ed25519Verify\<close> and \<open>ecdsaVerify\<close>: key, message or digest,
  signature; \<open>onCurve\<close>: \<^verbatim>\<open>ecdsa.ParseUncompressedPublicKey\<close> accepting; \<open>rsaVerify\<close>:
  \<^verbatim>\<open>rsa.VerifyPKCS1v15\<close> accepting.
\<close>

record crypto =
  digest :: "hash \<Rightarrow> bytes \<Rightarrow> bytes"
  ed25519Verify :: "bytes \<Rightarrow> bytes \<Rightarrow> bytes \<Rightarrow> bool"
  onCurve :: "curve \<Rightarrow> bytes \<Rightarrow> bool"
  ecdsaVerify :: "curve \<Rightarrow> bytes \<Rightarrow> bytes \<Rightarrow> nat \<Rightarrow> nat \<Rightarrow> bool"
  rsaVerify :: "nat \<Rightarrow> int \<Rightarrow> hash \<Rightarrow> bytes \<Rightarrow> bytes \<Rightarrow> bool"

section \<open>Text fields\<close>

text \<open>
  \<^verbatim>\<open>trimNewlines\<close> walks the runes of the string and so replaces bytes that are not UTF-8; they
  are kept here. Base64 and hex decoding, its only uses, reject the string either way.
\<close>

definition trimNewlines :: "string \<Rightarrow> string" where
  "trimNewlines s = filter (\<lambda>c. c \<noteq> char_of (10 :: nat) \<and> c \<noteq> char_of (13 :: nat)) s"

definition decodeBase64 :: "string \<Rightarrow> bytes option" where
  "decodeBase64 s0 =
     (if s0 = '''' then Some []
      else (let s = trimNewlines s0 in
        case b64_std_decode s of Some b \<Rightarrow> Some b | None \<Rightarrow> b64_raw_decode s))"

definition decodeHex :: "string \<Rightarrow> bytes option" where
  "decodeHex s = (if s = '''' then Some [] else hex_decode (trimNewlines s))"

section \<open>RSA keys\<close>

text \<open>An index expression: \<^term>\<open>None\<close> is the run-time panic of an index out of range.\<close>

definition byte_at :: "bytes \<Rightarrow> nat \<Rightarrow> byte option" where
  "byte_at b i = (if i < length b then Some (b ! i) else None)"

definition go_slice :: "bytes \<Rightarrow> nat \<Rightarrow> nat \<Rightarrow> bytes option" where
  "go_slice b lo hi = (if lo \<le> hi \<and> hi \<le> length b then Some (take (hi - lo) (drop lo b)) else None)"

definition big_int :: "bytes \<Rightarrow> nat" where
  "big_int b = be_val b"

text \<open>
  One integer of the sequence, from offset \<open>off\<close>: the bytes and the offset after them, \<open>Some None\<close>
  when rejected. The length is read two bytes before the offset it has been moved to.
\<close>

definition derInteger :: "bytes \<Rightarrow> nat \<Rightarrow> (bytes \<times> nat) option option" where
  "derInteger der off =
     (if length der \<le> off + 2 then Some None
      else Option.bind (byte_at der off) (\<lambda>tag.
        if tag \<noteq> 0x02 then Some None
        else let off2 = off + 2 in
          Option.bind (byte_at der (off2 - 2)) (\<lambda>l.
            let len = unat (l AND 0xff) in
            if len = 0 then Some None
            else if length der < off2 + len then Some None
            else map_option (\<lambda>b. Some (b, off2 + len)) (go_slice der off2 (off2 + len)))))"

text \<open>The result is \<^term>\<open>None\<close> for a panic, \<open>Some None\<close> for a rejected key.\<close>

definition parseDERRSA :: "bytes \<Rightarrow> (nat \<times> int) option option" where
  "parseDERRSA der =
     (if length der < 4 then Some None
      else if length der \<le> 2 then Some None
      else Option.bind (byte_at der 0) (\<lambda>t.
        if t \<noteq> 0x30 then Some None
        else Option.bind (derInteger der 2) (\<lambda>m.
          case m of None \<Rightarrow> Some None
          | Some (modBytes, off) \<Rightarrow>
            Option.bind (derInteger der off) (\<lambda>e.
              case e of None \<Rightarrow> Some None
              | Some (expBytes, _) \<Rightarrow>
                  if big_int modBytes = 0 \<or> big_int expBytes = 0 then Some None
                  else Some (Some (big_int modBytes, sint (word_of_nat (big_int expBytes) :: 64 word)))))))"

section \<open>DNSKEY\<close>

record key_info =
  ki_flags :: u16
  ki_protocol :: byte
  ki_algorithm :: byte
  ki_pubkey :: pubkey
  ki_bytes :: bytes
  ki_tag :: u16

text \<open>The loop of \<^verbatim>\<open>KeyTag\<close> over the RDATA, with the index and the 32-bit accumulator.\<close>

fun keyTagLoop :: "nat \<Rightarrow> u32 \<Rightarrow> bytes \<Rightarrow> u32" where
  "keyTagLoop i ac [] = ac"
| "keyTagLoop i ac (b # bs) =
     keyTagLoop (i + 1) (if even i then ac + push_bit 8 (ucast b) else ac + ucast b) bs"

definition keyRdata :: "u16 \<Rightarrow> byte \<Rightarrow> byte \<Rightarrow> bytes \<Rightarrow> bytes" where
  "keyRdata flags protocol algo key = be16 flags @ [protocol, algo] @ key"

definition keyTag :: "u16 \<Rightarrow> byte \<Rightarrow> byte \<Rightarrow> bytes \<Rightarrow> u16" where
  "keyTag flags protocol algo key =
     (let ac = keyTagLoop 0 0 (keyRdata flags protocol algo key);
          ac2 = ac + (drop_bit 16 ac AND 0xffff)
      in ucast (ac2 AND 0xffff))"

definition curveBytes :: "curve \<Rightarrow> nat" where
  "curveBytes c = (case c of P256 \<Rightarrow> (256 + 7) div 8 * 2 | P384 \<Rightarrow> (384 + 7) div 8 * 2)"

definition curveKey :: "crypto \<Rightarrow> curve \<Rightarrow> bytes \<Rightarrow> dnssec_error + pubkey" where
  "curveKey C c key =
     (if length key \<noteq> curveBytes c then Inl ErrBadKeyLength
      else if onCurve C c (0x04 # key) then Inr (EcdsaKey c (0x04 # key)) else Inl ErrLibrary)"

text \<open>A panic in the RSA parser does not happen (\<open>parseDERRSA_total\<close>); the model rejects the key.\<close>

definition rsaKey :: "bytes \<Rightarrow> dnssec_error + pubkey" where
  "rsaKey key = (case parseDERRSA key of Some (Some (n, e)) \<Rightarrow> Inr (RsaKey n e) | _ \<Rightarrow> Inl ErrBadKeyLength)"

definition pubkeyFromAlgorithm :: "crypto \<Rightarrow> byte \<Rightarrow> bytes \<Rightarrow> dnssec_error + pubkey" where
  "pubkeyFromAlgorithm C algo key =
     (if algo = Ed25519 then if length key \<noteq> 32 then Inl ErrBadKeyLength else Inr (Ed25519Key key)
      else if algo = ECDSAP256 then curveKey C P256 key
      else if algo = ECDSAP384 then curveKey C P384 key
      else if algo = AlgRSASHA1 \<or> algo = AlgRSASHA256 \<or> algo = AlgRSASHA512 then rsaKey key
      else Inl ErrUnsupportedAlgo)"

definition parseDNSKEY :: "crypto \<Rightarrow> dnskey \<Rightarrow> dnssec_error + key_info" where
  "parseDNSKEY C rr =
     (case decodeBase64 (dk_publickey rr) of
        None \<Rightarrow> Inl ErrBadEncoding
      | Some key \<Rightarrow>
          if length key = 0 then Inl ErrEmptyKey
          else (case pubkeyFromAlgorithm C (dk_algorithm rr) key of
              Inl e \<Rightarrow> Inl e
            | Inr pub \<Rightarrow> Inr \<lparr>ki_flags = dk_flags rr, ki_protocol = dk_protocol rr,
                ki_algorithm = dk_algorithm rr, ki_pubkey = pub, ki_bytes = key,
                ki_tag = keyTag (dk_flags rr) (dk_protocol rr) (dk_algorithm rr) key\<rparr>))"

definition dnskeyRData :: "key_info \<Rightarrow> bytes" where
  "dnskeyRData k = be16 (ki_flags k) @ [ki_protocol k, ki_algorithm k] @ ki_bytes k"

section \<open>RRSIG\<close>

record rrsig_info =
  si_typecovered :: u16
  si_algorithm :: byte
  si_labels :: byte
  si_origttl :: u32
  si_expiration :: u32
  si_inception :: u32
  si_keytag :: u16
  si_signer :: string
  si_signature :: bytes
  si_rdata :: bytes

definition sigRDataNoSig :: "dnslib \<Rightarrow> rrsig \<Rightarrow> bytes" where
  "sigRDataNoSig L rr = be16 (sg_typecovered rr) @ [sg_algorithm rr, sg_labels rr] @ be32 (sg_origttl rr)
     @ be32 (sg_expiration rr) @ be32 (sg_inception rr) @ be16 (sg_keytag rr)
     @ raw (canonicalName L (sg_signername rr))"

definition parseRRSIG :: "dnslib \<Rightarrow> rrsig \<Rightarrow> rrsig_info" where
  "parseRRSIG L rr =
     \<lparr>si_typecovered = sg_typecovered rr, si_algorithm = sg_algorithm rr, si_labels = sg_labels rr,
      si_origttl = sg_origttl rr, si_expiration = sg_expiration rr, si_inception = sg_inception rr,
      si_keytag = sg_keytag rr, si_signer = fqdn L (sg_signername rr),
      si_signature = (case decodeBase64 (sg_signature rr) of Some b \<Rightarrow> b | None \<Rightarrow> bytes_of (sg_signature rr)),
      si_rdata = sigRDataNoSig L rr\<rparr>"

text \<open>\<open>now\<close> is a Unix time in seconds.\<close>

definition signatureExpired :: "int \<Rightarrow> rrsig_info \<Rightarrow> bool" where
  "signatureExpired now r \<longleftrightarrow> uint (si_expiration r) < now"

definition signatureNotYetValid :: "int \<Rightarrow> rrsig_info \<Rightarrow> bool" where
  "signatureNotYetValid now r \<longleftrightarrow> now < uint (si_inception r)"

section \<open>Signature verification\<close>

definition concatRData :: "bytes list \<Rightarrow> bytes" where
  "concatRData records = concat records"

definition algoHash :: "byte \<Rightarrow> hash" where
  "algoHash algo = (if algo = AlgRSASHA1 then SHA1 else if algo = AlgRSASHA256 then SHA256
     else if algo = AlgRSASHA512 then SHA512 else SHA256)"

definition hashDigest :: "crypto \<Rightarrow> hash \<Rightarrow> bytes \<Rightarrow> bytes" where
  "hashDigest C h data = digest C h data"

fun bit_len :: "nat \<Rightarrow> nat" where
  "bit_len n = (if n = 0 then 0 else Suc (bit_len (n div 2)))"

declare bit_len.simps [simp del]

text \<open>A nil error is \<^term>\<open>None\<close>.\<close>

definition rsaVerifyPKCS1 :: "crypto \<Rightarrow> nat \<Rightarrow> int \<Rightarrow> hash \<Rightarrow> bytes \<Rightarrow> bytes \<Rightarrow> dnssec_error option" where
  "rsaVerifyPKCS1 C n e h d sig =
     (if length sig \<noteq> bit_len n div 8 then Some ErrBadSignature
      else if rsaVerify C n e h d sig then None else Some ErrLibrary)"

definition verifyEd25519 :: "crypto \<Rightarrow> rrsig_info \<Rightarrow> key_info \<Rightarrow> bytes list \<Rightarrow> dnssec_error option" where
  "verifyEd25519 C sig key datas =
     (case ki_pubkey key of
        Ed25519Key pub \<Rightarrow>
          if length (si_signature sig) \<noteq> 64 then Some ErrBadSignature
          else if \<not> ed25519Verify C pub (concatRData datas) (si_signature sig) then Some ErrSigInvalid
          else None
      | _ \<Rightarrow> Some ErrKeyMismatch)"

definition verifyECDSA :: "crypto \<Rightarrow> rrsig_info \<Rightarrow> key_info \<Rightarrow> bytes list \<Rightarrow> hash \<Rightarrow> dnssec_error option" where
  "verifyECDSA C sig key datas h =
     (case ki_pubkey key of
        EcdsaKey c pub \<Rightarrow>
          (let half = length (si_signature sig) div 2 in
           if half < 1 \<or> length (si_signature sig) mod 2 \<noteq> 0 then Some ErrBadSignature
           else if \<not> ecdsaVerify C c pub (digest C h (concatRData datas))
               (big_int (take half (si_signature sig))) (big_int (drop half (si_signature sig)))
           then Some ErrSigInvalid else None)
      | _ \<Rightarrow> Some ErrKeyMismatch)"

definition verifyRSA :: "crypto \<Rightarrow> rrsig_info \<Rightarrow> key_info \<Rightarrow> bytes list \<Rightarrow> hash \<Rightarrow> dnssec_error option" where
  "verifyRSA C sig key datas h =
     (case ki_pubkey key of
        RsaKey n e \<Rightarrow> rsaVerifyPKCS1 C n e h (hashDigest C h (concatRData datas)) (si_signature sig)
      | _ \<Rightarrow> Some ErrKeyMismatch)"

definition verifySig :: "crypto \<Rightarrow> rrsig_info \<Rightarrow> key_info \<Rightarrow> bytes list \<Rightarrow> dnssec_error option" where
  "verifySig C sig key datas =
     (if ki_algorithm key = Ed25519 then verifyEd25519 C sig key datas
      else if ki_algorithm key = ECDSAP256 then verifyECDSA C sig key datas SHA256
      else if ki_algorithm key = ECDSAP384 then verifyECDSA C sig key datas SHA512
      else if ki_algorithm key = AlgRSASHA1 \<or> ki_algorithm key = AlgRSASHA256 \<or> ki_algorithm key = AlgRSASHA512
      then verifyRSA C sig key datas (algoHash (ki_algorithm key))
      else Some ErrUnsupportedAlgo)"

section \<open>DS\<close>

record ds_info =
  di_keytag :: u16
  di_algorithm :: byte
  di_digesttype :: byte
  di_digest :: bytes

definition parseDS :: "ds \<Rightarrow> ds_info" where
  "parseDS rr = \<lparr>di_keytag = ds_keytag rr, di_algorithm = ds_algorithm rr,
     di_digesttype = ds_digesttype rr,
     di_digest = (case decodeHex (ds_digest rr) of None \<Rightarrow> [] | Some d \<Rightarrow> d)\<rparr>"

definition computeDSDigest :: "dnslib \<Rightarrow> crypto \<Rightarrow> byte \<Rightarrow> string \<Rightarrow> bytes \<Rightarrow> dnssec_error + bytes" where
  "computeDSDigest L C digestType owner rdata =
     (let data = raw (canonicalName L owner) @ rdata in
      if digestType = DigestTypeSHA1 then Inr (digest C SHA1 data)
      else if digestType = DigestTypeSHA256 then Inr (digest C SHA256 data)
      else if digestType = DigestTypeSHA512 then Inr (digest C SHA512 data)
      else Inl ErrBadDigestType)"

section \<open>Lemmas: key tags\<close>

text \<open>RFC 4034, Appendix B: the RDATA as a sum of 16-bit big-endian words, the carry added back.\<close>

fun words16 :: "bytes \<Rightarrow> nat" where
  "words16 [] = 0"
| "words16 [a] = 256 * unat a"
| "words16 (a # b # bs) = 256 * unat a + unat b + words16 bs"

definition rfc_key_tag :: "bytes \<Rightarrow> nat" where
  "rfc_key_tag rdata = (words16 rdata + words16 rdata div 65536) mod 65536"

fun byte_sum :: "nat \<Rightarrow> bytes \<Rightarrow> nat" where
  "byte_sum i [] = 0"
| "byte_sum i (b # bs) = (if even i then 256 * unat b else unat b) + byte_sum (i + 1) bs"

lemma byte_sum_words: "even i \<Longrightarrow> byte_sum i bs = words16 bs"
  by (induction bs arbitrary: i rule: words16.induct) auto

lemma byte_sum_bound: "byte_sum i bs \<le> 65280 * length bs"
proof (induction i bs rule: byte_sum.induct)
  case (2 i b bs)
  have "unat b \<le> 255" using unat_byte_less [of b] by simp
  with 2 show ?case by auto
qed simp

lemma unat_ucast_u32: "unat (ucast (b :: byte) :: u32) = unat b"
  by (simp add: unsigned_ucast_eq take_bit_nat_eq_self unat_byte_less order.strict_trans [OF unat_byte_less])

lemma unat_shift8: "unat (push_bit 8 (ucast (b :: byte)) :: u32) = 256 * unat b"
proof -
  have "unat (push_bit 8 (ucast b) :: u32) = (unat b * 256) mod 2 ^ 32"
    by (simp add: push_bit_eq_mult unat_word_ariths unat_ucast_u32)
  then show ?thesis using unat_byte_less [of b] by simp
qed

lemma keyTagLoop_sum:
  "unat ac + byte_sum i bs < 2 ^ 32 \<Longrightarrow> unat (keyTagLoop i ac bs) = unat ac + byte_sum i bs"
proof (induction i ac bs rule: keyTagLoop.induct)
  case (2 i ac b bs)
  let ?v = "if even i then push_bit 8 (ucast b) else ucast b :: u32"
  have v: "unat ?v = (if even i then 256 * unat b else unat b)"
    by (simp add: unat_shift8 unat_ucast_u32)
  then have a: "unat (ac + ?v) = unat ac + (if even i then 256 * unat b else unat b)"
    using "2.prems" by (subst unat_add_lem [THEN iffD1]) auto
  show ?case using "2.IH" "2.prems" a by (cases "even i") (simp_all add: add.assoc)
qed simp

lemma and_ffff: "(w :: u32) AND 0xffff = take_bit 16 w"
  by (simp add: take_bit_eq_mask mask_eq_exp_minus_1)

lemma keyTag_words:
  assumes "length key \<le> 65531"
  shows "unat (keyTag flags protocol algo key) = rfc_key_tag (keyRdata flags protocol algo key)"
proof -
  let ?d = "keyRdata flags protocol algo key"
  let ?s = "words16 ?d" and ?ac = "keyTagLoop 0 0 ?d"
  have len: "length ?d \<le> 65535" using assms by (simp add: keyRdata_def)
  have "?s \<le> 65280 * 65535"
    using byte_sum_bound [of 0 ?d] byte_sum_words [of 0 ?d] mult_le_mono2 [OF len, of 65280] by simp
  then have s: "?s < 2 ^ 32" "?s div 65536 < 65536" by simp_all
  have ac: "unat ?ac = ?s"
    using keyTagLoop_sum [of 0 0 ?d] byte_sum_words [of 0 ?d] s by simp
  have c: "unat (take_bit 16 (drop_bit 16 ?ac)) = ?s div 65536"
    using s unfolding unsigned_take_bit_eq unat_drop_bit ac by (simp add: take_bit_eq_mod)
  have "unat (keyTag flags protocol algo key) = (?s + ?s div 65536) mod 2 ^ 32 mod 65536"
  proof -
    have "unat (?ac + take_bit 16 (drop_bit 16 ?ac)) = (?s + ?s div 65536) mod 2 ^ 32"
      unfolding unat_word_ariths ac c by simp
    then have "unat (take_bit 16 (?ac + take_bit 16 (drop_bit 16 ?ac))) = (?s + ?s div 65536) mod 2 ^ 32 mod 65536"
      unfolding unsigned_take_bit_eq by (simp add: take_bit_eq_mod)
    moreover have "unat (ucast (w :: u32) :: u16) = unat w mod 65536" for w
      unfolding unsigned_ucast_eq by (simp add: take_bit_eq_mod)
    ultimately show ?thesis by (simp add: keyTag_def Let_def and_ffff)
  qed
  then show ?thesis by (simp add: rfc_key_tag_def mod_mod_cancel)
qed

text \<open>
  C23. The key tag of a DNSKEY is the one of RFC 4034: the RDATA summed as 16-bit big-endian
  words with the carry added back, for every key that fits a record; the 32-bit accumulator
  does not wrap.
\<close>

theorem keyTag_rfc:
  assumes "parseDNSKEY C rr = Inr k" and "length (ki_bytes k) \<le> 65531"
  shows "unat (ki_tag k) = rfc_key_tag (dnskeyRData k)"
proof -
  have "ki_tag k = keyTag (ki_flags k) (ki_protocol k) (ki_algorithm k) (ki_bytes k)"
    using assms(1) by (auto simp: parseDNSKEY_def split: option.splits sum.splits if_splits)
  then show ?thesis
    using keyTag_words [OF assms(2)] by (simp add: dnskeyRData_def keyRdata_def)
qed

text \<open>A key that the parser accepts, for the examples: modulus 32769, exponent 3.\<close>

definition ex_rsa :: dnskey where
  "ex_rsa = \<lparr>dk_flags = 257, dk_protocol = 3, dk_algorithm = 8, dk_publickey = ''MAACAIABAgAAAwAA''\<rparr>"

lemma trimNewlines_strip: "trimNewlines s = strip_newlines s"
  by (simp add: trimNewlines_def strip_newlines_def)

lemma ex_rsa_bytes: "decodeBase64 (dk_publickey ex_rsa) = Some [0x30, 0, 2, 0, 0x80, 1, 2, 0, 0, 3, 0, 0]"
proof -
  let ?s = "''MAACAIABAgAAAwAA''"
  have t: "trimNewlines ?s = ?s" and n: "strip_newlines ?s = ?s"
    by (simp_all add: trimNewlines_strip strip_newlines_id)
  have "b64_std_decode ?s = Some [0x30, 0, 2, 0, 0x80, 1, 2, 0, 0, 3, 0, 0]"
    unfolding b64_std_decode_def n by (simp add: b64_val_def b64_bytes_def)
  then show ?thesis by (simp add: ex_rsa_def decodeBase64_def t)
qed

definition ex_key :: key_info where
  "ex_key = \<lparr>ki_flags = 257, ki_protocol = 3, ki_algorithm = 8, ki_pubkey = RsaKey 32769 3,
     ki_bytes = [0x30, 0, 2, 0, 0x80, 1, 2, 0, 0, 3, 0, 0], ki_tag = keyTag 257 3 8 [0x30, 0, 2, 0, 0x80, 1, 2, 0, 0, 3, 0, 0]\<rparr>"

section \<open>Lemmas: RSA keys\<close>

lemma unat_and_ff: "unat ((b :: byte) AND 0xff) = unat b"
proof -
  have "(0xff :: byte) = mask 8" by (simp add: mask_eq_exp_minus_1)
  then have "b AND 0xff = take_bit 8 b" by (simp add: take_bit_eq_mask)
  then show ?thesis by (simp add: unsigned_take_bit_eq take_bit_nat_eq_self unat_byte_less)
qed

text \<open>The length read is the tag itself, so the integer is always two bytes long.\<close>

lemma derInteger_eq:
  "derInteger der off = Some
     (if off + 4 \<le> length der \<and> der ! off = 2 then Some ([der ! (off + 2), der ! (off + 3)], off + 4) else None)"
proof (cases "length der \<le> off + 2 \<or> der ! off \<noteq> 2")
  case True
  then show ?thesis by (auto simp: derInteger_def byte_at_def)
next
  case False
  have "take 2 (drop (off + 2) der) = [der ! (off + 2), der ! (off + 3)]" if "off + 4 \<le> length der"
    using that by (simp add: take_Suc_conv_app_nth numeral_2_eq_2 numeral_3_eq_3)
  then show ?thesis using False
    by (auto simp: derInteger_def byte_at_def Let_def unat_and_ff go_slice_def)
qed

lemma parseDERRSA_eq:
  "parseDERRSA der = Some
     (if 10 \<le> length der \<and> der ! 0 = 0x30 \<and> der ! 2 = 2 \<and> der ! 6 = 2 \<and>
         0 < be_val [der ! 4, der ! 5] \<and> 0 < be_val [der ! 8, der ! 9]
      then Some (be_val [der ! 4, der ! 5], int (be_val [der ! 8, der ! 9])) else None)"
proof -
  have e: "sint (word_of_nat (be_val [a, b]) :: 64 word) = int (be_val [a, b])" for a b
  proof -
    have "be_val [a, b] < 65536"
      using unat_byte_less [of a] unat_byte_less [of b] by (simp add: be_val_def)
    then show ?thesis by (simp add: sint_uint signed_take_bit_int_eq_self take_bit_int_eq_self unsigned_of_nat take_bit_nat_eq_self)
  qed
  show ?thesis
    by (auto simp: parseDERRSA_def byte_at_def derInteger_eq big_int_def e)
qed

lemma ex_rsa_der: "parseDERRSA [0x30, 0, 2, 0, 0x80, 1, 2, 0, 0, 3, 0, 0] = Some (Some (32769, 3))"
  by (simp add: parseDERRSA_eq be_val_def)

lemma ex_rsa_key: "parseDNSKEY C ex_rsa = Inr ex_key"
  unfolding parseDNSKEY_def ex_rsa_bytes
  by (simp add: pubkeyFromAlgorithm_def rsaKey_def ex_rsa_der go_simps ex_key_def) (simp add: ex_rsa_def)

theorem keyTag_rfc_witness: "unat (ki_tag ex_key) = rfc_key_tag (dnskeyRData ex_key)"
  by (rule keyTag_rfc [OF ex_rsa_key]) (simp add: ex_key_def)

lemma parseDERRSA_total: "parseDERRSA der \<noteq> None"
  by (simp add: parseDERRSA_eq)

lemma be_val_two: "be_val [a, b] < 65536"
  using unat_byte_less [of a] unat_byte_less [of b] by (simp add: be_val_def)

text \<open>
  C24. The parser of RSA keys never indexes out of range, whatever the bytes of the key; and since
  it reads an integer's tag where its length stands, the keys it accepts have a modulus and an
  exponent below 65536.
\<close>

theorem parseDERRSA_safe:
  "parseDERRSA der \<noteq> None \<and>
   (\<forall>n e. parseDERRSA der = Some (Some (n, e)) \<longrightarrow> 0 < n \<and> n < 65536 \<and> 0 < e \<and> e < 65536)"
  using be_val_two by (auto simp: parseDERRSA_eq split: if_splits)

theorem parseDERRSA_safe_witness:
  "parseDERRSA [0x30, 0, 2, 0, 0x80, 1, 2, 0, 0, 3, 0, 0] = Some (Some (32769, 3)) \<and> (32769 :: nat) < 65536"
  using parseDERRSA_safe [of "[0x30, 0, 2, 0, 0x80, 1, 2, 0, 0, 3, 0, 0]"] ex_rsa_der by simp

lemma bit_len_le: "n < 2 ^ k \<Longrightarrow> bit_len n \<le> k"
proof (induction n arbitrary: k rule: bit_len.induct)
  case (1 n)
  show ?case
  proof (cases "n = 0")
    case True
    then show ?thesis by (simp add: bit_len.simps)
  next
    case False
    then obtain j where k: "k = Suc j" using "1.prems" by (cases k) auto
    then have "n div 2 < 2 ^ j" using "1.prems" by simp
    then show ?thesis using "1.IH" [OF False] False k by (subst bit_len.simps) simp
  qed
qed

text \<open>
  No RSA signature of more than two bytes verifies: for every key that is parsed from a DNSKEY
  of an RSA algorithm, a longer signature is refused before any cryptography, so records
  signed with RSA are always reported as invalid or left unverified.
\<close>

theorem rsa_signature_refused:
  assumes "parseDNSKEY C rr = Inr k" and "dk_algorithm rr \<in> {AlgRSASHA1, AlgRSASHA256, AlgRSASHA512}"
    and "2 < length (si_signature sig)"
  shows "verifySig C sig k datas = Some ErrBadSignature"
proof -
  have alg: "ki_algorithm k = dk_algorithm rr" and pk: "rsaKey (ki_bytes k) = Inr (ki_pubkey k)"
    using assms(1,2)
    by (auto simp: parseDNSKEY_def pubkeyFromAlgorithm_def go_simps split: option.splits sum.splits if_splits)
  from pk obtain n e where ne: "parseDERRSA (ki_bytes k) = Some (Some (n, e))" "ki_pubkey k = RsaKey n e"
    by (auto simp: rsaKey_def split: option.splits prod.splits)
  then have "n < 2 ^ 16" using be_val_two by (auto simp: parseDERRSA_eq split: if_splits)
  then have "bit_len n div 8 \<le> 2" using bit_len_le [of n 16] by linarith
  then have "length (si_signature sig) \<noteq> bit_len n div 8" using assms(3) by simp
  then show ?thesis
    using alg ne(2) assms(2) by (auto simp: verifySig_def verifyRSA_def rsaVerifyPKCS1_def go_simps)
qed

definition ex_sig :: rrsig_info where
  "ex_sig = \<lparr>si_typecovered = 1, si_algorithm = 8, si_labels = 1, si_origttl = 300, si_expiration = 10,
     si_inception = 5, si_keytag = 0, si_signer = ''z.'', si_signature = [1, 2, 3], si_rdata = []\<rparr>"

theorem rsa_signature_refused_witness: "\<forall>C. verifySig C ex_sig ex_key [[1]] = Some ErrBadSignature"
  by (intro allI, rule rsa_signature_refused [OF ex_rsa_key]) (simp_all add: ex_rsa_def ex_sig_def go_simps)

section \<open>Lemmas: validity periods\<close>

text \<open>
  The validity period is the one of RFC 4034 within 68 years of the bound: for times that a
  32-bit field can hold, the plain comparisons agree with serial number arithmetic.
\<close>

theorem validity_serial_arithmetic:
  assumes "0 \<le> now" and "now < 2 ^ 32"
    and "\<bar>now - uint (si_expiration sig)\<bar> < 2 ^ 31" and "\<bar>now - uint (si_inception sig)\<bar> < 2 ^ 31"
  shows "(signatureExpired now sig \<longleftrightarrow> 0 < sint (word_of_int now - si_expiration sig)) \<and>
    (signatureNotYetValid now sig \<longleftrightarrow> sint (word_of_int now - si_inception sig) < 0)"
proof -
  have s: "sint (word_of_int now - w) = now - uint w" if "\<bar>now - uint w\<bar> < 2 ^ 31" for w :: u32
  proof -
    have "word_of_int now - w = word_of_int (now - uint w)" by (simp add: word_of_int_uint flip: wi_hom_sub)
    then show ?thesis using that by (simp add: signed_of_int signed_take_bit_int_eq_self abs_less_iff del: of_int_diff)
  qed
  show ?thesis
    using s [OF assms(3)] s [OF assms(4)] by (auto simp: signatureExpired_def signatureNotYetValid_def)
qed

theorem validity_serial_arithmetic_witness: "signatureExpired 20 ex_sig \<and> \<not> signatureNotYetValid 20 ex_sig"
  using validity_serial_arithmetic [of 20 ex_sig] by (simp add: ex_sig_def)

end
