(* ===== verification/TestZones.thy ===== *)
theory TestZones
  imports FakeServer DnssecParse
begin

text \<open>
  \<^verbatim>\<open>testdata/testzones.go\<close>: the zones the functional tests run on. A constructor whose address
  does not parse, or whose key generation fails, panics; it is then \<^term>\<open>None\<close>. The key pair that
  \<^verbatim>\<open>ed25519.GenerateKey\<close> returns, \<^verbatim>\<open>ed25519.Sign\<close> and the readings of the clock, in seconds,
  are arguments. A map literal is an association list in one order.
\<close>

section \<open>Records\<close>

definition tz_name :: "dnslib \<Rightarrow> string \<Rightarrow> string" where
  "tz_name L s = fqdn L s"

definition tz_hdr :: "string \<Rightarrow> u16 \<Rightarrow> u32 \<Rightarrow> rr_header" where
  "tz_hdr n t ttl = \<lparr>h_name = n, h_rrtype = t, h_class = ClassINET, h_ttl = ttl\<rparr>"

fun split_dots :: "string \<Rightarrow> string \<Rightarrow> string list" where
  "split_dots cur [] = (if cur \<noteq> [] then [cur] else [])"
| "split_dots cur (c # s) = (if c = CHR ''.'' then cur # split_dots [] s else split_dots (cur @ [c]) s)"

definition tz_splitLabels :: "string \<Rightarrow> string list" where
  "tz_splitLabels n = split_dots [] n"

definition signRR :: "rr \<Rightarrow> u16 \<Rightarrow> u32 \<Rightarrow> u32 \<Rightarrow> u16 \<Rightarrow> byte \<Rightarrow> rr" where
  "signRR r rtype expi inc flags algo =
     \<lparr>rr_hdr = tz_hdr (rr_name r) TypeRRSIG (rr_ttl r),
      rr_data = RRSIG_RR \<lparr>sg_typecovered = rtype, sg_algorithm = algo,
        sg_labels = word_of_nat (length (tz_splitLabels (rr_name r))), sg_origttl = rr_ttl r,
        sg_expiration = expi, sg_inception = inc, sg_keytag = 1234, sg_signername = rr_name r,
        sg_signature = ''placeholder-signature-for-tests''\<rparr>\<rparr>"

definition mustIP :: "string \<Rightarrow> bytes option" where
  "mustIP s = parseIP s"

definition tz_soa :: "dnslib \<Rightarrow> string \<Rightarrow> string \<Rightarrow> string \<Rightarrow> u32 \<Rightarrow> u32 \<Rightarrow> u32 \<Rightarrow> u32 \<Rightarrow> u32 \<Rightarrow> u32 \<Rightarrow> rr" where
  "tz_soa L zone mname mbox serial refresh retry expire mintl ttl =
     \<lparr>rr_hdr = tz_hdr (tz_name L zone) TypeSOA ttl,
      rr_data = SOA_RR \<lparr>soa_ns = tz_name L mname, soa_mbox = tz_name L mbox, soa_serial = serial,
        soa_refresh = refresh, soa_retry = retry, soa_expire = expire, soa_minttl = mintl\<rparr>\<rparr>"

definition tz_ns :: "dnslib \<Rightarrow> string \<Rightarrow> string \<Rightarrow> u32 \<Rightarrow> rr" where
  "tz_ns L zone nsname ttl =
     \<lparr>rr_hdr = tz_hdr (tz_name L zone) TypeNS ttl, rr_data = NS_RR (tz_name L nsname)\<rparr>"

definition tz_a :: "dnslib \<Rightarrow> string \<Rightarrow> string \<Rightarrow> u32 \<Rightarrow> rr option" where
  "tz_a L zone ip ttl = map_option (\<lambda>a.
     \<lparr>rr_hdr = tz_hdr (tz_name L zone) TypeA ttl, rr_data = A_RR (Some a)\<rparr>) (mustIP ip)"

definition tz_aaaa :: "dnslib \<Rightarrow> string \<Rightarrow> string \<Rightarrow> u32 \<Rightarrow> rr option" where
  "tz_aaaa L zone ip ttl = map_option (\<lambda>a.
     \<lparr>rr_hdr = tz_hdr (tz_name L zone) TypeAAAA ttl, rr_data = AAAA_RR (Some a)\<rparr>) (mustIP ip)"

definition tz_txt :: "dnslib \<Rightarrow> string \<Rightarrow> string \<Rightarrow> u32 \<Rightarrow> rr" where
  "tz_txt L zone s ttl = \<lparr>rr_hdr = tz_hdr (tz_name L zone) TypeTXT ttl, rr_data = TXT_RR [s]\<rparr>"

definition tz_mx :: "dnslib \<Rightarrow> string \<Rightarrow> string \<Rightarrow> u16 \<Rightarrow> u32 \<Rightarrow> rr" where
  "tz_mx L zone exchange pref ttl =
     \<lparr>rr_hdr = tz_hdr (tz_name L zone) TypeMX ttl, rr_data = MX_RR pref (tz_name L exchange)\<rparr>"

definition tz_cname :: "dnslib \<Rightarrow> string \<Rightarrow> string \<Rightarrow> u32 \<Rightarrow> rr" where
  "tz_cname L zone target ttl =
     \<lparr>rr_hdr = tz_hdr (tz_name L zone) TypeCNAME ttl, rr_data = CNAME_RR (tz_name L target)\<rparr>"

definition tz_caa :: "dnslib \<Rightarrow> string \<Rightarrow> int \<Rightarrow> string \<Rightarrow> string \<Rightarrow> u32 \<Rightarrow> rr" where
  "tz_caa L zone critical tag value ttl =
     \<lparr>rr_hdr = tz_hdr (tz_name L zone) TypeCAA ttl,
      rr_data = CAA_RR \<lparr>caa_flag = word_of_int critical, caa_tag = tag, caa_value = value\<rparr>\<rparr>"

section \<open>Zones\<close>

text \<open>A zone literal: its name, the two switches, and its records; a record that panicked is \<^term>\<open>None\<close>.\<close>

definition zone_literal :: "string \<Rightarrow> bool \<Rightarrow> bool \<Rightarrow> (string \<times> rr option list) list \<Rightarrow> zone option" where
  "zone_literal n transfer recursive entries =
     map_option (\<lambda>rs. \<lparr>z_name = n, z_records = rs, z_transfer = transfer, z_recursive = recursive, z_soa = None\<rparr>)
       (all_some (map (\<lambda>(k, xs). map_option (Pair k) (all_some xs)) entries))"

definition Healthy_zone :: "dnslib \<Rightarrow> zone option" where
  "Healthy_zone L = (let zone = ''healthy.test.'' in
     zone_literal zone False False
      [(zone,
        [Some (tz_soa L zone ''ns1.healthy.test.'' ''admin.healthy.test.'' 2024010101 7200 1800 1209600 3600 3600),
         Some (tz_ns L zone ''ns1.healthy.test.'' 3600),
         Some (tz_ns L zone ''ns2.healthy.test.'' 3600),
         tz_a L ''ns1.healthy.test.'' ''198.51.100.10'' 3600,
         tz_a L ''ns2.healthy.test.'' ''198.51.100.20'' 3600,
         tz_a L ''healthy.test.'' ''203.0.113.10'' 300,
         Some (tz_txt L ''healthy.test.'' ''v=spf1 -all'' 300)])])"

definition LameDelegation_zone :: "dnslib \<Rightarrow> zone option" where
  "LameDelegation_zone L = (let zone = ''lamedelegation.test.''; sub = ''sub.lamedelegation.test.'' in
     zone_literal zone False False
      [(zone,
        [Some (tz_soa L zone ''ns1.lamedelegation.test.'' ''admin.lamedelegation.test.'' 1 7200 1800 1209600 3600 3600),
         Some (tz_ns L zone ''ns1.lamedelegation.test.'' 3600)]),
       (sub,
        [Some (tz_ns L sub ''ns1.lamedelegation.test.'' 3600),
         Some (tz_ns L sub ''ns2.lamedelegation.test.'' 3600),
         tz_a L ''ns1.lamedelegation.test.'' ''198.51.100.10'' 3600])])"

definition AXFRAllowed_zone :: "dnslib \<Rightarrow> zone option" where
  "AXFRAllowed_zone L = (let zone = ''axfr.test.'' in
     zone_literal zone True False
      [(zone,
        [Some (tz_soa L zone ''ns1.axfr.test.'' ''admin.axfr.test.'' 1 7200 1800 1209600 3600 3600),
         Some (tz_ns L zone ''ns1.axfr.test.'' 3600),
         tz_a L ''ns1.axfr.test.'' ''198.51.100.30'' 3600,
         tz_a L ''axfr.test.'' ''203.0.113.40'' 300])])"

definition AXFRDenied_zone :: "dnslib \<Rightarrow> zone option" where
  "AXFRDenied_zone L = (let zone = ''axfrdenied.test.'' in
     zone_literal zone False False
      [(zone,
        [Some (tz_soa L zone ''ns1.axfrdenied.test.'' ''admin.axfrdenied.test.'' 1 7200 1800 1209600 3600 3600),
         Some (tz_ns L zone ''ns1.axfrdenied.test.'' 3600),
         tz_a L ''ns1.axfrdenied.test.'' ''198.51.100.40'' 3600])])"

definition Recursion_zone :: "dnslib \<Rightarrow> zone option" where
  "Recursion_zone L =
     zone_literal ''recursion.test.'' False True
      [(''recursion.test.'',
        [Some (tz_soa L ''recursion.test.'' ''ns1.recursion.test.'' ''admin.recursion.test.'' 1 7200 1800 1209600 3600 3600),
         Some (tz_ns L ''recursion.test.'' ''ns1.recursion.test.'' 3600),
         tz_a L ''ns1.recursion.test.'' ''198.51.100.50'' 3600])]"

definition ShortTTL_zone :: "dnslib \<Rightarrow> zone option" where
  "ShortTTL_zone L = (let zone = ''shortttl.test.'' in
     zone_literal zone False False
      [(zone,
        [Some (tz_soa L zone ''ns1.shortttl.test.'' ''admin.shortttl.test.'' 1 60 60 3600 60 30),
         Some (tz_ns L zone ''ns1.shortttl.test.'' 30),
         tz_a L zone ''203.0.113.60'' 30])])"

definition Wildcard_zone :: "dnslib \<Rightarrow> zone option" where
  "Wildcard_zone L = (let zone = ''wildcard.test.'' in
     zone_literal zone False False
      [(zone,
        [Some (tz_soa L zone ''ns1.wildcard.test.'' ''admin.wildcard.test.'' 1 7200 1800 1209600 3600 3600),
         Some (tz_ns L zone ''ns1.wildcard.test.'' 3600),
         tz_a L ''ns1.wildcard.test.'' ''198.51.100.60'' 3600,
         tz_a L zone ''203.0.113.70'' 300]),
       (''*.wildcard.test.'', [tz_a L ''*.wildcard.test.'' ''203.0.113.71'' 300])])"

definition CNANameLoop_zone :: "dnslib \<Rightarrow> zone option" where
  "CNANameLoop_zone L = (let zone = ''cnameraise.test.'' in
     zone_literal zone False False
      [(zone,
        [Some (tz_soa L zone ''ns1.cnameraise.test.'' ''admin.cnameraise.test.'' 1 7200 1800 1209600 3600 3600),
         Some (tz_ns L zone ''ns1.cnameraise.test.'' 3600),
         tz_a L ''ns1.cnameraise.test.'' ''198.51.100.70'' 3600]),
       (''a.cnameraise.test.'', [Some (tz_cname L ''a.cnameraise.test.'' ''b.cnameraise.test.'' 300)]),
       (''b.cnameraise.test.'', [Some (tz_cname L ''b.cnameraise.test.'' ''a.cnameraise.test.'' 300)])])"

definition CNDangling_zone :: "dnslib \<Rightarrow> zone option" where
  "CNDangling_zone L = (let zone = ''cnameraisedangle.test.'' in
     zone_literal zone False False
      [(zone,
        [Some (tz_soa L zone ''ns1.cnameraisedangle.test.'' ''admin.cnameraisedangle.test.'' 1 7200 1800 1209600 3600 3600),
         Some (tz_ns L zone ''ns1.cnameraisedangle.test.'' 3600),
         tz_a L ''ns1.cnameraisedangle.test.'' ''198.51.100.80'' 3600]),
       (''dangling.cnameraisedangle.test.'',
        [Some (tz_cname L ''dangling.cnameraisedangle.test.'' ''missing.example.'' 300)])])"

definition PrivateAddr_zone :: "dnslib \<Rightarrow> zone option" where
  "PrivateAddr_zone L = (let zone = ''privateaddr.test.'' in
     zone_literal zone False False
      [(zone,
        [Some (tz_soa L zone ''ns1.privateaddr.test.'' ''admin.privateaddr.test.'' 1 7200 1800 1209600 3600 3600),
         Some (tz_ns L zone ''ns1.privateaddr.test.'' 3600),
         tz_a L ''ns1.privateaddr.test.'' ''198.51.100.90'' 3600,
         tz_a L zone ''10.0.0.5'' 300])])"

definition MalformedCAA_zone :: "dnslib \<Rightarrow> zone option" where
  "MalformedCAA_zone L = (let zone = ''malformedcaa.test.'' in
     zone_literal zone False False
      [(zone,
        [Some (tz_soa L zone ''ns1.malformedcaa.test.'' ''admin.malformedcaa.test.'' 1 7200 1800 1209600 3600 3600),
         Some (tz_ns L zone ''ns1.malformedcaa.test.'' 3600),
         tz_a L ''ns1.malformedcaa.test.'' ''198.51.100.100'' 3600,
         Some (tz_caa L zone 1 ''issuetoken'' ''url=...'' 300)])])"

definition ExtremeTTL_zone :: "dnslib \<Rightarrow> zone option" where
  "ExtremeTTL_zone L = (let zone = ''extremettl.test.'' in
     zone_literal zone False False
      [(zone,
        [Some (tz_soa L zone ''ns1.extremettl.test.'' ''admin.extremettl.test.'' 1 7200 1800 1209600 3600 3600),
         Some (tz_ns L zone ''ns1.extremettl.test.'' 3600),
         tz_a L zone ''203.0.113.110'' 999999999])])"

section \<open>Zones with DNSSEC records\<close>

text \<open>A key pair as \<^verbatim>\<open>GenerateKey\<close> returns it, public key first; \<^term>\<open>None\<close> for its error.\<close>

type_synonym keygen = "(bytes \<times> bytes) option"

definition DNSKEYRecord :: "keygen \<Rightarrow> string \<Rightarrow> rr option" where
  "DNSKEYRecord g zone = map_option (\<lambda>(pub, _).
     \<lparr>rr_hdr = tz_hdr zone TypeDNSKEY 3600,
      rr_data = DNSKEY_RR \<lparr>dk_flags = 256, dk_protocol = 3, dk_algorithm = 15, dk_publickey = b64_encode pub\<rparr>\<rparr>) g"

definition ExpireDNSSec_zone :: "dnslib \<Rightarrow> keygen \<Rightarrow> int \<Rightarrow> zone option" where
  "ExpireDNSSec_zone L g clock =
     (let zone = ''expireddnssec.test.''; now = clock - 48 * 3600;
          exp = word_of_int (now - 3600); inc = word_of_int (now - 48 * 3600);
          a = tz_a L zone ''203.0.113.20'' 300;
          signed = map_option (\<lambda>r. signRR r TypeA exp inc 256 15) a
      in zone_literal zone False False
      [(zone,
        [Some (tz_soa L zone ''ns1.expireddnssec.test.'' ''admin.expireddnssec.test.'' 2024010101 7200 1800 1209600 3600 3600),
         Some (tz_ns L zone ''ns1.expireddnssec.test.'' 3600),
         DNSKEYRecord g zone, a, signed])])"

definition BrokenDNSSec_zone :: "dnslib \<Rightarrow> keygen \<Rightarrow> zone option" where
  "BrokenDNSSec_zone L g = (let zone = ''brokendnssec.test.'' in
     zone_literal zone False False
      [(zone,
        [Some (tz_soa L zone ''ns1.brokendnssec.test.'' ''admin.brokendnssec.test.'' 2024010101 7200 1800 1209600 3600 3600),
         Some (tz_ns L zone ''ns1.brokendnssec.test.'' 3600),
         DNSKEYRecord g zone, tz_a L zone ''203.0.113.30'' 300])])"

record test_key =
  tk_priv :: bytes
  tk_pub :: bytes
  tk_tag :: u16

fun rfc4034Loop :: "nat \<Rightarrow> u32 \<Rightarrow> bytes \<Rightarrow> u32" where
  "rfc4034Loop i ac [] = ac"
| "rfc4034Loop i ac (b # bs) =
     rfc4034Loop (i + 1) (if i mod 2 = 0 then ac + push_bit 8 (ucast b) else ac + ucast b) bs"

definition rfc4034KeyTag :: "u16 \<Rightarrow> byte \<Rightarrow> byte \<Rightarrow> bytes \<Rightarrow> u16" where
  "rfc4034KeyTag flags protocol algo key =
     (let ac = rfc4034Loop 0 0 (be16 flags @ [protocol, algo] @ key);
          ac2 = ac + (drop_bit 16 ac AND 0xffff)
      in ucast (ac2 AND 0xffff))"

definition newTestKey :: "keygen \<Rightarrow> test_key option" where
  "newTestKey g = map_option (\<lambda>(pub, priv).
     \<lparr>tk_priv = priv, tk_pub = pub, tk_tag = rfc4034KeyTag 257 3 15 pub\<rparr>) g"

definition dnskeyRR :: "dnslib \<Rightarrow> test_key \<Rightarrow> string \<Rightarrow> rr_header \<times> dnskey" where
  "dnskeyRR L k zone = (tz_hdr (tz_name L zone) TypeDNSKEY 3600,
     \<lparr>dk_flags = 257, dk_protocol = 3, dk_algorithm = 15, dk_publickey = b64_encode (tk_pub k)\<rparr>)"

definition dsRR :: "dnslib \<Rightarrow> crypto \<Rightarrow> test_key \<Rightarrow> string \<Rightarrow> dnskey \<Rightarrow> rr" where
  "dsRR L C k zone dk =
     (let keyRData = be16 (dk_flags dk) @ [dk_protocol dk, dk_algorithm dk] @ tk_pub k;
          dig = digest C SHA256 (raw (canonicalName L zone) @ keyRData)
      in \<lparr>rr_hdr = tz_hdr (tz_name L zone) TypeDS 3600,
          rr_data = DS_RR \<lparr>ds_keytag = tk_tag k, ds_algorithm = 15, ds_digesttype = 2, ds_digest = hex_encode dig\<rparr>\<rparr>)"

text \<open>
  The octets that \<^verbatim>\<open>signRRset\<close> signs, from the owner, type and TTL of the first record. Records
  whose data is nil count with no data, and repeated data is repeated.
\<close>

definition signed_octets :: "dnslib \<Rightarrow> u16 \<Rightarrow> string \<Rightarrow> rr list \<Rightarrow> rr_header \<Rightarrow> string \<Rightarrow> u32 \<Rightarrow> u32 \<Rightarrow> bytes" where
  "signed_octets L tag zone rrs h owner inc expi =
     (let labels = length (split_on CHR ''.'' (trim_suffix owner ''.''));
          hdr = be16 (h_rrtype h) @ [15, word_of_nat labels] @ be32 (h_ttl h) @ be32 expi @ be32 inc @ be16 tag;
          rdatas = sort (map (\<lambda>r. raw (rrData L r)) rrs)
      in hdr @ raw (canonicalName L zone)
         @ concat (map (\<lambda>rd. raw (canonicalName L owner) @ be16 (h_rrtype h) @ be16 ClassINET @ be32 (h_ttl h)
             @ be16 (word_of_nat (length rd)) @ rd) rdatas))"

text \<open>The clock is read twice; \<^term>\<open>None\<close> is the panic on an empty record set or on an empty signature.\<close>

definition signRRset :: "dnslib \<Rightarrow> (bytes \<Rightarrow> bytes \<Rightarrow> bytes) \<Rightarrow> test_key \<Rightarrow> int \<times> int \<Rightarrow> string \<Rightarrow> rr list \<Rightarrow> bool
    \<Rightarrow> (rr_header \<times> rrsig) option" where
  "signRRset L sign k clock zone rrs tamper =
     (case rrs of [] \<Rightarrow> None
      | r # _ \<Rightarrow>
        (let owner = fqdn L (rr_name r); rtype = rr_type r; ttl = rr_ttl r;
             labels = length (split_on CHR ''.'' (trim_suffix owner ''.''));
             inc = word_of_int (fst clock - 3600); exp = word_of_int (snd clock + 48 * 3600);
             sig0 = sign (tk_priv k) (signed_octets L (tk_tag k) zone rrs (rr_hdr r) owner inc exp)
         in case (if \<not> tamper then Some sig0 else case sig0 of [] \<Rightarrow> None | b # bs \<Rightarrow> Some ((b XOR 0xff) # bs)) of
              None \<Rightarrow> None
            | Some sig \<Rightarrow> Some (tz_hdr owner TypeRRSIG ttl,
                \<lparr>sg_typecovered = rtype, sg_algorithm = 15, sg_labels = word_of_nat labels, sg_origttl = ttl,
                 sg_expiration = exp, sg_inception = inc, sg_keytag = tk_tag k, sg_signername = tz_name L zone,
                 sg_signature = b64_encode sig\<rparr>)))"

definition sig_rr :: "rr_header \<times> rrsig \<Rightarrow> rr" where
  "sig_rr = (\<lambda>(h, s). \<lparr>rr_hdr = h, rr_data = RRSIG_RR s\<rparr>)"

definition UnsignedParentNSEC_zone :: "dnslib \<Rightarrow> int \<Rightarrow> zone option" where
  "UnsignedParentNSEC_zone L now =
     (let zone = ''unsignedparent.test.''; parent = ''test.'';
          nsecRR = \<lparr>rr_hdr = tz_hdr (tz_name L zone) TypeNSEC 3600,
                    rr_data = NSEC_RR (tz_name L zone) [TypeNS, TypeSOA, TypeRRSIG, TypeNSEC]\<rparr>;
          exp = word_of_int (now + 48 * 3600); inc = word_of_int (now - 3600);
          sig0 = signRR nsecRR TypeNSEC exp inc 257 15;
          sig = (case rr_data sig0 of
                   RRSIG_RR s \<Rightarrow> sig0\<lparr>rr_data := RRSIG_RR (s\<lparr>sg_signername := tz_name L parent\<rparr>)\<rparr>
                 | _ \<Rightarrow> sig0)
      in zone_literal zone False False
      [(zone,
        [Some (tz_soa L zone ''ns1.unsignedparent.test.'' ''admin.unsignedparent.test.'' 2024010101 7200 1800 1209600 3600 3600),
         Some (tz_ns L zone ''ns1.unsignedparent.test.'' 3600),
         tz_a L zone ''203.0.113.200'' 300,
         Some nsecRR, Some sig]),
       (''ns1.unsignedparent.test.'', [tz_a L ''ns1.unsignedparent.test.'' ''198.51.100.200'' 3600])])"

definition signedZone :: "dnslib \<Rightarrow> crypto \<Rightarrow> (bytes \<Rightarrow> bytes \<Rightarrow> bytes) \<Rightarrow> keygen \<Rightarrow> (nat \<Rightarrow> int) \<Rightarrow> bool \<Rightarrow> zone option" where
  "signedZone L C sign g clock tamper =
     (let zone = ''signed.test.'' in
      Option.bind (newTestKey g) (\<lambda>k.
      Option.bind (tz_a L zone ''93.184.216.34'' 300) (\<lambda>aRR.
       (let soaRR = tz_soa L zone ''ns1.signed.test.'' ''admin.signed.test.'' 2024010101 7200 1800 1209600 3600 3600;
            ns1 = tz_ns L zone ''ns1.signed.test.'' 3600;
            ns2 = tz_ns L zone ''ns2.signed.test.'' 3600;
            txtRR = tz_txt L zone ''v=spf1 -all'' 300;
            dk = dnskeyRR L k zone;
            dkRR = \<lparr>rr_hdr = fst dk, rr_data = DNSKEY_RR (snd dk)\<rparr>;
            dsrr = dsRR L C k zone (snd dk);
            nsecRR = \<lparr>rr_hdr = tz_hdr (tz_name L zone) TypeNSEC 3600,
                      rr_data = NSEC_RR (tz_name L zone)
                        [TypeA, TypeNS, TypeSOA, TypeTXT, TypeRRSIG, TypeNSEC, TypeDNSKEY]\<rparr>;
            sig = (\<lambda>i rrs t. map_option sig_rr (signRRset L sign k (clock (2 * i), clock (2 * i + 1)) zone rrs t))
        in zone_literal zone False False
          [(zone,
            [Some soaRR, Some ns1, Some ns2, Some aRR, Some txtRR, Some dkRR, Some dsrr, Some nsecRR,
             sig 0 [soaRR] False, sig 1 [ns1, ns2] False, sig 2 [aRR] tamper, sig 3 [txtRR] False,
             sig 4 [dkRR] False, sig 5 [nsecRR] False]),
           (''ns1.signed.test.'', [tz_a L ''ns1.signed.test.'' ''1.1.1.1'' 3600]),
           (''ns2.signed.test.'', [tz_a L ''ns2.signed.test.'' ''1.0.0.1'' 3600])]))))"

definition DNSSECSigned_zone :: "dnslib \<Rightarrow> crypto \<Rightarrow> (bytes \<Rightarrow> bytes \<Rightarrow> bytes) \<Rightarrow> keygen \<Rightarrow> (nat \<Rightarrow> int) \<Rightarrow> zone option" where
  "DNSSECSigned_zone L C sign g clock = signedZone L C sign g clock False"

definition DNSSECTampered_zone :: "dnslib \<Rightarrow> crypto \<Rightarrow> (bytes \<Rightarrow> bytes \<Rightarrow> bytes) \<Rightarrow> keygen \<Rightarrow> (nat \<Rightarrow> int) \<Rightarrow> zone option" where
  "DNSSECTampered_zone L C sign g clock = signedZone L C sign g clock True"

end
