(* ===== verification/GoSort.thy ===== *)
theory GoSort
  imports Prelude
begin

text \<open>
  Go's \<^verbatim>\<open>slices.SortStableFunc\<close> and \<^verbatim>\<open>sort.Slice\<close> take a three-way comparison. The
  contract both rely on is the locale \<open>go_order\<close>: the comparison is a total preorder
  whose sign flips when the arguments are swapped. Inside it, the stable sort is a sorted
  permutation that keeps the order of equivalent elements, and it is the only list that
  does; so the stable sort of the model is the result of any stable sort of the library.
\<close>

section \<open>The sort\<close>

fun insert_cmp :: "('a \<Rightarrow> 'a \<Rightarrow> int) \<Rightarrow> 'a \<Rightarrow> 'a list \<Rightarrow> 'a list" where
  "insert_cmp cmp x [] = [x]"
| "insert_cmp cmp x (y # ys) = (if cmp x y \<le> 0 then x # y # ys else y # insert_cmp cmp x ys)"

fun sort_stable :: "('a \<Rightarrow> 'a \<Rightarrow> int) \<Rightarrow> 'a list \<Rightarrow> 'a list" where
  "sort_stable cmp [] = []"
| "sort_stable cmp (x # xs) = insert_cmp cmp x (sort_stable cmp xs)"

definition sorted_cmp :: "('a \<Rightarrow> 'a \<Rightarrow> int) \<Rightarrow> 'a list \<Rightarrow> bool" where
  "sorted_cmp cmp xs \<longleftrightarrow> sorted_wrt (\<lambda>a b. cmp a b \<le> 0) xs"

lemma mset_insert_cmp [simp]: "mset (insert_cmp cmp x ys) = add_mset x (mset ys)"
  by (induction ys) auto

lemma mset_sort_stable [simp]: "mset (sort_stable cmp xs) = mset xs"
  by (induction xs) auto

lemma set_sort_stable [simp]: "set (sort_stable cmp xs) = set xs"
  by (metis mset_sort_stable set_mset_mset)

lemma length_sort_stable [simp]: "length (sort_stable cmp xs) = length xs"
  by (metis mset_sort_stable size_mset)

lemma sorted_cmp_simps [simp]:
  "sorted_cmp cmp []"
  "sorted_cmp cmp (x # xs) \<longleftrightarrow> (\<forall>y \<in> set xs. cmp x y \<le> 0) \<and> sorted_cmp cmp xs"
  by (simp_all add: sorted_cmp_def)

section \<open>The contract of a comparison\<close>

locale go_order =
  fixes cmp :: "'a \<Rightarrow> 'a \<Rightarrow> int"
  assumes flip: "sgn (cmp b a) = - sgn (cmp a b)"
    and trans_le: "cmp a b \<le> 0 \<Longrightarrow> cmp b c \<le> 0 \<Longrightarrow> cmp a c \<le> 0"
begin

lemma total: "cmp a b \<le> 0 \<or> cmp b a \<le> 0"
  using flip [of a b] by (auto simp: sgn_if split: if_splits)

lemma refl_cmp [simp]: "cmp a a = 0"
  using flip [of a a] by (auto simp: sgn_if split: if_splits)

lemma not_le_flip: "\<not> cmp a b \<le> 0 \<Longrightarrow> cmp b a < 0"
  using flip [of a b] by (auto simp: sgn_if split: if_splits)

lemma less_flip: "cmp a b < 0 \<longleftrightarrow> cmp b a > 0"
  using flip [of a b] by (auto simp: sgn_if split: if_splits)

lemma eq_flip: "cmp a b = 0 \<longleftrightarrow> cmp b a = 0"
  using flip [of a b] by (auto simp: sgn_if split: if_splits)

lemma eq_trans: "cmp a b = 0 \<Longrightarrow> cmp b c = 0 \<Longrightarrow> cmp a c = 0"
  using trans_le [of a b c] trans_le [of c b a] eq_flip [of a b] eq_flip [of b c] flip [of a c]
  by (auto simp: sgn_if split: if_splits)

lemma sorted_insert_cmp: "sorted_cmp cmp ys \<Longrightarrow> sorted_cmp cmp (insert_cmp cmp x ys)"
proof (induction ys)
  case (Cons y ys)
  have set_ins: "set (insert_cmp cmp x ys) = insert x (set ys)"
    by (metis mset_insert_cmp set_mset_add_mset_insert set_mset_mset)
  show ?case
  proof (cases "cmp x y \<le> 0")
    case True
    then show ?thesis using Cons.prems trans_le by auto
  next
    case False
    then have "cmp y x \<le> 0" using not_le_flip by fastforce
    then show ?thesis using Cons False set_ins by auto
  qed
qed simp

lemma sorted_sort_stable: "sorted_cmp cmp (sort_stable cmp xs)"
  by (induction xs) (auto simp: sorted_insert_cmp)

text \<open>Stability: the elements equivalent to any \<open>k\<close> keep their order.\<close>

lemma filter_insert_cmp:
  "sorted_cmp cmp ys \<Longrightarrow>
   filter (\<lambda>z. cmp k z = 0) (insert_cmp cmp x ys) =
     (if cmp k x = 0 then x # filter (\<lambda>z. cmp k z = 0) ys else filter (\<lambda>z. cmp k z = 0) ys)"
proof (induction ys)
  case (Cons y ys)
  show ?case
  proof (cases "cmp x y \<le> 0 \<or> cmp k x \<noteq> 0")
    case True
    then show ?thesis using Cons by auto
  next
    case False
    then have "cmp k y \<noteq> 0"
      using eq_trans [of x k y] eq_flip [of k x] by auto
    then show ?thesis using Cons False by auto
  qed
qed simp

lemma stable_sort_stable:
  "filter (\<lambda>z. cmp k z = 0) (sort_stable cmp xs) = filter (\<lambda>z. cmp k z = 0) xs"
  by (induction xs) (auto simp: filter_insert_cmp sorted_sort_stable)

lemma sort_stable_of_sorted: "sorted_cmp cmp xs \<Longrightarrow> sort_stable cmp xs = xs"
proof (induction xs)
  case (Cons x xs)
  then show ?case by (cases xs) auto
qed simp

lemma sorted_stable_unique:
  assumes "sorted_cmp cmp ys" and "sorted_cmp cmp zs"
    and "\<And>k. filter (\<lambda>z. cmp k z = 0) ys = filter (\<lambda>z. cmp k z = 0) zs"
  shows "ys = zs"
  using assms
proof (induction ys arbitrary: zs)
  case Nil
  have "zs = []"
  proof (cases zs)
    case (Cons z zs')
    then have "filter (\<lambda>x. cmp z x = 0) zs \<noteq> []" by simp
    then show ?thesis using Nil.prems(3) [of z] by simp
  qed simp
  then show ?case by simp
next
  case (Cons y ys)
  have "y \<in> set (filter (\<lambda>z. cmp y z = 0) (y # ys))" by simp
  then have "y \<in> set (filter (\<lambda>z. cmp y z = 0) zs)"
    by (simp only: Cons.prems(3))
  then obtain z zs' where zs: "zs = z # zs'" and "y \<in> set (z # zs')" by (cases zs) (auto split: if_splits)
  then have zy: "cmp z y \<le> 0" using Cons.prems(2) by auto
  have "z \<in> set (filter (\<lambda>x. cmp z x = 0) (z # zs'))" by simp
  then have "z \<in> set (filter (\<lambda>x. cmp z x = 0) (y # ys))"
    by (simp only: Cons.prems(3) zs)
  then have "cmp y z \<le> 0" using Cons.prems(1) by (auto split: if_splits)
  with zy have eq: "cmp y z = 0"
    using flip [of y z] by (auto simp: sgn_if split: if_splits)
  then have "y = z"
    using Cons.prems(3) [of y] zs by simp
  moreover have "ys = zs'"
  proof (rule Cons.IH)
    show "sorted_cmp cmp ys" "sorted_cmp cmp zs'"
      using Cons.prems zs by auto
    show "filter (\<lambda>z. cmp k z = 0) ys = filter (\<lambda>z. cmp k z = 0) zs'" for k
      using Cons.prems(3) [of k] zs \<open>y = z\<close> by (auto split: if_splits)
  qed
  ultimately show ?case using zs by simp
qed

text \<open>When equivalent elements are equal, the result depends on the multiset alone.\<close>

lemma sort_stable_perm:
  assumes anti: "\<And>a b. a \<in> set xs \<Longrightarrow> b \<in> set xs \<Longrightarrow> cmp a b = 0 \<Longrightarrow> a = b"
    and perm: "mset xs = mset ys"
  shows "sort_stable cmp xs = sort_stable cmp ys"
proof (rule sorted_stable_unique [OF sorted_sort_stable sorted_sort_stable])
  fix k
  have sets: "set xs = set ys" using perm by (metis set_mset_mset)
  let ?f = "filter (\<lambda>z. cmp k z = 0)"
  have "mset (?f xs) = mset (?f ys)" using perm by (metis mset_filter)
  moreover have "a = b" if "a \<in> set (?f xs)" "b \<in> set (?f xs)" for a b
    using that anti [of a b] eq_trans [of a k b] eq_flip [of k a] by auto
  ultimately have "?f xs = ?f ys"
    by (rule mset_eq_all_same)
  then show "?f (sort_stable cmp xs) = ?f (sort_stable cmp ys)"
    by (simp add: stable_sort_stable)
qed

end

section \<open>Comparison of ordered values\<close>

text \<open>\<^verbatim>\<open>cmp.Compare\<close> and \<^verbatim>\<open>strings.Compare\<close> on ordered values.\<close>

definition cmp_lin :: "'a::linorder \<Rightarrow> 'a \<Rightarrow> int" where
  "cmp_lin a b = (if a < b then - 1 else if b < a then 1 else 0)"

interpretation cmp_lin: go_order "cmp_lin :: 'a::linorder \<Rightarrow> 'a \<Rightarrow> int"
  by unfold_locales (auto simp: cmp_lin_def split: if_splits)

lemma cmp_lin_le [simp]: "cmp_lin a b \<le> 0 \<longleftrightarrow> a \<le> b"
  by (auto simp: cmp_lin_def)

lemma cmp_lin_eq [simp]: "cmp_lin a b = 0 \<longleftrightarrow> a = b"
  by (auto simp: cmp_lin_def)

text \<open>\<^verbatim>\<open>slices.Compare\<close>: the first differing elements decide, then the lengths.\<close>

fun slices_compare :: "'a::linorder list \<Rightarrow> 'a list \<Rightarrow> int" where
  "slices_compare [] [] = 0"
| "slices_compare [] (y # ys) = - 1"
| "slices_compare (x # xs) [] = 1"
| "slices_compare (x # xs) (y # ys) =
     (if cmp_lin x y \<noteq> 0 then cmp_lin x y else slices_compare xs ys)"

lemma slices_compare_lin: "slices_compare xs ys = cmp_lin xs ys"
  by (induction xs ys rule: slices_compare.induct) (auto simp: cmp_lin_def)

text \<open>\<^verbatim>\<open>cmp.Or\<close>: the first non-zero comparison, or zero.\<close>

fun cmp_or :: "int list \<Rightarrow> int" where
  "cmp_or [] = 0"
| "cmp_or (c # cs) = (if c \<noteq> 0 then c else cmp_or cs)"

lemma cmp_or_single: "cmp_or [c] = c"
  by simp

lemma cmp_or_more: "cmp_or (c # d # cs) = (if c \<noteq> 0 then c else cmp_or (d # cs))"
  by simp

text \<open>Comparing by one contract and then by another is a contract again.\<close>

lemma go_order_lex:
  assumes c1: "go_order c1" and c2: "go_order c2"
  shows "go_order (\<lambda>a b. if c1 a b \<noteq> 0 then c1 a b else c2 a b)"
proof (rule go_order.intro)
  fix a b
  show "sgn (if c1 b a \<noteq> 0 then c1 b a else c2 b a) = - sgn (if c1 a b \<noteq> 0 then c1 a b else c2 a b)"
    using go_order.flip [OF c1, where a = a and b = b] go_order.flip [OF c2, where a = a and b = b]
      go_order.eq_flip [OF c1, where a = a and b = b] by simp
next
  fix a b c
  assume ab: "(if c1 a b \<noteq> 0 then c1 a b else c2 a b) \<le> 0"
    and bc: "(if c1 b c \<noteq> 0 then c1 b c else c2 b c) \<le> 0"
  then have le: "c1 a b \<le> 0" "c1 b c \<le> 0" by (auto split: if_splits)
  then have ac: "c1 a c \<le> 0" by (rule go_order.trans_le [OF c1])
  show "(if c1 a c \<noteq> 0 then c1 a c else c2 a c) \<le> 0"
  proof (cases "c1 a c = 0")
    case True
    then have "c1 c a \<le> 0" using go_order.eq_flip [OF c1, of a c] by simp
    then have "c1 b a \<le> 0" "c1 c b \<le> 0"
      using le go_order.trans_le [OF c1] by blast+
    then have "c1 a b = 0" "c1 b c = 0"
      using le go_order.less_flip [OF c1, of a b] go_order.less_flip [OF c1, of b c] by auto
    then show ?thesis using ab bc True go_order.trans_le [OF c2] by auto
  next
    case False
    then show ?thesis using ac by simp
  qed
qed

text \<open>Comparing by a key, in ascending and in descending order.\<close>

lemma go_order_key: "go_order (\<lambda>a b. cmp_lin (f a) (f b))"
  by (rule go_order.intro) (auto intro: cmp_lin.flip cmp_lin.trans_le)

lemma go_order_key_desc: "go_order (\<lambda>a b. cmp_lin (f b) (f a))"
  by (rule go_order.intro) (auto intro: cmp_lin.flip cmp_lin.trans_le)

end
