(* ===== verification/Findings.thy ===== *)
theory Findings
  imports GoStrings GoSort
begin

text \<open>
  \<^verbatim>\<open>internal/findings/findings.go\<close>: severities, rules, findings, the order findings are
  reported in, and the tallies over a list of findings.
\<close>

section \<open>Severities\<close>

text \<open>
  A severity is a Go \<^verbatim>\<open>int\<close>; the constants are 1 to 6 and the zero value is invalid.
\<close>

type_synonym severity = int

definition SeverityPass :: severity where "SeverityPass = 1"
definition SeverityInfo :: severity where "SeverityInfo = 2"
definition SeverityLow :: severity where "SeverityLow = 3"
definition SeverityMedium :: severity where "SeverityMedium = 4"
definition SeverityHigh :: severity where "SeverityHigh = 5"
definition SeverityCritical :: severity where "SeverityCritical = 6"

lemmas severity_defs [go_simps] = SeverityPass_def SeverityInfo_def SeverityLow_def
  SeverityMedium_def SeverityHigh_def SeverityCritical_def

text \<open>The name table, in the order the source writes it.\<close>

definition severityNames :: "(severity \<times> string) list" where
  "severityNames =
     [(SeverityPass, ''pass''), (SeverityInfo, ''info''), (SeverityLow, ''low''),
      (SeverityMedium, ''medium''), (SeverityHigh, ''high''), (SeverityCritical, ''critical'')]"

definition Severities :: "severity list" where
  "Severities = [SeverityCritical, SeverityHigh, SeverityMedium, SeverityLow, SeverityInfo, SeverityPass]"

definition severityString :: "severity \<Rightarrow> string" where
  "severityString s = (case map_of severityNames s of
     Some n \<Rightarrow> n | None \<Rightarrow> ''Severity('' @ int_str s @ '')'')"

definition severityValid :: "severity \<Rightarrow> bool" where
  "severityValid s \<longleftrightarrow> map_of severityNames s \<noteq> None"

text \<open>
  \<^verbatim>\<open>ParseSeverity\<close> ranges over the table; at most one name can match, so the order does
  not matter. \<^term>\<open>None\<close> is the error.
\<close>

definition parseSeverity :: "string \<Rightarrow> severity option" where
  "parseSeverity name = map_option fst (find (\<lambda>(s, n). equal_fold n name) severityNames)"

section \<open>Categories, components, rules and findings\<close>

definition CategoryViolation :: string where "CategoryViolation = ''standard-violation''"
definition CategoryWeakness :: string where "CategoryWeakness = ''security-weakness''"
definition CategoryHardening :: string where "CategoryHardening = ''hardening''"
definition CategoryInformational :: string where "CategoryInformational = ''informational''"

definition ComponentDelegation :: string where "ComponentDelegation = ''delegation''"
definition ComponentAuthServer :: string where "ComponentAuthServer = ''authserver''"
definition ComponentSOA :: string where "ComponentSOA = ''soa''"
definition ComponentAXFR :: string where "ComponentAXFR = ''axfr''"
definition ComponentDNSSEC :: string where "ComponentDNSSEC = ''dnssec''"
definition ComponentTTL :: string where "ComponentTTL = ''ttl''"
definition ComponentCAA :: string where "ComponentCAA = ''caa''"
definition ComponentCNAME :: string where "ComponentCNAME = ''cname''"
definition ComponentAddress :: string where "ComponentAddress = ''address''"
definition ComponentWildcard :: string where "ComponentWildcard = ''wildcard''"
definition ComponentRecursion :: string where "ComponentRecursion = ''recursion''"
definition ComponentTransport :: string where "ComponentTransport = ''transport''"
definition ComponentGeneral :: string where "ComponentGeneral = ''general''"

record rule =
  r_id :: string
  r_component :: string
  r_category :: string
  r_severity :: severity
  r_title :: string
  r_recommendation :: string
  r_references :: "string list"

record finding =
  f_id :: string
  f_severity :: severity
  f_category :: string
  f_component :: string
  f_title :: string
  f_subject :: string
  f_description :: string
  f_evidence :: "string list"
  f_recommendation :: string
  f_references :: "string list"
  f_zone :: string

text \<open>\<^verbatim>\<open>Rule.New\<close>. The clones of the slices make the finding independent of the rule.\<close>

definition ruleNew :: "rule \<Rightarrow> string \<Rightarrow> string \<Rightarrow> string list \<Rightarrow> finding" where
  "ruleNew r subject description evidence =
     \<lparr>f_id = r_id r, f_severity = r_severity r, f_category = r_category r,
      f_component = r_component r, f_title = r_title r, f_subject = subject,
      f_description = description, f_evidence = evidence,
      f_recommendation = r_recommendation r, f_references = r_references r, f_zone = ''''\<rparr>"

definition findingWithSeverity :: "finding \<Rightarrow> severity \<Rightarrow> finding" where
  "findingWithSeverity f s = f\<lparr>f_severity := s\<rparr>"

definition ruleWithSeverity :: "rule \<Rightarrow> severity \<Rightarrow> rule" where
  "ruleWithSeverity r s = r\<lparr>r_severity := s\<rparr>"

definition withEvidence :: "finding \<Rightarrow> string list \<Rightarrow> finding" where
  "withEvidence f evidence = f\<lparr>f_evidence := f_evidence f @ evidence\<rparr>"

definition withZone :: "finding \<Rightarrow> string \<Rightarrow> finding" where
  "withZone f zone = f\<lparr>f_zone := zone\<rparr>"

lemma ruleNew_simps [simp]:
  "f_id (ruleNew r s d e) = r_id r" "f_severity (ruleNew r s d e) = r_severity r"
  "f_category (ruleNew r s d e) = r_category r" "f_component (ruleNew r s d e) = r_component r"
  "f_title (ruleNew r s d e) = r_title r" "f_subject (ruleNew r s d e) = s"
  "f_description (ruleNew r s d e) = d" "f_evidence (ruleNew r s d e) = e"
  "f_recommendation (ruleNew r s d e) = r_recommendation r"
  "f_references (ruleNew r s d e) = r_references r" "f_zone (ruleNew r s d e) = ''''"
  by (simp_all add: ruleNew_def)

lemma withZone_simps [simp]:
  "f_id (withZone f z) = f_id f" "f_severity (withZone f z) = f_severity f"
  "f_category (withZone f z) = f_category f" "f_component (withZone f z) = f_component f"
  "f_title (withZone f z) = f_title f" "f_subject (withZone f z) = f_subject f"
  "f_description (withZone f z) = f_description f" "f_evidence (withZone f z) = f_evidence f"
  "f_recommendation (withZone f z) = f_recommendation f"
  "f_references (withZone f z) = f_references f" "f_zone (withZone f z) = z"
  by (simp_all add: withZone_def)

lemma ruleWithSeverity_simps [simp]:
  "r_id (ruleWithSeverity r s) = r_id r" "r_severity (ruleWithSeverity r s) = s"
  "r_category (ruleWithSeverity r s) = r_category r" "r_component (ruleWithSeverity r s) = r_component r"
  "r_title (ruleWithSeverity r s) = r_title r"
  "r_recommendation (ruleWithSeverity r s) = r_recommendation r"
  "r_references (ruleWithSeverity r s) = r_references r"
  by (simp_all add: ruleWithSeverity_def)

section \<open>The report order\<close>

definition compareFinding :: "finding \<Rightarrow> finding \<Rightarrow> int" where
  "compareFinding a b = cmp_or
     [cmp_lin (f_severity b) (f_severity a),
      cmp_lin (f_id a) (f_id b),
      cmp_lin (f_subject a) (f_subject b),
      cmp_lin (f_description a) (f_description b),
      slices_compare (f_evidence a) (f_evidence b)]"

definition sortFindings :: "finding list \<Rightarrow> finding list" where
  "sortFindings fs = sort_stable compareFinding fs"

text \<open>The comparison is a chain of comparisons of keys, hence a lawful order.\<close>

lemma compareFinding_order: "go_order compareFinding"
  unfolding compareFinding_def cmp_or_single cmp_or_more slices_compare_lin
  by (intro go_order_lex go_order_key_desc go_order_key)

interpretation finding_order: go_order compareFinding
  by (rule compareFinding_order)

text \<open>What two findings equal in the report order share.\<close>

lemma compareFinding_eq_0:
  "compareFinding a b = 0 \<longleftrightarrow> f_severity a = f_severity b \<and> f_id a = f_id b \<and>
     f_subject a = f_subject b \<and> f_description a = f_description b \<and> f_evidence a = f_evidence b"
  by (auto simp: compareFinding_def slices_compare_lin)

lemma compareFinding_severity: "compareFinding a b \<le> 0 \<Longrightarrow> f_severity b \<le> f_severity a"
  by (auto simp: compareFinding_def cmp_lin_def split: if_splits)

section \<open>Tallies\<close>

fun maxSeverity :: "finding list \<Rightarrow> severity" where
  "maxSeverity fs = foldl (\<lambda>m f. max m (f_severity f)) 0 fs"

text \<open>\<^verbatim>\<open>Counts\<close>: every severity name starts at zero; an invalid severity adds its own key.\<close>

definition countsInit :: "string \<rightharpoonup> nat" where
  "countsInit = foldl (\<lambda>c (s, n). c(n \<mapsto> 0)) Map.empty severityNames"

definition countsStep :: "(string \<rightharpoonup> nat) \<Rightarrow> finding \<Rightarrow> (string \<rightharpoonup> nat)" where
  "countsStep c f = (let k = severityString (f_severity f) in
     c(k \<mapsto> (case c k of None \<Rightarrow> 0 | Some n \<Rightarrow> n) + 1))"

definition counts :: "finding list \<Rightarrow> (string \<rightharpoonup> nat)" where
  "counts fs = foldl countsStep countsInit fs"

definition atLeast :: "finding list \<Rightarrow> severity \<Rightarrow> finding list" where
  "atLeast fs threshold = filter (\<lambda>f. threshold \<le> f_severity f) fs"

section \<open>Lemmas\<close>

lemma severityValid_iff: "severityValid s \<longleftrightarrow> 1 \<le> s \<and> s \<le> 6"
  by (auto simp: severityValid_def severityNames_def severity_defs)

lemma severity_cases:
  assumes "severityValid s"
  obtains "s = SeverityPass" | "s = SeverityInfo" | "s = SeverityLow" | "s = SeverityMedium"
    | "s = SeverityHigh" | "s = SeverityCritical"
proof -
  have "s = 1 \<or> s = 2 \<or> s = 3 \<or> s = 4 \<or> s = 5 \<or> s = 6"
    using assms unfolding severityValid_iff by presburger
  then show ?thesis using that unfolding severity_defs by blast
qed

lemma severityString_simps [simp]:
  "severityString SeverityPass = ''pass''" "severityString SeverityInfo = ''info''"
  "severityString SeverityLow = ''low''" "severityString SeverityMedium = ''medium''"
  "severityString SeverityHigh = ''high''" "severityString SeverityCritical = ''critical''"
  by (simp_all add: severityString_def severityNames_def severity_defs)

lemma severityString_invalid:
  "\<not> severityValid s \<Longrightarrow> severityString s = ''Severity('' @ int_str s @ '')''"
  by (simp add: severityString_def severityValid_def)

lemma maxSeverity_foldl: "foldl (\<lambda>m f. max m (f_severity f)) k fs = Max (insert k (f_severity ` set fs))"
proof (induction fs arbitrary: k)
  case (Cons f fs)
  have "Max (insert (max k (f_severity f)) (f_severity ` set fs))
        = Max (insert k (insert (f_severity f) (f_severity ` set fs)))"
    by (cases "set fs = {}") (auto simp: max.assoc)
  then show ?case using Cons by simp
qed simp

lemma le_maxSeverity_iff: "0 < t \<Longrightarrow> t \<le> maxSeverity fs \<longleftrightarrow> (\<exists>f \<in> set fs. t \<le> f_severity f)"
  by (auto simp: maxSeverity_foldl Max_ge_iff)

section \<open>Subjects\<close>

text \<open>The subjects that the findings of one rule name.\<close>

definition subjects_of :: "rule \<Rightarrow> finding list \<Rightarrow> string set" where
  "subjects_of r fs = f_subject ` {f \<in> set fs. f_id f = r_id r}"

lemma subjects_of_simps [simp]:
  "subjects_of r [] = {}"
  "subjects_of r (f # fs) = (if f_id f = r_id r then insert (f_subject f) (subjects_of r fs) else subjects_of r fs)"
  "subjects_of r (fs @ gs) = subjects_of r fs \<union> subjects_of r gs"
  by (auto simp: subjects_of_def)

lemma subjects_of_concat: "subjects_of r (concat fss) = (\<Union>fs \<in> set fss. subjects_of r fs)"
  by (induction fss) auto

lemma subjects_of_map:
  "subjects_of r (map (\<lambda>h. withZone (ruleNew R h (d h) (e h)) z) hs) = (if r_id R = r_id r then set hs else {})"
  by (induction hs) auto

lemma subjects_of_ne: "subjects_of r fs \<noteq> {} \<longleftrightarrow> (\<exists>f \<in> set fs. f_id f = r_id r)"
  by (auto simp: subjects_of_def)

section \<open>The report order as a canonical form\<close>

text \<open>The fields of a finding that the report order looks at; the others are cleared.\<close>

definition report_view :: "finding \<Rightarrow> finding" where
  "report_view f = f\<lparr>f_category := '''', f_component := '''', f_title := '''', f_recommendation := '''',
     f_references := [], f_zone := ''''\<rparr>"

lemma compare_view [simp]: "compareFinding (report_view a) (report_view b) = compareFinding a b"
  by (simp add: compareFinding_def report_view_def)

lemma compare_view_eq: "compareFinding a b = 0 \<Longrightarrow> report_view a = report_view b"
  by (auto simp: compareFinding_eq_0 report_view_def intro: finding.equality)

lemma map_view_insert: "map report_view (insert_cmp compareFinding x ys) = insert_cmp compareFinding (report_view x) (map report_view ys)"
  by (induction ys) auto

lemma map_view_sort: "map report_view (sortFindings fs) = sortFindings (map report_view fs)"
  by (induction fs) (auto simp: sortFindings_def map_view_insert)

text \<open>
  C33. Sorting puts the findings in the report order (severity descending, then id, subject,
  description and evidence), loses and adds none, and gives the same report, in those five
  fields, for the findings in any order they were made.
\<close>

theorem sortFindings_canonical:
  "sorted_cmp compareFinding (sortFindings fs) \<and> mset (sortFindings fs) = mset fs \<and>
   (mset gs = mset fs \<longrightarrow> map report_view (sortFindings gs) = map report_view (sortFindings fs))"
proof -
  have "sortFindings (map report_view gs) = sortFindings (map report_view fs)" if "mset gs = mset fs"
    unfolding sortFindings_def
  proof (rule finding_order.sort_stable_perm)
    fix a b assume "a \<in> set (map report_view gs)" "b \<in> set (map report_view gs)" "compareFinding a b = 0"
    moreover from this obtain x y where "a = report_view x" "b = report_view y" by auto
    ultimately show "a = b" using compare_view_eq [of x y] by simp
  qed (use that in simp)
  then show ?thesis
    unfolding map_view_sort by (simp add: sortFindings_def finding_order.sorted_sort_stable)
qed

definition ex_finding :: "severity \<Rightarrow> string \<Rightarrow> finding" where
  "ex_finding s i = \<lparr>f_id = i, f_severity = s, f_category = '''', f_component = '''', f_title = '''',
     f_subject = '''', f_description = '''', f_evidence = [], f_recommendation = '''', f_references = [], f_zone = ''''\<rparr>"

theorem sortFindings_canonical_witness:
  "map report_view (sortFindings [ex_finding 2 ''a'', ex_finding 5 ''b''])
   = map report_view (sortFindings [ex_finding 5 ''b'', ex_finding 2 ''a''])"
  using sortFindings_canonical [of "[ex_finding 5 ''b'', ex_finding 2 ''a'']" "[ex_finding 2 ''a'', ex_finding 5 ''b'']"]
  by (simp add: add_mset_commute)

end
