(* ===== verification/Catalog.thy ===== *)
theory Catalog
  imports Findings
begin

text \<open>
  \<^verbatim>\<open>internal/findings/catalog.go\<close>: the catalog of rules. Every rule is a constant with the
  fields of its \<^verbatim>\<open>register\<close> call, in the order of the file; \<open>register\<close> is the function the
  package initialisation folds over them, with the panic on a repeated ID as its error.
\<close>

section \<open>References\<close>

definition RFC1035 :: string where "RFC1035 = ''https://www.rfc-editor.org/rfc/rfc1035''"
definition RFC1034 :: string where "RFC1034 = ''https://www.rfc-editor.org/rfc/rfc1034''"
definition RFC1918 :: string where "RFC1918 = ''https://www.rfc-editor.org/rfc/rfc1918''"
definition RFC1969 :: string where "RFC1969 = ''https://www.rfc-editor.org/rfc/rfc1969''"
definition RFC1982 :: string where "RFC1982 = ''https://www.rfc-editor.org/rfc/rfc1982''"
definition RFC1996 :: string where "RFC1996 = ''https://www.rfc-editor.org/rfc/rfc1996''"
definition RFC2181 :: string where "RFC2181 = ''https://www.rfc-editor.org/rfc/rfc2181''"
definition RFC2308 :: string where "RFC2308 = ''https://www.rfc-editor.org/rfc/rfc2308''"
definition RFC4034 :: string where "RFC4034 = ''https://www.rfc-editor.org/rfc/rfc4034''"
definition RFC4035 :: string where "RFC4035 = ''https://www.rfc-editor.org/rfc/rfc4035''"
definition RFC4592 :: string where "RFC4592 = ''https://www.rfc-editor.org/rfc/rfc4592''"
definition RFC5155 :: string where "RFC5155 = ''https://www.rfc-editor.org/rfc/rfc5155''"
definition RFC5936 :: string where "RFC5936 = ''https://www.rfc-editor.org/rfc/rfc5936''"
definition RFC5321 :: string where "RFC5321 = ''https://www.rfc-editor.org/rfc/rfc5321''"
definition RFC6762 :: string where "RFC6762 = ''https://www.rfc-editor.org/rfc/rfc6762''"
definition RFC6890 :: string where "RFC6890 = ''https://www.rfc-editor.org/rfc/rfc6890''"
definition RFC6891 :: string where "RFC6891 = ''https://www.rfc-editor.org/rfc/rfc6891''"
definition RFC7505 :: string where "RFC7505 = ''https://www.rfc-editor.org/rfc/rfc7505''"
definition RFC8020 :: string where "RFC8020 = ''https://www.rfc-editor.org/rfc/rfc8020''"
definition RFC8659 :: string where "RFC8659 = ''https://www.rfc-editor.org/rfc/rfc8659''"

section \<open>Reference URLs used across rules\<close>


section \<open>Delegation rules\<close>

definition DelegMissing :: rule where
  "DelegMissing = \<lparr>r_id = ''DNS-DELEGATION-001'', r_component = ComponentDelegation,
     r_category = CategoryWeakness, r_severity = SeverityHigh,
     r_title = ''No delegation '' @ [CHR 0xE2, CHR 0x80, CHR 0x94] @ '' parent cannot find the zone NS'',
     r_recommendation = ''Verify the parent zone's NS records for this zone. A missing delegation means resolvers cannot find the authoritative name servers.'',
     r_references = [RFC1035 @ ''#section-3.5.3'', RFC2181 @ ''#section-10.3'']\<rparr>"

definition DelegLame :: rule where
  "DelegLame = \<lparr>r_id = ''DNS-DELEGATION-002'', r_component = ComponentDelegation,
     r_category = CategoryWeakness, r_severity = SeverityHigh,
     r_title = ''Lame delegation '' @ [CHR 0xE2, CHR 0x80, CHR 0x94] @ '' the queried server does not claim authority'',
     r_recommendation = ''Ensure the child zone publishes the NS records named by the parent. A lame delegation forces every resolver to fall back to the parent.'',
     r_references = [RFC1035 @ ''#section-3.5.3'', RFC2181 @ ''#section-10.3'']\<rparr>"

definition DelegStaleGlue :: rule where
  "DelegStaleGlue = \<lparr>r_id = ''DNS-DELEGATION-003'', r_component = ComponentDelegation,
     r_category = CategoryViolation, r_severity = SeverityMedium,
     r_title = ''Glue A/AAAA records are stale or missing'',
     r_recommendation = ''Publish current A and AAAA glue for in-bailiwick NS hosts. Stale glue can cause the delegated zone to become unreachable.'',
     r_references = [RFC1035 @ ''#section-3.5.3'', RFC2181 @ ''#section-10.3'']\<rparr>"

definition DelegMissingGlue :: rule where
  "DelegMissingGlue = \<lparr>r_id = ''DNS-DELEGATION-004'', r_component = ComponentDelegation,
     r_category = CategoryViolation, r_severity = SeverityMedium,
     r_title = ''NS without glue for in-bailiwick name server'',
     r_recommendation = ''For a name server that is itself a subdomain of the delegated zone, publish A/AAAA glue records so resolvers can reach it.'',
     r_references = [RFC1035 @ ''#section-4.1.1'', RFC2181 @ ''#section-10.3'']\<rparr>"

definition DelegUnreachable :: rule where
  "DelegUnreachable = \<lparr>r_id = ''DNS-DELEGATION-005'', r_component = ComponentDelegation,
     r_category = CategoryWeakness, r_severity = SeverityMedium,
     r_title = ''Name server is unreachable'',
     r_recommendation = ''Ensure every NS host is reachable over UDP and TCP. An unreachable name server makes the zone intermittently unavailable.'',
     r_references = [RFC1035 @ ''#section-3.5.3'']\<rparr>"

definition DelegInconsistentNS :: rule where
  "DelegInconsistentNS = \<lparr>r_id = ''DNS-DELEGATION-006'', r_component = ComponentDelegation,
     r_category = CategoryViolation, r_severity = SeverityHigh,
     r_title = ''Parent and child name server sets do not match'',
     r_recommendation = ''Make the parent zone's NS records and the child zone's NS records agree. Mismatched sets cause intermittent lame delegations.'',
     r_references = [RFC1035 @ ''#section-3.5.3'', RFC2181 @ ''#section-10.3'']\<rparr>"

definition DelegNonAuthNS :: rule where
  "DelegNonAuthNS = \<lparr>r_id = ''DNS-DELEGATION-007'', r_component = ComponentDelegation,
     r_category = CategoryWeakness, r_severity = SeverityMedium,
     r_title = ''Name server is not authoritative for the zone'',
     r_recommendation = ''Point the delegation at servers that answer AA=1 for the zone. A non-authoritative NS host cannot serve the zone.'',
     r_references = [RFC1035 @ ''#section-3.5.3'']\<rparr>"

definition DelegInconsistentAnswer :: rule where
  "DelegInconsistentAnswer = \<lparr>r_id = ''DNS-DELEGATION-008'', r_component = ComponentDelegation,
     r_category = CategoryInformational, r_severity = SeverityLow,
     r_title = ''Inconsistent answer sets across name servers'',
     r_recommendation = ''Investigate why name servers return different records. Inconsistency often indicates misconfiguration or split-horizon DNS.'',
     r_references = [RFC1035 @ ''#section-3.5.3'']\<rparr>"

section \<open>Authoritative server rules\<close>

definition AuthUDPFail :: rule where
  "AuthUDPFail = \<lparr>r_id = ''DNS-AUTHSERVER-001'', r_component = ComponentAuthServer,
     r_category = CategoryWeakness, r_severity = SeverityHigh,
     r_title = ''Authoritative server not reachable over UDP'',
     r_recommendation = ''Ensure the authoritative server accepts UDP queries on port 53. UDP is required for normal DNS resolution.'',
     r_references = [RFC1035 @ ''#section-4.2'']\<rparr>"

definition AuthTCPFail :: rule where
  "AuthTCPFail = \<lparr>r_id = ''DNS-AUTHSERVER-002'', r_component = ComponentAuthServer,
     r_category = CategoryWeakness, r_severity = SeverityMedium,
     r_title = ''TCP fallback fails'',
     r_recommendation = ''Ensure the authoritative server accepts TCP connections on port 53. Responses larger than 512 octets require TCP.'',
     r_references = [RFC1035 @ ''#section-4.2.1'']\<rparr>"

definition AuthNoAA :: rule where
  "AuthNoAA = \<lparr>r_id = ''DNS-AUTHSERVER-003'', r_component = ComponentAuthServer,
     r_category = CategoryViolation, r_severity = SeverityHigh,
     r_title = ''AA flag not set on authoritative response'',
     r_recommendation = ''The authoritative server must set the AA flag for answers about its zone. A missing AA flag makes the response ambiguous.'',
     r_references = [RFC1035 @ ''#section-4.1.1'']\<rparr>"

definition AuthNoSOA :: rule where
  "AuthNoSOA = \<lparr>r_id = ''DNS-AUTHSERVER-004'', r_component = ComponentAuthServer,
     r_category = CategoryViolation, r_severity = SeverityMedium,
     r_title = ''SOA record not present in the response'',
     r_recommendation = ''Every authoritative answer, including denial of existence, must include the zone SOA in the authority section.'',
     r_references = [RFC1035 @ ''#section-3.3.2'', RFC1035 @ ''#section-4.1.1'']\<rparr>"

definition AuthNoNS :: rule where
  "AuthNoNS = \<lparr>r_id = ''DNS-AUTHSERVER-005'', r_component = ComponentAuthServer,
     r_category = CategoryViolation, r_severity = SeverityLow,
     r_title = ''NS records not present in the response'',
     r_recommendation = ''The zone apex answer should include the zone NS records. Missing NS records can confuse resolvers.'',
     r_references = [RFC1035 @ ''#section-3.5.3'']\<rparr>"

definition AuthNoEDNS :: rule where
  "AuthNoEDNS = \<lparr>r_id = ''DNS-AUTHSERVER-006'', r_component = ComponentAuthServer,
     r_category = CategoryHardening, r_severity = SeverityInfo,
     r_title = ''EDNS/DO not supported'',
     r_recommendation = ''Enable EDNS0 (and the DNSSEC OK bit) so DNSSEC responses are not truncated.'',
     r_references = [RFC6891]\<rparr>"

definition AuthInconsistent :: rule where
  "AuthInconsistent = \<lparr>r_id = ''DNS-AUTHSERVER-007'', r_component = ComponentAuthServer,
     r_category = CategoryWeakness, r_severity = SeverityMedium,
     r_title = ''Inconsistent responses across name servers'',
     r_recommendation = ''Investigate why name servers return different answers. Inconsistency often indicates misconfiguration or partial propagation.'',
     r_references = [RFC1035 @ ''#section-3.5.3'']\<rparr>"

section \<open>SOA rules\<close>

definition SOAInvalidMNAME :: rule where
  "SOAInvalidMNAME = \<lparr>r_id = ''DNS-SOA-001'', r_component = ComponentSOA,
     r_category = CategoryViolation, r_severity = SeverityMedium,
     r_title = ''Malformed SOA MNAME'',
     r_recommendation = ''The SOA MNAME (primary name server) must be a valid fully-qualified domain name.'',
     r_references = [RFC1035 @ ''#section-3.3.1'', RFC1035 @ ''#section-5.1'']\<rparr>"

definition SOAInvalidRNAME :: rule where
  "SOAInvalidRNAME = \<lparr>r_id = ''DNS-SOA-002'', r_component = ComponentSOA,
     r_category = CategoryViolation, r_severity = SeverityMedium,
     r_title = ''Malformed SOA RNAME'',
     r_recommendation = ''The SOA RNAME (responsible authority email) must be a valid fully-qualified domain name.'',
     r_references = [RFC1035 @ ''#section-3.3.1'', RFC1035 @ ''#section-5.1'']\<rparr>"

definition SOASerialFormat :: rule where
  "SOASerialFormat = \<lparr>r_id = ''DNS-SOA-003'', r_component = ComponentSOA,
     r_category = CategoryHardening, r_severity = SeverityLow,
     r_title = ''SOA serial format heuristic'',
     r_recommendation = ''Use a serial format such as YYYYMMDDnn or an incrementing counter so changes are detectable.'',
     r_references = [RFC1035 @ ''#section-3.3.1'']\<rparr>"

definition SOASchedule :: rule where
  "SOASchedule = \<lparr>r_id = ''DNS-SOA-004'', r_component = ComponentSOA,
     r_category = CategoryHardening, r_severity = SeverityLow,
     r_title = ''SOA refresh/retry/expire sanity'',
     r_recommendation = ''Choose refresh, retry and expire values that let secondary servers keep the zone fresh without excessive polling.'',
     r_references = [RFC1035 @ ''#section-3.3.1'']\<rparr>"

definition SOANegativeTTL :: rule where
  "SOANegativeTTL = \<lparr>r_id = ''DNS-SOA-005'', r_component = ComponentSOA,
     r_category = CategoryHardening, r_severity = SeverityInfo,
     r_title = ''Low negative-cache TTL'',
     r_recommendation = ''Raise the SOA minimum/TTL so that negative answers are not re-queried excessively.'',
     r_references = [RFC2308 @ ''#section-3'']\<rparr>"

section \<open>AXFR rules\<close>

definition AXFRAllowed :: rule where
  "AXFRAllowed = \<lparr>r_id = ''DNS-AXFR-001'', r_component = ComponentAXFR,
     r_category = CategoryWeakness, r_severity = SeverityCritical,
     r_title = ''Zone transfer allowed to arbitrary clients'',
     r_recommendation = ''Restrict AXFR to authorized secondary name servers only. Open zone transfers leak the full zone contents.'',
     r_references = [RFC1035 @ ''#section-5.3.2'']\<rparr>"

definition AXFRRefused :: rule where
  "AXFRRefused = \<lparr>r_id = ''DNS-AXFR-002'', r_component = ComponentAXFR,
     r_category = CategoryInformational, r_severity = SeverityPass,
     r_title = ''Zone transfer refused (good default)'',
     r_recommendation = '''',
     r_references = [RFC1035 @ ''#section-5.3.2'']\<rparr>"

definition AXFRFailed :: rule where
  "AXFRFailed = \<lparr>r_id = ''DNS-AXFR-003'', r_component = ComponentAXFR,
     r_category = CategoryInformational, r_severity = SeverityInfo,
     r_title = ''Zone transfer failed or errored'',
     r_recommendation = '''',
     r_references = [RFC1035 @ ''#section-5.3.2'']\<rparr>"

section \<open>DNSSEC rules\<close>

definition DNSSECNoDNSKEY :: rule where
  "DNSSECNoDNSKEY = \<lparr>r_id = ''DNS-DNSSEC-001'', r_component = ComponentDNSSEC,
     r_category = CategoryWeakness, r_severity = SeverityHigh,
     r_title = ''RRSIG present without DNSKEY'',
     r_recommendation = ''Publish DNSKEY records. Without DNSKEY, RRSIGs cannot be validated.'',
     r_references = [RFC4034 @ ''#section-2.1'', RFC4035 @ ''#section-2.4'']\<rparr>"

definition DNSSECNoRRSIG :: rule where
  "DNSSECNoRRSIG = \<lparr>r_id = ''DNS-DNSSEC-002'', r_component = ComponentDNSSEC,
     r_category = CategoryWeakness, r_severity = SeverityMedium,
     r_title = ''DNSKEY present without RRSIG'',
     r_recommendation = ''Sign the zone so DNSKEY records are covered by RRSIGs. Uncovered DNSKEY records cannot be validated.'',
     r_references = [RFC4034 @ ''#section-2.2'', RFC4035]\<rparr>"

definition DNSSECSignExpired :: rule where
  "DNSSECSignExpired = \<lparr>r_id = ''DNS-DNSSEC-003'', r_component = ComponentDNSSEC,
     r_category = CategoryWeakness, r_severity = SeverityHigh,
     r_title = ''Expired signature'',
     r_recommendation = ''Re-sign the zone before signatures expire. Expired signatures break validation.'',
     r_references = [RFC4035 @ ''#section-3.1.3.1'']\<rparr>"

definition DNSSECSignNotYet :: rule where
  "DNSSECSignNotYet = \<lparr>r_id = ''DNS-DNSSEC-004'', r_component = ComponentDNSSEC,
     r_category = CategoryWeakness, r_severity = SeverityMedium,
     r_title = ''Not-yet-valid signature'',
     r_recommendation = ''Ensure signature inception times are correct. A future inception time causes transient validation failures.'',
     r_references = [RFC4035 @ ''#section-3.1.3.1'']\<rparr>"

definition DNSSECDeprecatedAlgo :: rule where
  "DNSSECDeprecatedAlgo = \<lparr>r_id = ''DNS-DNSSEC-005'', r_component = ComponentDNSSEC,
     r_category = CategoryHardening, r_severity = SeverityLow,
     r_title = ''Deprecated DNSSEC algorithm'',
     r_recommendation = ''Prefer current algorithms such as RSASHA256 or ECDSAP256SHA256 over deprecated ones.'',
     r_references = [RFC8020]\<rparr>"

definition DNSSECBrokenChain :: rule where
  "DNSSECBrokenChain = \<lparr>r_id = ''DNS-DNSSEC-006'', r_component = ComponentDNSSEC,
     r_category = CategoryWeakness, r_severity = SeverityHigh,
     r_title = ''Broken chain of trust'',
     r_recommendation = ''Ensure the DS record at the delegation matches a DNSKEY in the child zone. A mismatch breaks validation.'',
     r_references = [RFC4034 @ ''#section-5.1'', RFC4035 @ ''#section-4.1'']\<rparr>"

definition DNSSECNoDS :: rule where
  "DNSSECNoDS = \<lparr>r_id = ''DNS-DNSSEC-007'', r_component = ComponentDNSSEC,
     r_category = CategoryHardening, r_severity = SeverityMedium,
     r_title = ''No DS record at the delegation'',
     r_recommendation = ''Publish a DS record at the parent to establish the chain of trust for a DNSSEC-signed child zone.'',
     r_references = [RFC4034 @ ''#section-5.1'']\<rparr>"

definition DNSSECNoNSEC :: rule where
  "DNSSECNoNSEC = \<lparr>r_id = ''DNS-DNSSEC-008'', r_component = ComponentDNSSEC,
     r_category = CategoryHardening, r_severity = SeverityLow,
     r_title = ''No NSEC/NSEC3 records'',
     r_recommendation = ''Enable NSEC or NSEC3 for authenticated denial of existence.'',
     r_references = [RFC4034 @ ''#section-3.4.1'', RFC5155 @ ''#section-4'']\<rparr>"

definition DNSSECMalformedNSEC3 :: rule where
  "DNSSECMalformedNSEC3 = \<lparr>r_id = ''DNS-DNSSEC-009'', r_component = ComponentDNSSEC,
     r_category = CategoryViolation, r_severity = SeverityMedium,
     r_title = ''Malformed NSEC3 parameters'',
     r_recommendation = ''Use valid NSEC3 hash type, flags, iterations and salt. Invalid parameters break authenticated denial of existence.'',
     r_references = [RFC5155 @ ''#section-2.1'']\<rparr>"

definition DNSSECInvalidSig :: rule where
  "DNSSECInvalidSig = \<lparr>r_id = ''DNS-DNSSEC-010'', r_component = ComponentDNSSEC,
     r_category = CategoryWeakness, r_severity = SeverityHigh,
     r_title = ''RRSIG failed cryptographic verification'',
     r_recommendation = ''Re-sign the zone. A signature that does not verify against the zone DNSKEY breaks validation for the covered RRset.'',
     r_references = [RFC4035 @ ''#section-5.3.2'', RFC4034 @ ''#section-3.1.8'']\<rparr>"

definition DNSSECValid :: rule where
  "DNSSECValid = \<lparr>r_id = ''DNS-DNSSEC-011'', r_component = ComponentDNSSEC,
     r_category = CategoryInformational, r_severity = SeverityPass,
     r_title = ''DNSSEC chain of trust and signatures validated'',
     r_recommendation = '''',
     r_references = [RFC4035 @ ''#section-5'', RFC4034 @ ''#section-5.1'']\<rparr>"

section \<open>TTL rules\<close>

definition TTLShort :: rule where
  "TTLShort = \<lparr>r_id = ''DNS-TTL-001'', r_component = ComponentTTL,
     r_category = CategoryInformational, r_severity = SeverityInfo,
     r_title = ''Low TTL'',
     r_recommendation = ''A low TTL increases query load and amplification surface. Raise it to a reasonable value unless fast changes are required.'',
     r_references = [RFC1035 @ ''#section-3.3.1'']\<rparr>"

definition TTLExtreme :: rule where
  "TTLExtreme = \<lparr>r_id = ''DNS-TTL-002'', r_component = ComponentTTL,
     r_category = CategoryHardening, r_severity = SeverityLow,
     r_title = ''Extreme TTL'',
     r_recommendation = ''A very high TTL delays propagation of legitimate changes. Keep TTLs within a reasonable range.'',
     r_references = [RFC1035 @ ''#section-3.3.1'']\<rparr>"

section \<open>CAA rules\<close>

definition CAAMalformed :: rule where
  "CAAMalformed = \<lparr>r_id = ''DNS-CAA-001'', r_component = ComponentCAA,
     r_category = CategoryViolation, r_severity = SeverityLow,
     r_title = ''Malformed CAA record'',
     r_recommendation = ''CAA records must follow RFC 8659 syntax: an issue or issuewild tag with a valid tag-value pair.'',
     r_references = [RFC8659]\<rparr>"

definition CAACriticalUnknown :: rule where
  "CAACriticalUnknown = \<lparr>r_id = ''DNS-CAA-002'', r_component = ComponentCAA,
     r_category = CategoryWeakness, r_severity = SeverityMedium,
     r_title = ''Unknown critical CAA property'',
     r_recommendation = ''A critical CAA tag with an unknown meaning is ignored by compliant issuers. Use only defined tags such as issue and issuewild.'',
     r_references = [RFC8659]\<rparr>"

section \<open>CNAME rules\<close>

definition CNAMELoop :: rule where
  "CNAMELoop = \<lparr>r_id = ''DNS-CNAME-001'', r_component = ComponentCNAME,
     r_category = CategoryViolation, r_severity = SeverityHigh,
     r_title = ''CNAME loop'',
     r_recommendation = ''Remove the CNAME loop. A loop prevents the name from resolving.'',
     r_references = [RFC1035 @ ''#section-3.6.2'', RFC1035 @ ''#section-5.1'']\<rparr>"

definition CNAMEChainLong :: rule where
  "CNAMEChainLong = \<lparr>r_id = ''DNS-CNAME-002'', r_component = ComponentCNAME,
     r_category = CategoryHardening, r_severity = SeverityMedium,
     r_title = ''Excessive CNAME chain'',
     r_recommendation = ''Shorten the CNAME chain. Long chains increase latency and risk of hitting the 10-CNAME limit.'',
     r_references = [RFC1035 @ ''#section-3.6.2'']\<rparr>"

definition CNAMECoexist :: rule where
  "CNAMECoexist = \<lparr>r_id = ''DNS-CNAME-003'', r_component = ComponentCNAME,
     r_category = CategoryViolation, r_severity = SeverityMedium,
     r_title = ''CNAME coexists with other records'',
     r_recommendation = ''A CNAME must be the only record for a name. Remove the other records or replace the CNAME with the appropriate record type.'',
     r_references = [RFC1035 @ ''#section-3.6.2'', RFC1035 @ ''#section-5.1'']\<rparr>"

definition CNAMEDangling :: rule where
  "CNAMEDangling = \<lparr>r_id = ''DNS-CNAME-004'', r_component = ComponentCNAME,
     r_category = CategoryWeakness, r_severity = SeverityHigh,
     r_title = ''Dangling CNAME target'',
     r_recommendation = ''Point the CNAME at a name that resolves. A dangling CNAME can be hijacked by whoever registers the target name.'',
     r_references = [RFC1035 @ ''#section-3.6.2'']\<rparr>"

section \<open>Address classification rules\<close>

definition AddrPrivate :: rule where
  "AddrPrivate = \<lparr>r_id = ''DNS-ADDRESS-001'', r_component = ComponentAddress,
     r_category = CategoryViolation, r_severity = SeverityMedium,
     r_title = ''Public record points to a private address'',
     r_recommendation = ''Public records should not resolve to RFC1918 addresses unless intended.'',
     r_references = [RFC1918, RFC6890]\<rparr>"

definition AddrLoopback :: rule where
  "AddrLoopback = \<lparr>r_id = ''DNS-ADDRESS-002'', r_component = ComponentAddress,
     r_category = CategoryViolation, r_severity = SeverityMedium,
     r_title = ''Public record points to a loopback address'',
     r_recommendation = ''Public records should not resolve to 127.0.0.0/8. Loopback addresses are only meaningful on the local host.'',
     r_references = [RFC6890]\<rparr>"

definition AddrLocal :: rule where
  "AddrLocal = \<lparr>r_id = ''DNS-ADDRESS-003'', r_component = ComponentAddress,
     r_category = CategoryViolation, r_severity = SeverityLow,
     r_title = ''Public record points to a link-local address'',
     r_recommendation = ''Public records should not resolve to link-local addresses (169.254.0.0/16, fe80::/10).'',
     r_references = [RFC6890]\<rparr>"

definition AddrReserved :: rule where
  "AddrReserved = \<lparr>r_id = ''DNS-ADDRESS-004'', r_component = ComponentAddress,
     r_category = CategoryViolation, r_severity = SeverityLow,
     r_title = ''Public record points to a reserved address'',
     r_recommendation = ''Public records should not resolve to reserved address ranges.'',
     r_references = [RFC6890]\<rparr>"

definition AddrDocumentation :: rule where
  "AddrDocumentation = \<lparr>r_id = ''DNS-ADDRESS-005'', r_component = ComponentAddress,
     r_category = CategoryViolation, r_severity = SeverityLow,
     r_title = ''Public record points to a documentation-range address'',
     r_recommendation = ''Public records should not resolve to documentation address ranges (192.0.2.0/24, 198.51.100.0/24, 203.0.113.0/24, 2001:db8::/32).'',
     r_references = [RFC6890]\<rparr>"

section \<open>Wildcard rules\<close>

definition WildcardPresent :: rule where
  "WildcardPresent = \<lparr>r_id = ''DNS-WILDCARD-001'', r_component = ComponentWildcard,
     r_category = CategoryInformational, r_severity = SeverityInfo,
     r_title = ''Wildcard DNS record present'',
     r_recommendation = ''A wildcard record answers for all undefined names in the zone. Ensure this is intended; wildcards can mask typosquatting and misconfiguration.'',
     r_references = [RFC1035 @ ''#section-3.3.3'']\<rparr>"

section \<open>Recursion rules\<close>

definition RecursionOpen :: rule where
  "RecursionOpen = \<lparr>r_id = ''DNS-RECURSION-001'', r_component = ComponentRecursion,
     r_category = CategoryWeakness, r_severity = SeverityHigh,
     r_title = ''Open recursion on an authoritative server'',
     r_recommendation = ''Disable open recursion on authoritative servers. Open resolvers can be abused for amplification attacks.'',
     r_references = [RFC2308 @ ''#section-5'']\<rparr>"

section \<open>Transport / general rules\<close>

definition TransportTimeout :: rule where
  "TransportTimeout = \<lparr>r_id = ''DNS-TRANSPORT-001'', r_component = ComponentTransport,
     r_category = CategoryInformational, r_severity = SeverityMedium,
     r_title = ''Query transport timeout'',
     r_recommendation = ''The query exceeded the configured timeout. Check the resolver and network path to the authoritative server.'',
     r_references = [RFC1035 @ ''#section-4.2'']\<rparr>"

definition GeneralError :: rule where
  "GeneralError = \<lparr>r_id = ''DNS-GENERAL-001'', r_component = ComponentGeneral,
     r_category = CategoryWeakness, r_severity = SeverityHigh,
     r_title = ''Initial resolution failed'',
     r_recommendation = ''The zone could not be resolved. Verify the zone name and the resolver configuration.'',
     r_references = [RFC1035]\<rparr>"

section \<open>Registration\<close>

text \<open>The package state: the map from ID to rule, and the panic message as the error.\<close>

type_synonym catalog = "(string \<times> rule) list"

definition register :: "catalog \<Rightarrow> rule \<Rightarrow> string + catalog" where
  "register cat r =
     (case map_of cat (r_id r) of
        Some _ \<Rightarrow> Inl (''findings: duplicate rule ID '' @ r_id r)
      | None \<Rightarrow> Inr (put (r_id r) r cat))"

fun registerAll :: "catalog \<Rightarrow> rule list \<Rightarrow> string + catalog" where
  "registerAll cat [] = Inr cat"
| "registerAll cat (r # rs) =
     (case register cat r of Inl e \<Rightarrow> Inl e | Inr cat' \<Rightarrow> registerAll cat' rs)"

definition lookupRule :: "catalog \<Rightarrow> string \<Rightarrow> rule option" where
  "lookupRule cat i = map_of cat i"

definition sortedRules :: "catalog \<Rightarrow> rule list" where
  "sortedRules cat = sort_stable (\<lambda>a b. cmp_lin (r_id a) (r_id b)) (map snd cat)"

text \<open>The rules in the order their variables are initialised.\<close>

definition catalogRules :: "rule list" where
  "catalogRules =
     [DelegMissing, DelegLame, DelegStaleGlue, DelegMissingGlue,
      DelegUnreachable, DelegInconsistentNS, DelegNonAuthNS, DelegInconsistentAnswer,
      AuthUDPFail, AuthTCPFail, AuthNoAA, AuthNoSOA,
      AuthNoNS, AuthNoEDNS, AuthInconsistent, SOAInvalidMNAME,
      SOAInvalidRNAME, SOASerialFormat, SOASchedule, SOANegativeTTL,
      AXFRAllowed, AXFRRefused, AXFRFailed, DNSSECNoDNSKEY,
      DNSSECNoRRSIG, DNSSECSignExpired, DNSSECSignNotYet, DNSSECDeprecatedAlgo,
      DNSSECBrokenChain, DNSSECNoDS, DNSSECNoNSEC, DNSSECMalformedNSEC3,
      DNSSECInvalidSig, DNSSECValid, TTLShort, TTLExtreme,
      CAAMalformed, CAACriticalUnknown, CNAMELoop, CNAMEChainLong,
      CNAMECoexist, CNAMEDangling, AddrPrivate, AddrLoopback,
      AddrLocal, AddrReserved, AddrDocumentation, WildcardPresent,
      RecursionOpen, TransportTimeout, GeneralError]"

section \<open>Lemmas\<close>

lemmas rule_defs =
  DelegMissing_def DelegLame_def DelegStaleGlue_def DelegMissingGlue_def DelegUnreachable_def
  DelegInconsistentNS_def DelegNonAuthNS_def DelegInconsistentAnswer_def AuthUDPFail_def AuthTCPFail_def
  AuthNoAA_def AuthNoSOA_def AuthNoNS_def AuthNoEDNS_def AuthInconsistent_def
  SOAInvalidMNAME_def SOAInvalidRNAME_def SOASerialFormat_def SOASchedule_def SOANegativeTTL_def
  AXFRAllowed_def AXFRRefused_def AXFRFailed_def DNSSECNoDNSKEY_def DNSSECNoRRSIG_def
  DNSSECSignExpired_def DNSSECSignNotYet_def DNSSECDeprecatedAlgo_def DNSSECBrokenChain_def DNSSECNoDS_def
  DNSSECNoNSEC_def DNSSECMalformedNSEC3_def DNSSECInvalidSig_def DNSSECValid_def TTLShort_def
  TTLExtreme_def CAAMalformed_def CAACriticalUnknown_def CNAMELoop_def CNAMEChainLong_def
  CNAMECoexist_def CNAMEDangling_def AddrPrivate_def AddrLoopback_def AddrLocal_def
  AddrReserved_def AddrDocumentation_def WildcardPresent_def RecursionOpen_def TransportTimeout_def
  GeneralError_def

lemma distinct_ids: "distinct (map r_id catalogRules)"
  by (simp add: catalogRules_def rule_defs)

lemma in_catalog [simp]:
  "DelegMissing \<in> set catalogRules" "DelegLame \<in> set catalogRules"
  "DelegStaleGlue \<in> set catalogRules" "DelegMissingGlue \<in> set catalogRules"
  "DelegUnreachable \<in> set catalogRules" "DelegInconsistentNS \<in> set catalogRules"
  "DelegNonAuthNS \<in> set catalogRules" "DelegInconsistentAnswer \<in> set catalogRules"
  "AuthUDPFail \<in> set catalogRules" "AuthTCPFail \<in> set catalogRules"
  "AuthNoAA \<in> set catalogRules" "AuthNoSOA \<in> set catalogRules"
  "AuthNoNS \<in> set catalogRules" "AuthNoEDNS \<in> set catalogRules"
  "AuthInconsistent \<in> set catalogRules" "SOAInvalidMNAME \<in> set catalogRules"
  "SOAInvalidRNAME \<in> set catalogRules" "SOASerialFormat \<in> set catalogRules"
  "SOASchedule \<in> set catalogRules" "SOANegativeTTL \<in> set catalogRules"
  "AXFRAllowed \<in> set catalogRules" "AXFRRefused \<in> set catalogRules"
  "AXFRFailed \<in> set catalogRules" "DNSSECNoDNSKEY \<in> set catalogRules"
  "DNSSECNoRRSIG \<in> set catalogRules" "DNSSECSignExpired \<in> set catalogRules"
  "DNSSECSignNotYet \<in> set catalogRules" "DNSSECDeprecatedAlgo \<in> set catalogRules"
  "DNSSECBrokenChain \<in> set catalogRules" "DNSSECNoDS \<in> set catalogRules"
  "DNSSECNoNSEC \<in> set catalogRules" "DNSSECMalformedNSEC3 \<in> set catalogRules"
  "DNSSECInvalidSig \<in> set catalogRules" "DNSSECValid \<in> set catalogRules"
  "TTLShort \<in> set catalogRules" "TTLExtreme \<in> set catalogRules"
  "CAAMalformed \<in> set catalogRules" "CAACriticalUnknown \<in> set catalogRules"
  "CNAMELoop \<in> set catalogRules" "CNAMEChainLong \<in> set catalogRules"
  "CNAMECoexist \<in> set catalogRules" "CNAMEDangling \<in> set catalogRules"
  "AddrPrivate \<in> set catalogRules" "AddrLoopback \<in> set catalogRules"
  "AddrLocal \<in> set catalogRules" "AddrReserved \<in> set catalogRules"
  "AddrDocumentation \<in> set catalogRules" "WildcardPresent \<in> set catalogRules"
  "RecursionOpen \<in> set catalogRules" "TransportTimeout \<in> set catalogRules"
  "GeneralError \<in> set catalogRules"
  by (simp_all add: catalogRules_def)

lemma put_new: "map_of m k = None \<Longrightarrow> put k v m = m @ [(k, v)]"
  by (induction k v m rule: put.induct) (auto split: if_splits)

lemma map_of_new: "i \<notin> r_id ` set rs \<Longrightarrow> map_of (map (\<lambda>r. (r_id r, r)) rs) i = None"
  by (induction rs) auto

text \<open>Registration keeps the rules in order, and fails exactly on a repeated ID.\<close>

lemma registerAll_distinct:
  "distinct (map r_id (as @ rs)) \<Longrightarrow>
   registerAll (map (\<lambda>r. (r_id r, r)) as) rs = Inr (map (\<lambda>r. (r_id r, r)) (as @ rs))"
proof (induction rs arbitrary: as)
  case (Cons r rs)
  have "register (map (\<lambda>r. (r_id r, r)) as) r = Inr (map (\<lambda>r. (r_id r, r)) (as @ [r]))"
    using Cons.prems by (auto simp: register_def map_of_new put_new)
  moreover have "registerAll (map (\<lambda>r. (r_id r, r)) (as @ [r])) rs
      = Inr (map (\<lambda>r. (r_id r, r)) ((as @ [r]) @ rs))"
    using Cons.prems by (intro Cons.IH) simp
  ultimately show ?case by simp
qed simp

lemma registerAll_repeated:
  assumes "registerAll cat rs = Inr cat'"
  shows "distinct (map r_id rs) \<and> r_id ` set rs \<inter> fst ` set cat = {}"
  using assms
proof (induction rs arbitrary: cat)
  case (Cons r rs)
  then have new: "map_of cat (r_id r) = None" and rest: "registerAll (put (r_id r) r cat) rs = Inr cat'"
    by (auto simp: register_def split: option.splits)
  show ?case
    using Cons.IH [OF rest] new by (auto simp: fst_set_put map_of_eq_None_iff)
qed simp

section \<open>Well-formed findings\<close>

text \<open>
  A finding is well-formed when its severity is defined and everything a rule fixes comes
  from one rule of the catalog. Every check of the program promises well-formed findings:
  that is the interface \<open>checker\<close>, which each check's theory interprets.
\<close>

definition from_rule :: "rule \<Rightarrow> finding \<Rightarrow> bool" where
  "from_rule r f \<longleftrightarrow> f_id f = r_id r \<and> f_component f = r_component r \<and> f_category f = r_category r \<and>
     f_title f = r_title r \<and> f_recommendation f = r_recommendation r \<and> f_references f = r_references r"

definition wf_finding :: "finding \<Rightarrow> bool" where
  "wf_finding f \<longleftrightarrow> severityValid (f_severity f) \<and> (\<exists>r \<in> set catalogRules. from_rule r f)"

lemma catalog_severity: "r \<in> set catalogRules \<Longrightarrow> severityValid (r_severity r)"
  by (auto simp: catalogRules_def rule_defs severityValid_iff severity_defs)

lemma wf_ruleNew [simp, wf_intros]: "r \<in> set catalogRules \<Longrightarrow> wf_finding (ruleNew r s d e)"
  by (auto simp: wf_finding_def from_rule_def catalog_severity)

lemma wf_withZone [simp, wf_intros]: "wf_finding (withZone f z) = wf_finding f"
  by (simp add: wf_finding_def from_rule_def)

lemma wf_ruleWithSeverity [simp, wf_intros]:
  "r \<in> set catalogRules \<Longrightarrow> severityValid v \<Longrightarrow> wf_finding (ruleNew (ruleWithSeverity r v) s d e)"
  by (auto simp: wf_finding_def from_rule_def)

lemma wf_zone_update [simp]: "wf_finding (f\<lparr>f_zone := z\<rparr>) = wf_finding f"
  by (simp add: wf_finding_def from_rule_def)

lemma wf_subject_update [simp]: "wf_finding (f\<lparr>f_subject := z\<rparr>) = wf_finding f"
  by (simp add: wf_finding_def from_rule_def)

lemma severityValid_consts [simp]:
  "severityValid SeverityPass" "severityValid SeverityInfo" "severityValid SeverityLow"
  "severityValid SeverityMedium" "severityValid SeverityHigh" "severityValid SeverityCritical"
  by (simp_all add: severityValid_iff severity_defs)

locale checker =
  fixes chk :: "'a \<Rightarrow> finding list"
  assumes wf: "f \<in> set (chk x) \<Longrightarrow> wf_finding f"
begin

lemma known_rule: "f \<in> set (chk x) \<Longrightarrow> \<exists>r \<in> set catalogRules. from_rule r f"
  using wf by (auto simp: wf_finding_def)

lemma valid_severity: "f \<in> set (chk x) \<Longrightarrow> severityValid (f_severity f)"
  using wf by (auto simp: wf_finding_def)

lemma all_wf: "list_all wf_finding (chk x)"
  using wf by (auto simp: list_all_iff)

end

lemma catalog_registered: "registerAll [] catalogRules = Inr (map (\<lambda>r. (r_id r, r)) catalogRules)"
  using registerAll_distinct [of "[]" catalogRules] distinct_ids by simp

lemma rule_order: "go_order (\<lambda>a b. cmp_lin (r_id a) (r_id b))"
  by (rule go_order_key)

text \<open>
  C38. Starting the program never panics on a repeated rule: every registration succeeds, every rule
  is then found under its id and nothing else is, and the listing holds each rule once in
  ascending order of the ids.
\<close>

theorem catalog_start:
  "\<exists>cat. registerAll [] catalogRules = Inr cat \<and>
     (\<forall>i r. lookupRule cat i = Some r \<longleftrightarrow> r \<in> set catalogRules \<and> r_id r = i) \<and>
     mset (sortedRules cat) = mset catalogRules \<and>
     sorted (map r_id (sortedRules cat)) \<and> distinct (map r_id (sortedRules cat))"
proof (intro exI conjI allI)
  let ?cat = "map (\<lambda>r. (r_id r, r)) catalogRules"
  have d: "distinct (map fst ?cat)" using distinct_ids by (simp add: o_def)
  show "registerAll [] catalogRules = Inr ?cat" by (rule catalog_registered)
  show "lookupRule ?cat i = Some r \<longleftrightarrow> r \<in> set catalogRules \<and> r_id r = i" for i r
    unfolding lookupRule_def map_of_eq_Some_iff [OF d] by auto
  show m: "mset (sortedRules ?cat) = mset catalogRules" by (simp add: sortedRules_def o_def)
  have "sorted_cmp (\<lambda>a b. cmp_lin (r_id a) (r_id b)) (sortedRules ?cat)"
    unfolding sortedRules_def by (rule go_order.sorted_sort_stable [OF rule_order])
  then show "sorted (map r_id (sortedRules ?cat))" by (simp add: sorted_cmp_def sorted_map)
  show "distinct (map r_id (sortedRules ?cat))"
    using distinct_ids m by (metis mset_eq_imp_distinct_iff mset_map)
qed

end
