(* ===== verification/DnssecChain.thy ===== *)
theory DnssecChain
  imports DnssecParse Catalog
begin

text \<open>
  \<^verbatim>\<open>internal/dnssec/chain.go\<close> and \<^verbatim>\<open>check.go\<close>: the DNSSEC records of a response by name, the
  chain from a DS to a DNSKEY, the octets an RRSIG signs, and the DNSSEC findings of a zone. The
  maps that the source ranges over are association lists in the order of one range loop.
\<close>

section \<open>Collecting\<close>

record zone_keys =
  zk_keys :: "(string \<times> key_info list) list"
  zk_sigs :: "(string \<times> rrsig_info list) list"
  zk_dss :: "(string \<times> ds_info list) list"
  zk_bytype :: "string \<Rightarrow> u16 \<Rightarrow> rr list"

definition empty_keys :: zone_keys where
  "empty_keys = \<lparr>zk_keys = [], zk_sigs = [], zk_dss = [], zk_bytype = (\<lambda>_ _. [])\<rparr>"

definition ownerName :: "dnslib \<Rightarrow> string \<Rightarrow> string" where
  "ownerName L n = fqdn L (to_lower n)"

definition collectRR :: "dnslib \<Rightarrow> crypto \<Rightarrow> rr option \<Rightarrow> zone_keys \<Rightarrow> zone_keys" where
  "collectRR L C x zk =
     (case x of None \<Rightarrow> zk
      | Some r \<Rightarrow>
        (let name = ownerName L (rr_name r);
             zk1 = zk\<lparr>zk_bytype := (zk_bytype zk)(name := (zk_bytype zk name)
                       (rr_type r := zk_bytype zk name (rr_type r) @ [r]))\<rparr>
         in case rr_data r of
              DNSKEY_RR k \<Rightarrow> (case parseDNSKEY C k of Inl _ \<Rightarrow> zk1
                 | Inr ki \<Rightarrow> zk1\<lparr>zk_keys := add_to name ki (zk_keys zk1)\<rparr>)
            | RRSIG_RR s \<Rightarrow> zk1\<lparr>zk_sigs := add_to name (parseRRSIG L s) (zk_sigs zk1)\<rparr>
            | DS_RR d \<Rightarrow> zk1\<lparr>zk_dss := add_to name (parseDS d) (zk_dss zk1)\<rparr>
            | _ \<Rightarrow> zk1))"

definition collect :: "dnslib \<Rightarrow> crypto \<Rightarrow> msg \<Rightarrow> zone_keys" where
  "collect L C resp = fold (collectRR L C) (m_answer resp @ m_ns resp) empty_keys"

definition hasDNSKEY :: "zone_keys \<Rightarrow> bool" where
  "hasDNSKEY z \<longleftrightarrow> 0 < length (zk_keys z)"

definition hasRRSIG :: "zone_keys \<Rightarrow> bool" where
  "hasRRSIG z \<longleftrightarrow> 0 < length (zk_sigs z)"

definition hasDS :: "zone_keys \<Rightarrow> bool" where
  "hasDS z \<longleftrightarrow> 0 < length (zk_dss z)"

section \<open>The chain of trust\<close>

definition mergeKeys :: "(string \<times> key_info list) list \<Rightarrow> key_info list" where
  "mergeKeys m = concat (map snd m)"

definition mergeSigs :: "(string \<times> rrsig_info list) list \<Rightarrow> rrsig_info list" where
  "mergeSigs m = concat (map snd m)"

text \<open>
  The two loops over the DS map: a name that has keys, else any name. Where several qualify the
  choice depends on the order; one order stands for both loops.
\<close>

definition apexName :: "zone_keys \<Rightarrow> string" where
  "apexName z = (case find (\<lambda>n. n \<in> fst ` set (zk_keys z)) (map fst (zk_dss z)) of
      Some n \<Rightarrow> n
    | None \<Rightarrow> (case map fst (zk_dss z) of n # _ \<Rightarrow> n | [] \<Rightarrow> ''''))"

definition dsMatchesKey :: "dnslib \<Rightarrow> crypto \<Rightarrow> string \<Rightarrow> ds_info \<Rightarrow> key_info \<Rightarrow> bool" where
  "dsMatchesKey L C apex d k =
     (case computeDSDigest L C (di_digesttype d) apex (dnskeyRData k) of
        Inl _ \<Rightarrow> False | Inr dg \<Rightarrow> dg = di_digest d)"

definition verifyDSMatchesDNSKEY :: "dnslib \<Rightarrow> crypto \<Rightarrow> zone_keys \<Rightarrow> zone_keys \<Rightarrow> bool" where
  "verifyDSMatchesDNSKEY L C anchor zone =
     (let apex = apexName zone; dsSet = slot (zk_dss anchor) apex; keys = slot (zk_keys zone) apex in
      if length dsSet = 0 then False
      else if length keys = 0 then False
      else list_ex (\<lambda>d. list_ex (dsMatchesKey L C apex d) keys) dsSet)"

record chain_result =
  cr_valid :: bool
  cr_brokenAt :: string
  cr_reason :: string
  cr_keys :: "key_info list"
  cr_sigs :: "rrsig_info list"
  cr_dsMatches :: bool
  cr_expired :: "nat list"
  cr_notYet :: "nat list"
  cr_deprecated :: "nat list"

definition chainSig :: "int \<Rightarrow> nat \<times> rrsig_info \<Rightarrow> chain_result \<Rightarrow> chain_result" where
  "chainSig now = (\<lambda>(i, sig) res.
     let r1 = (if signatureExpired now sig then res\<lparr>cr_expired := cr_expired res @ [i], cr_valid := False\<rparr> else res);
         r2 = (if signatureNotYetValid now sig then r1\<lparr>cr_notYet := cr_notYet r1 @ [i], cr_valid := False\<rparr> else r1)
     in if si_algorithm sig \<in> deprecatedAlgorithms then r2\<lparr>cr_deprecated := cr_deprecated r2 @ [i]\<rparr> else r2)"

definition validateChain :: "dnslib \<Rightarrow> crypto \<Rightarrow> zone_keys \<Rightarrow> zone_keys \<Rightarrow> int \<Rightarrow> chain_result" where
  "validateChain L C anchor zoneKeys now =
     (let sigs = mergeSigs (zk_sigs zoneKeys);
          r0 = \<lparr>cr_valid = True, cr_brokenAt = '''', cr_reason = '''',
                cr_keys = mergeKeys (zk_keys zoneKeys), cr_sigs = sigs,
                cr_dsMatches = verifyDSMatchesDNSKEY L C anchor zoneKeys,
                cr_expired = [], cr_notYet = [], cr_deprecated = []\<rparr>;
          r = fold (chainSig now) (enumerate 0 sigs) r0
      in if \<not> cr_dsMatches r \<and> hasDS zoneKeys \<and> hasDS anchor
         then r\<lparr>cr_valid := False, cr_reason := ''DS does not match any DNSKEY in zone'',
                cr_brokenAt := ''parent DS / zone DNSKEY''\<rparr>
         else r)"

section \<open>Signed data\<close>

definition countLabels :: "dnslib \<Rightarrow> string \<Rightarrow> nat" where
  "countLabels L n = (let n' = trim_suffix (fqdn L n) ''.'' in
     if n' = '''' then 0 else length (split_on CHR ''.'' n'))"

definition lastLabels :: "dnslib \<Rightarrow> string \<Rightarrow> nat \<Rightarrow> string list" where
  "lastLabels L name n = (let labels = split_on CHR ''.'' (trim_suffix (fqdn L name) ''.'');
       k = (if length labels < n then length labels else n)
     in drop (length labels - k) labels)"

definition signedOwner :: "dnslib \<Rightarrow> rrsig_info \<Rightarrow> string \<Rightarrow> string" where
  "signedOwner L sig owner =
     (if unat (si_labels sig) < countLabels L owner
      then ''*.'' @ join ''.'' (lastLabels L owner (unat (si_labels sig))) @ ''.'' else owner)"

text \<open>
  The canonical RRset: each RDATA once, sorted. The sort of the source is not stable, which
  makes no difference on entries that all differ.
\<close>

definition canonRRset :: "dnslib \<Rightarrow> rr list \<Rightarrow> bytes list" where
  "canonRRset L rrs = sort (dedup_on (\<lambda>rd. rd) [] (List.map_filter (rrData L) rrs))"

definition signedRecord :: "bytes \<Rightarrow> rrsig_info \<Rightarrow> bytes \<Rightarrow> bytes" where
  "signedRecord ownerWire sig rd = ownerWire @ be16 (si_typecovered sig) @ be16 ClassINET
     @ be32 (si_origttl sig) @ be16 (word_of_nat (length rd)) @ rd"

definition signedData :: "dnslib \<Rightarrow> rrsig_info \<Rightarrow> string \<Rightarrow> rr list \<Rightarrow> bytes" where
  "signedData L sig owner0 rrs =
     (let owner = signedOwner L sig owner0 in
      si_rdata sig @ concat (map (signedRecord (raw (canonicalName L owner)) sig) (canonRRset L rrs)))"

definition keyForKeyTag :: "zone_keys \<Rightarrow> u16 \<Rightarrow> key_info option" where
  "keyForKeyTag zk tag = find (\<lambda>k. ki_tag k = tag) (concat (map snd (zk_keys zk)))"

definition hasKeyForTag :: "zone_keys \<Rightarrow> u16 \<Rightarrow> bool" where
  "hasKeyForTag z tag \<longleftrightarrow> keyForKeyTag z tag \<noteq> None"

definition sigFails :: "dnslib \<Rightarrow> crypto \<Rightarrow> zone_keys \<Rightarrow> string \<Rightarrow> u16 \<Rightarrow> rrsig_info \<Rightarrow> bool" where
  "sigFails L C zk name rtype sig =
     (if si_typecovered sig \<noteq> rtype then False
      else case keyForKeyTag zk (si_keytag sig) of
        None \<Rightarrow> False
      | Some key \<Rightarrow> verifySig C sig key [signedData L sig name (zk_bytype zk name rtype)] \<noteq> None)"

text \<open>The index of the first failing signature, or -1. The time argument is not used.\<close>

definition verifyRRSIGForType :: "dnslib \<Rightarrow> crypto \<Rightarrow> zone_keys \<Rightarrow> string \<Rightarrow> u16 \<Rightarrow> int" where
  "verifyRRSIGForType L C zk name rtype =
     (case find (\<lambda>(i, sig). sigFails L C zk name rtype sig) (enumerate 0 (slot (zk_sigs zk) name)) of
        Some (i, _) \<Rightarrow> int i | None \<Rightarrow> -1)"

definition inZone :: "dnslib \<Rightarrow> string \<Rightarrow> zone_keys \<Rightarrow> zone_keys" where
  "inZone L zone z =
     (let apex = fqdn L (to_lower zone) in
      \<lparr>zk_keys = zk_keys z,
       zk_sigs = filter (\<lambda>(n, ss). ss \<noteq> [])
         (map (\<lambda>(n, ss). (n, filter (\<lambda>s. equal_fold (si_signer s) apex) ss)) (zk_sigs z)),
       zk_dss = zk_dss z, zk_bytype = zk_bytype z\<rparr>)"

section \<open>Findings\<close>

definition sigFindings :: "dnslib \<Rightarrow> string \<Rightarrow> int \<Rightarrow> rrsig_info \<Rightarrow> finding list" where
  "sigFindings L zone now sig =
     (if signatureExpired now sig then [ruleNew DNSSECSignExpired zone
        ''An RRSIG signature has expired and is no longer valid.''
        [''typecovered='' @ typeToString L (si_typecovered sig) @ '' keytag='' @ word_str (si_keytag sig)
          @ '' expired='' @ word_str (si_expiration sig)]] else [])
   @ (if signatureNotYetValid now sig then [ruleNew DNSSECSignNotYet zone
        ''An RRSIG signature is not yet valid (inception in the future).''
        [''typecovered='' @ typeToString L (si_typecovered sig) @ '' keytag='' @ word_str (si_keytag sig)
          @ '' inception='' @ word_str (si_inception sig)]] else [])
   @ (if si_algorithm sig \<in> deprecatedAlgorithms then [ruleNew DNSSECDeprecatedAlgo zone
        ''The signature uses a deprecated algorithm (RFC 9037).''
        [''algorithm='' @ word_str (si_algorithm sig) @ '' ('' @ algoName (si_algorithm sig) @ '')'']] else [])"

definition checkZone :: "dnslib \<Rightarrow> string \<Rightarrow> zone_keys \<Rightarrow> int \<Rightarrow> finding list" where
  "checkZone L zone zk now =
     (if hasRRSIG zk \<and> \<not> hasDNSKEY zk then [ruleNew DNSSECNoDNSKEY zone
        ''The zone signs records (RRSIG present) but publishes no DNSKEY, so signatures cannot be validated.'' []]
      else [])
   @ (if hasDNSKEY zk \<and> \<not> hasRRSIG zk then [ruleNew DNSSECNoRRSIG zone
        ''The zone publishes DNSKEY but does not sign its records; DNSSEC is incomplete.'' []]
      else [])
   @ concat (map (sigFindings L zone now) (mergeSigs (zk_sigs zk)))"

lemma checkZone_wf: "f \<in> set (checkZone L zone zk now) \<Longrightarrow> wf_finding f"
  by (auto simp: checkZone_def sigFindings_def split: if_splits)

interpretation dnssec: checker "\<lambda>(L, zone, zk, now). checkZone L zone zk now"
  by unfold_locales (auto dest: checkZone_wf)

section \<open>Lemmas: signed data\<close>

lemma canonRRset_eq:
  "canonRRset L rrs = sorted_list_of_set {rd. \<exists>r \<in> set rrs. rrData L r = Some rd}"
proof -
  let ?ds = "dedup_on (\<lambda>rd. rd) [] (List.map_filter (rrData L) rrs)"
  have s: "set ?ds = {rd. \<exists>r \<in> set rrs. rrData L r = Some rd}" by (simp add: set_map_filter)
  show ?thesis unfolding canonRRset_def s [symmetric]
    by (rule sorted_distinct_set_unique) simp_all
qed

text \<open>
  C13. The octets a signature covers depend only on the set of record data: neither the order of
  the records nor how often a record was seen changes them, so merging several responses leaves
  the verification alone.
\<close>

theorem signedData_set:
  assumes "\<And>rd. (\<exists>r \<in> set rrs. rrData L r = Some rd) = (\<exists>r \<in> set rrs'. rrData L r = Some rd)"
  shows "signedData L sig owner rrs = signedData L sig owner rrs'"
  using assms by (simp add: signedData_def canonRRset_eq)

definition ex_txt :: "string \<Rightarrow> rr" where
  "ex_txt s = \<lparr>rr_hdr = \<lparr>h_name = ''z.'', h_rrtype = TypeTXT, h_class = 1, h_ttl = 5\<rparr>, rr_data = TXT_RR [s]\<rparr>"

theorem signedData_set_witness:
  "signedData plain_lib ex_sig ''z.'' [ex_txt ''a'', ex_txt ''b'', ex_txt ''a'']
   = signedData plain_lib ex_sig ''z.'' [ex_txt ''b'', ex_txt ''a'']"
  by (rule signedData_set) auto

text \<open>
  RFC 4035, section 5.3.2, for an owner of the labels \<open>ls\<close>: the signed owner is the owner itself when
  the signature counts all its labels, and otherwise the wildcard at the labels counted.
\<close>

lemma trim_join: "trim_suffix (join ''.'' ls @ ''.'') ''.'' = join ''.'' ls"
  by simp

lemma labels_of:
  assumes "dns_names_ok L" and "ls \<noteq> []" and "\<And>l. l \<in> set ls \<Longrightarrow> l \<noteq> [] \<and> CHR ''.'' \<notin> set l"
    and "isFqdn L (join ''.'' ls @ ''.'')"
  shows "split_on CHR ''.'' (trim_suffix (fqdn L (join ''.'' ls @ ''.'')) ''.'') = ls"
    and "join ''.'' ls \<noteq> []"
proof -
  show "split_on CHR ''.'' (trim_suffix (fqdn L (join ''.'' ls @ ''.'')) ''.'') = ls"
    using assms by (simp add: fqdn_isFqdn split_on_join)
  obtain l rest where l: "ls = l # rest" using assms(2) by (cases ls) auto
  then show "join ''.'' ls \<noteq> []" using assms(3) [of l] by (cases rest) auto
qed

text \<open>
  The owner name under which a record set is verified: the name itself when the signature
  counts all of its labels, and for a wildcard expansion the wildcard at the labels the
  signature counts.
\<close>

theorem signedOwner_wildcard:
  assumes "dns_names_ok L" and "ls \<noteq> []" and "\<And>l. l \<in> set ls \<Longrightarrow> l \<noteq> [] \<and> CHR ''.'' \<notin> set l"
    and "isFqdn L (join ''.'' ls @ ''.'')"
  shows "signedOwner L sig (join ''.'' ls @ ''.'') =
    (if unat (si_labels sig) < length ls
     then ''*.'' @ join ''.'' (drop (length ls - unat (si_labels sig)) ls) @ ''.''
     else join ''.'' ls @ ''.'')"
  using labels_of [OF assms]
  by (auto simp: signedOwner_def countLabels_def lastLabels_def Let_def not_less)

theorem signedOwner_wildcard_witness:
  "signedOwner plain_lib (ex_sig\<lparr>si_labels := 2\<rparr>) ''a.b.c.'' = ''*.b.c.''"
proof -
  have "join ''.'' [''a'', ''b'', ''c''] @ ''.'' = ''a.b.c.''" by simp
  moreover have "signedOwner plain_lib (ex_sig\<lparr>si_labels := 2\<rparr>) (join ''.'' [''a'', ''b'', ''c''] @ ''.'') = ''*.b.c.''"
    by (subst signedOwner_wildcard [OF plain_lib_ok])
      (auto simp: plain_lib_def has_suffix_def ex_sig_def)
  ultimately show ?thesis by simp
qed

section \<open>Lemmas: collecting\<close>

lemma collect_bytype:
  "zk_bytype (fold (collectRR L C) xs zk) n t =
     zk_bytype zk n t @ filter (\<lambda>r. ownerName L (rr_name r) = n \<and> rr_type r = t) (somes xs)"
proof (induction xs arbitrary: zk)
  case (Cons x xs)
  have "zk_bytype (collectRR L C (Some r) zk) n t =
      zk_bytype zk n t @ (if ownerName L (rr_name r) = n \<and> rr_type r = t then [r] else [])" for r
    by (auto simp: collectRR_def Let_def split: rdata.splits sum.splits)
  then show ?case using Cons by (cases x) (auto simp: collectRR_def)
qed simp

definition sig_of :: "dnslib \<Rightarrow> rr \<Rightarrow> rrsig_info option" where
  "sig_of L r = (case rr_data r of RRSIG_RR s \<Rightarrow> Some (parseRRSIG L s) | _ \<Rightarrow> None)"

definition ds_of :: "rr \<Rightarrow> ds_info option" where
  "ds_of r = (case rr_data r of DS_RR d \<Rightarrow> Some (parseDS d) | _ \<Rightarrow> None)"

definition key_of :: "crypto \<Rightarrow> rr \<Rightarrow> key_info option" where
  "key_of C r = (case rr_data r of DNSKEY_RR k \<Rightarrow> (case parseDNSKEY C k of Inr i \<Rightarrow> Some i | Inl _ \<Rightarrow> None) | _ \<Rightarrow> None)"

lemma collectRR_fields:
  "zk_sigs (collectRR L C (Some r) zk) =
     (case sig_of L r of None \<Rightarrow> zk_sigs zk | Some s \<Rightarrow> add_to (ownerName L (rr_name r)) s (zk_sigs zk))"
  "zk_dss (collectRR L C (Some r) zk) =
     (case ds_of r of None \<Rightarrow> zk_dss zk | Some s \<Rightarrow> add_to (ownerName L (rr_name r)) s (zk_dss zk))"
  "zk_keys (collectRR L C (Some r) zk) =
     (case key_of C r of None \<Rightarrow> zk_keys zk | Some s \<Rightarrow> add_to (ownerName L (rr_name r)) s (zk_keys zk))"
  by (simp_all add: collectRR_def Let_def sig_of_def ds_of_def key_of_def split: rdata.splits sum.splits)

lemma slot_collect:
  fixes m :: "(string \<times> 'a list) list"
  assumes "\<And>r zk. fld (collectRR L C (Some r) zk) =
      (case sel r of None \<Rightarrow> fld zk | Some s \<Rightarrow> add_to (ownerName L (rr_name r)) s (fld zk))"
  shows "slot (fld (fold (collectRR L C) xs zk)) n =
    slot (fld zk) n @ List.map_filter (\<lambda>r. if ownerName L (rr_name r) = n then sel r else None) (somes xs)"
proof (induction xs arbitrary: zk)
  case (Cons x xs)
  then show ?case
    by (cases x) (auto simp: assms collectRR_def [of L C None] slot_add_to List.map_filter_def split: option.splits)
qed (simp add: List.map_filter_def)

lemma slot_collect_sigs:
  "slot (zk_sigs (collect L C m)) n =
     List.map_filter (\<lambda>r. if ownerName L (rr_name r) = n then sig_of L r else None) (somes (m_answer m @ m_ns m))"
  unfolding collect_def slot_collect [where fld = zk_sigs and sel = "sig_of L", OF collectRR_fields(1)]
  by (simp add: empty_keys_def)

lemma slot_collect_dss:
  "slot (zk_dss (collect L C m)) n =
     List.map_filter (\<lambda>r. if ownerName L (rr_name r) = n then ds_of r else None) (somes (m_answer m @ m_ns m))"
  unfolding collect_def slot_collect [where fld = zk_dss and sel = ds_of, OF collectRR_fields(2)]
  by (simp add: empty_keys_def)

lemma slot_collect_keys:
  "slot (zk_keys (collect L C m)) n =
     List.map_filter (\<lambda>r. if ownerName L (rr_name r) = n then key_of C r else None) (somes (m_answer m @ m_ns m))"
  unfolding collect_def slot_collect [where fld = zk_keys and sel = "key_of C", OF collectRR_fields(3)]
  by (simp add: empty_keys_def)

lemma bytype_collect:
  "zk_bytype (collect L C m) n t =
     filter (\<lambda>r. ownerName L (rr_name r) = n \<and> rr_type r = t) (somes (m_answer m @ m_ns m))"
  unfolding collect_def collect_bytype by (simp add: empty_keys_def)

lemmas collect_slots = slot_collect_sigs slot_collect_dss slot_collect_keys bytype_collect

text \<open>
  C14. The DNSSEC records of a response, by owner: every RRSIG, every DS and every DNSKEY that parses
  is found under its lowered, fully qualified owner name, in the order of the answer and then
  the authority section, and the records of a type are those of that owner and type.
\<close>

theorem collect_spec:
  "slot (zk_sigs (collect L C m)) n =
     List.map_filter (\<lambda>r. if ownerName L (rr_name r) = n then sig_of L r else None) (somes (m_answer m @ m_ns m)) \<and>
   slot (zk_dss (collect L C m)) n =
     List.map_filter (\<lambda>r. if ownerName L (rr_name r) = n then ds_of r else None) (somes (m_answer m @ m_ns m)) \<and>
   slot (zk_keys (collect L C m)) n =
     List.map_filter (\<lambda>r. if ownerName L (rr_name r) = n then key_of C r else None) (somes (m_answer m @ m_ns m)) \<and>
   zk_bytype (collect L C m) n t =
     filter (\<lambda>r. ownerName L (rr_name r) = n \<and> rr_type r = t) (somes (m_answer m @ m_ns m))"
  by (intro conjI collect_slots)

section \<open>Lemmas: the chain\<close>

lemma chainSig_fields:
  "cr_valid (chainSig now (i, sig) r) \<longleftrightarrow> cr_valid r \<and> \<not> signatureExpired now sig \<and> \<not> signatureNotYetValid now sig"
  "cr_dsMatches (chainSig now (i, sig) r) = cr_dsMatches r"
  by (simp_all add: chainSig_def Let_def)

lemma chainSig_fold:
  "cr_valid (fold (chainSig now) xs r) \<longleftrightarrow>
     cr_valid r \<and> (\<forall>(i, sig) \<in> set xs. \<not> signatureExpired now sig \<and> \<not> signatureNotYetValid now sig)"
  "cr_dsMatches (fold (chainSig now) xs r) = cr_dsMatches r"
  by (induction xs arbitrary: r) (auto simp: chainSig_fields)

lemma in_enumerate: "(\<forall>(i, x) \<in> set (enumerate n xs). P x) \<longleftrightarrow> (\<forall>x \<in> set xs. P x)"
  by (induction xs arbitrary: n) auto

lemma dsMatchesKey_iff:
  "dsMatchesKey L C apex d k \<longleftrightarrow>
     (\<exists>h. (di_digesttype d, h) \<in> {(DigestTypeSHA1, SHA1), (DigestTypeSHA256, SHA256), (DigestTypeSHA512, SHA512)} \<and>
        di_digest d = digest C h (raw (canonicalName L apex) @ dnskeyRData k))"
  by (auto simp: dsMatchesKey_def computeDSDigest_def Let_def digest_defs)

lemma verifyDS_iff:
  "verifyDSMatchesDNSKEY L C anchor zone \<longleftrightarrow>
     (\<exists>d \<in> set (slot (zk_dss anchor) (apexName zone)). \<exists>k \<in> set (slot (zk_keys zone) (apexName zone)).
        dsMatchesKey L C (apexName zone) d k)"
  by (auto simp: verifyDSMatchesDNSKEY_def Let_def list_ex_iff)

lemma apexName_single: "map fst (zk_dss z) = [n] \<Longrightarrow> apexName z = n"
  by (auto simp: apexName_def split: option.splits)

text \<open>
  C10. The chain of a zone whose DS records stand at one name validates exactly when no signature
  of the zone is outside its period and, if the parent gave a DS, some DS there has the digest
  of some key of the zone under that name; the key tag and the algorithm of the DS are not
  compared.
\<close>

theorem validateChain_iff:
  assumes "map fst (zk_dss zone) = [n]"
  shows "cr_valid (validateChain L C anchor zone now) \<longleftrightarrow>
    (\<forall>sig \<in> set (mergeSigs (zk_sigs zone)). uint (si_inception sig) \<le> now \<and> now \<le> uint (si_expiration sig)) \<and>
    (hasDS anchor \<longrightarrow> (\<exists>d \<in> set (slot (zk_dss anchor) n). \<exists>k \<in> set (slot (zk_keys zone) n).
       \<exists>h. (di_digesttype d, h) \<in> {(DigestTypeSHA1, SHA1), (DigestTypeSHA256, SHA256), (DigestTypeSHA512, SHA512)} \<and>
         di_digest d = digest C h (raw (canonicalName L n) @ dnskeyRData k)))"
proof -
  have ds: "hasDS zone" using assms by (cases "zk_dss zone") (auto simp: hasDS_def)
  have v: "cr_valid (validateChain L C anchor zone now) \<longleftrightarrow>
      (\<forall>sig \<in> set (mergeSigs (zk_sigs zone)). \<not> signatureExpired now sig \<and> \<not> signatureNotYetValid now sig) \<and>
      (hasDS anchor \<longrightarrow> verifyDSMatchesDNSKEY L C anchor zone)"
    using ds by (simp add: validateChain_def Let_def chainSig_fold in_enumerate [of 0 _ "\<lambda>sig. \<not> signatureExpired now sig \<and> \<not> signatureNotYetValid now sig"])
  show ?thesis
    unfolding v verifyDS_iff apexName_single [OF assms] dsMatchesKey_iff
    by (simp add: signatureExpired_def signatureNotYetValid_def not_less conj_commute)
qed

definition ex_crypto :: crypto where
  "ex_crypto = \<lparr>digest = (\<lambda>h b. b), ed25519Verify = (\<lambda>_ _ _. True), onCurve = (\<lambda>_ _. True),
     ecdsaVerify = (\<lambda>_ _ _ _ _. True), rsaVerify = (\<lambda>_ _ _ _ _. False)\<rparr>"

definition ex_ds :: ds_info where
  "ex_ds = \<lparr>di_keytag = 0, di_algorithm = 0, di_digesttype = 2, di_digest = 1 # 122 # 0 # dnskeyRData ex_key\<rparr>"

definition ex_zk :: zone_keys where
  "ex_zk = empty_keys\<lparr>zk_keys := [(''z.'', [ex_key])], zk_dss := [(''z.'', [ex_ds])]\<rparr>"

lemma ex_zk_name: "raw (canonicalName plain_lib ''z.'') = [1, 122, 0]"
proof -
  have "split_on CHR ''.'' ''z'' = [''z'']" by (simp add: split_on_single)
  then show ?thesis
    by (simp add: canonicalName_def uncompressedName_def plain_lib_def plain_pack_def has_suffix_def
        trim_suffix_def to_lower_def lower_char_def bytes_of_def byte_of_char_def raw_def)
qed

theorem validateChain_iff_witness: "cr_valid (validateChain plain_lib ex_crypto ex_zk ex_zk 7)"
  by (subst validateChain_iff [of _ "''z.''"])
    (auto simp: ex_zk_def empty_keys_def mergeSigs_def ex_ds_def ex_zk_name ex_crypto_def slot_def digest_defs)

text \<open>A signature that counts against a record set: over its type, with a known key, not verifying.\<close>

definition bad_sig :: "dnslib \<Rightarrow> crypto \<Rightarrow> zone_keys \<Rightarrow> string \<Rightarrow> u16 \<Rightarrow> rrsig_info \<Rightarrow> bool" where
  "bad_sig L C zk name rtype sig \<longleftrightarrow> si_typecovered sig = rtype \<and>
     (\<exists>k. keyForKeyTag zk (si_keytag sig) = Some k \<and>
        verifySig C sig k [signedData L sig name (zk_bytype zk name rtype)] \<noteq> None)"

lemma sigFails_iff: "sigFails L C zk name rtype sig = bad_sig L C zk name rtype sig"
  by (simp add: sigFails_def bad_sig_def split: option.splits)

text \<open>
  A record set passes exactly when every signature over its type at its name whose key is known
  verifies over the record set, and otherwise the index returned is that of the first that
  fails. Signatures with an unknown key tag are skipped.
\<close>

theorem verifyRRSIG_first_failure:
  "(verifyRRSIGForType L C zk name rtype = -1 \<longleftrightarrow> (\<forall>sig \<in> set (slot (zk_sigs zk) name). \<not> bad_sig L C zk name rtype sig)) \<and>
   (verifyRRSIGForType L C zk name rtype = int i \<longleftrightarrow>
      i < length (slot (zk_sigs zk) name) \<and> bad_sig L C zk name rtype (slot (zk_sigs zk) name ! i) \<and>
      (\<forall>j < i. \<not> bad_sig L C zk name rtype (slot (zk_sigs zk) name ! j)))"
proof -
  let ?xs = "slot (zk_sigs zk) name" and ?P = "\<lambda>(i, sig). sigFails L C zk name rtype sig"
  let ?f = "find ?P (enumerate 0 ?xs)"
  have none: "?f = None \<longleftrightarrow> (\<forall>sig \<in> set ?xs. \<not> bad_sig L C zk name rtype sig)"
    using in_enumerate [of 0 ?xs "\<lambda>s. \<not> bad_sig L C zk name rtype s"]
    by (auto simp: find_None_iff sigFails_iff)
  have some: "?f = Some (k, s) \<longleftrightarrow> k < length ?xs \<and> s = ?xs ! k \<and> bad_sig L C zk name rtype (?xs ! k) \<and>
      (\<forall>j < k. \<not> bad_sig L C zk name rtype (?xs ! j))" for k s
    by (auto simp: find_Some_iff nth_enumerate_eq sigFails_iff)
  show ?thesis
  proof (cases ?f)
    case None
    then show ?thesis using none by (auto simp: verifyRRSIGForType_def)
  next
    case (Some p)
    obtain k s where p: "p = (k, s)" by (cases p)
    have k: "k < length ?xs" "bad_sig L C zk name rtype (?xs ! k)" "\<And>j. j < k \<Longrightarrow> \<not> bad_sig L C zk name rtype (?xs ! j)"
      using some [of k s] Some p by auto
    have "\<not> (\<forall>sig \<in> set ?xs. \<not> bad_sig L C zk name rtype sig)" using k by auto
    moreover have "i = k \<longleftrightarrow> i < length ?xs \<and> bad_sig L C zk name rtype (?xs ! i) \<and>
        (\<forall>j < i. \<not> bad_sig L C zk name rtype (?xs ! j))"
      using k by (metis linorder_neqE_nat)
    ultimately show ?thesis using Some p by (auto simp: verifyRRSIGForType_def)
  qed
qed

definition ex_bad :: zone_keys where
  "ex_bad = empty_keys\<lparr>zk_keys := [(''z.'', [ex_key\<lparr>ki_tag := 0\<rparr>])], zk_sigs := [(''z.'', [ex_sig])]\<rparr>"

lemma ex_bad_sig: "bad_sig plain_lib ex_crypto ex_bad ''z.'' 1 ex_sig"
proof -
  have "bit_len 32769 div 8 \<le> 2" using bit_len_le [of 32769 16] by simp
  then have "verifySig ex_crypto ex_sig (ex_key\<lparr>ki_tag := 0\<rparr>) d = Some ErrBadSignature" for d
    by (simp add: verifySig_def verifyRSA_def rsaVerifyPKCS1_def ex_sig_def ex_key_def alg_defs)
  moreover have "keyForKeyTag ex_bad (si_keytag ex_sig) = Some (ex_key\<lparr>ki_tag := 0\<rparr>)"
    by (simp add: keyForKeyTag_def ex_bad_def ex_sig_def)
  ultimately show ?thesis by (simp add: bad_sig_def) (simp add: ex_sig_def)
qed

theorem verifyRRSIG_first_failure_witness: "verifyRRSIGForType plain_lib ex_crypto ex_bad ''z.'' 1 = 0"
  using verifyRRSIG_first_failure [of plain_lib ex_crypto ex_bad "''z.''" 1 0] ex_bad_sig
  by (simp add: slot_def) (simp add: ex_bad_def)

section \<open>Lemmas: signatures of the zone\<close>

lemma slot_filter_map:
  "slot (filter (\<lambda>(n, ss). ss \<noteq> []) (map (\<lambda>(n, ss). (n, f ss)) m)) n =
     (case map_of m n of None \<Rightarrow> [] | Some ss \<Rightarrow> f ss)" if "distinct (map fst m)"
  using that
proof (induction m)
  case (Cons x m)
  obtain k ss where x: "x = (k, ss)" by (cases x)
  have "map_of (filter (\<lambda>(n, ss). ss \<noteq> []) (map (\<lambda>(n, ss). (n, f ss)) m)) k = None" if "k \<notin> fst ` set m"
    using that by (force simp: map_of_eq_None_iff)
  then show ?case using Cons unfolding x by (auto simp: slot_def split: option.splits)
qed (simp add: slot_def)

lemma slot_inZone:
  "distinct (map fst (zk_sigs z)) \<Longrightarrow> slot (zk_sigs (inZone L zone z)) n =
     filter (\<lambda>s. equal_fold (si_signer s) (fqdn L (to_lower zone))) (slot (zk_sigs z) n)"
  by (simp add: inZone_def Let_def slot_filter_map) (simp add: slot_def split: option.splits)

lemma distinct_collect_fold:
  assumes "\<And>r zk. fld (collectRR L C (Some r) zk) =
      (case sel r of None \<Rightarrow> fld zk | Some s \<Rightarrow> add_to (ownerName L (rr_name r)) s (fld zk))"
  shows "distinct (map fst (fld zk)) \<Longrightarrow> distinct (map fst (fld (fold (collectRR L C) xs zk)))"
proof (induction xs arbitrary: zk)
  case (Cons x xs)
  have "distinct (map fst (fld (collectRR L C x zk)))"
    using Cons.prems
    by (cases x) (auto simp: assms collectRR_def [of L C None] distinct_add_to split: option.splits)
  from Cons.IH [OF this] show ?case by simp
qed simp

lemma distinct_collect_sigs: "distinct (map fst (zk_sigs (collect L C m)))"
  unfolding collect_def
  by (rule distinct_collect_fold [where fld = zk_sigs and sel = "sig_of L", OF collectRR_fields(1)])
    (simp add: empty_keys_def)

text \<open>
  Restricting a response to a zone keeps, at every owner, exactly the signatures whose signer is
  the zone, in any letter case and with or without the final dot, and leaves keys, DS records
  and record sets as they are.
\<close>

theorem inZone_collect:
  "slot (zk_sigs (inZone L zone (collect L C m))) n =
     filter (\<lambda>s. to_lower (si_signer s) = to_lower (fqdn L (to_lower zone))) (slot (zk_sigs (collect L C m)) n) \<and>
   zk_keys (inZone L zone (collect L C m)) = zk_keys (collect L C m) \<and>
   zk_dss (inZone L zone (collect L C m)) = zk_dss (collect L C m) \<and>
   zk_bytype (inZone L zone (collect L C m)) = zk_bytype (collect L C m)"
  by (simp add: slot_inZone distinct_collect_sigs equal_fold_def) (simp add: inZone_def Let_def)

section \<open>Lemmas: the findings of a zone\<close>

text \<open>
  C27. The DNSSEC findings of a zone: an expiry is reported exactly when some signature expired
  before the time of the check, a future inception and a deprecated algorithm likewise, a
  missing DNSKEY exactly when there are signatures and no key, and a missing RRSIG exactly
  when there are keys and no signature.
\<close>

theorem checkZone_reports:
  "(\<exists>f \<in> set (checkZone L zone zk now). f_id f = r_id DNSSECSignExpired) =
     (\<exists>sig \<in> set (mergeSigs (zk_sigs zk)). uint (si_expiration sig) < now) \<and>
   (\<exists>f \<in> set (checkZone L zone zk now). f_id f = r_id DNSSECSignNotYet) =
     (\<exists>sig \<in> set (mergeSigs (zk_sigs zk)). now < uint (si_inception sig)) \<and>
   (\<exists>f \<in> set (checkZone L zone zk now). f_id f = r_id DNSSECDeprecatedAlgo) =
     (\<exists>sig \<in> set (mergeSigs (zk_sigs zk)). si_algorithm sig = 5 \<or> si_algorithm sig = 7) \<and>
   (\<exists>f \<in> set (checkZone L zone zk now). f_id f = r_id DNSSECNoDNSKEY) = (zk_sigs zk \<noteq> [] \<and> zk_keys zk = []) \<and>
   (\<exists>f \<in> set (checkZone L zone zk now). f_id f = r_id DNSSECNoRRSIG) = (zk_keys zk \<noteq> [] \<and> zk_sigs zk = [])"
proof -
  have sig: "(\<exists>f \<in> set (sigFindings L zone now sig). f_id f = r_id DNSSECSignExpired) = (uint (si_expiration sig) < now)"
    "(\<exists>f \<in> set (sigFindings L zone now sig). f_id f = r_id DNSSECSignNotYet) = (now < uint (si_inception sig))"
    "(\<exists>f \<in> set (sigFindings L zone now sig). f_id f = r_id DNSSECDeprecatedAlgo) = (si_algorithm sig = 5 \<or> si_algorithm sig = 7)"
    "\<not> (\<exists>f \<in> set (sigFindings L zone now sig). f_id f = r_id DNSSECNoDNSKEY)"
    "\<not> (\<exists>f \<in> set (sigFindings L zone now sig). f_id f = r_id DNSSECNoRRSIG)" for sig
    by (simp_all add: sigFindings_def bex_Un signatureExpired_def signatureNotYetValid_def deprecatedAlgorithms_def
        alg_defs DNSSECSignExpired_def DNSSECSignNotYet_def DNSSECDeprecatedAlgo_def DNSSECNoDNSKEY_def DNSSECNoRRSIG_def)
  have split: "(\<exists>f \<in> set (checkZone L zone zk now). f_id f = i) \<longleftrightarrow>
      (zk_sigs zk \<noteq> [] \<and> zk_keys zk = [] \<and> i = r_id DNSSECNoDNSKEY) \<or>
      (zk_keys zk \<noteq> [] \<and> zk_sigs zk = [] \<and> i = r_id DNSSECNoRRSIG) \<or>
      (\<exists>sig \<in> set (mergeSigs (zk_sigs zk)). \<exists>f \<in> set (sigFindings L zone now sig). f_id f = i)" for i
    by (auto simp: checkZone_def hasRRSIG_def hasDNSKEY_def)
  show ?thesis
    unfolding split using sig
    by (simp add: DNSSECSignExpired_def DNSSECSignNotYet_def DNSSECDeprecatedAlgo_def DNSSECNoDNSKEY_def DNSSECNoRRSIG_def)
qed

end
