(* ===== verification/Signing.thy ===== *)
theory Signing
  imports TestZones DnssecChain
begin

text \<open>
  The signer of the test zones (\<^verbatim>\<open>testdata/testzones.go\<close>) against the validator
  (\<^verbatim>\<open>internal/dnssec\<close>): its key tag, its DNSKEY, its DS and its signatures are read back and
  accepted. The keys and the signature scheme are Ed25519's, of which only the laws below are used.
\<close>

section \<open>Names\<close>

lemma lower_is_dot [simp]: "lower_char c = CHR ''.'' \<longleftrightarrow> c = CHR ''.''"
proof
  assume "lower_char c = CHR ''.''"
  then show "c = CHR ''.''"
    by (cases "65 \<le> (of_char c :: nat) \<and> (of_char c :: nat) \<le> 90")
      (auto simp: lower_char_def Let_def char_of_eq_iff take_bit_eq_mod)
qed simp

lemma trim_dot_lower: "trim_suffix (to_lower s) ''.'' = to_lower (trim_suffix s ''.'')"
  by (simp add: trim_suffix_def has_suffix_to_lower_dot) (simp add: to_lower_def take_map)

text \<open>A name and its lowered, fully qualified form are one name to the packer and to the label count.\<close>

lemma canonicalName_owner [simp]:
  "dns_names_ok L \<Longrightarrow> canonicalName L (ownerName L n) = canonicalName L n"
  by (simp add: canonicalName_def uncompressedName_def ownerName_def fqdn_to_lower)

lemma canonicalName_fqdn [simp]: "dns_names_ok L \<Longrightarrow> canonicalName L (fqdn L n) = canonicalName L n"
  by (simp add: canonicalName_def uncompressedName_def fqdn_to_lower)

lemma countLabels_owner: "dns_names_ok L \<Longrightarrow> countLabels L (ownerName L n) = countLabels L n"
  by (simp add: countLabels_def Let_def ownerName_def fqdn_to_lower trim_dot_lower split_on_to_lower)
    (simp add: to_lower_def)

lemma ownerName_fqdn [simp]: "dns_names_ok L \<Longrightarrow> ownerName L (fqdn L n) = ownerName L n"
  by (simp add: ownerName_def fqdn_to_lower)

section \<open>The key\<close>

lemma rfc4034Loop_keyTagLoop: "rfc4034Loop i ac bs = keyTagLoop i ac bs"
  by (induction i ac bs rule: rfc4034Loop.induct) (simp_all add: even_iff_mod_2_eq_zero)

lemma rfc4034KeyTag_eq: "rfc4034KeyTag flags protocol algo key = keyTag flags protocol algo key"
  by (simp add: rfc4034KeyTag_def keyTag_def rfc4034Loop_keyTagLoop keyRdata_def)

lemma decodeBase64_encode [simp]: "decodeBase64 (b64_encode bs) = Some bs"
proof (cases bs rule: b64_encode.cases)
  case 1
  then show ?thesis by (simp add: decodeBase64_def)
qed (simp_all add: decodeBase64_def trimNewlines_strip text_no_newlines [OF b64_encode_text] b64_decode_encode
    del: b64_encode.simps, simp_all add: Let_def)

lemma decodeHex_encode [simp]: "decodeHex (hex_encode bs) = Some bs"
proof (cases "hex_encode bs = []")
  case True
  then have "bs = []" using length_hex_encode [of bs] by simp
  with True show ?thesis by (simp add: decodeHex_def)
next
  case False
  then show ?thesis
    by (simp add: decodeHex_def trimNewlines_strip text_no_newlines [OF hex_encode_text] hex_decode_encode)
qed

text \<open>What the validator reads from the signer's DNSKEY.\<close>

definition test_key_info :: "test_key \<Rightarrow> key_info" where
  "test_key_info k = \<lparr>ki_flags = 257, ki_protocol = 3, ki_algorithm = 15, ki_pubkey = Ed25519Key (tk_pub k),
     ki_bytes = tk_pub k, ki_tag = rfc4034KeyTag 257 3 15 (tk_pub k)\<rparr>"

lemma parse_dnskeyRR:
  "length (tk_pub k) = 32 \<Longrightarrow> parseDNSKEY C (snd (dnskeyRR L k zone)) = Inr (test_key_info k)"
  by (auto simp: parseDNSKEY_def dnskeyRR_def pubkeyFromAlgorithm_def test_key_info_def rfc4034KeyTag_eq alg_defs)

lemma dsRR_matches:
  assumes "dns_names_ok L" and "rr_data (dsRR L C k zone (snd (dnskeyRR L k zone))) = DS_RR d"
  shows "dsMatchesKey L C (ownerName L zone) (parseDS d) (test_key_info k)"
  using assms
  by (auto simp: dsRR_def Let_def dnskeyRR_def dsMatchesKey_def parseDS_def computeDSDigest_def digest_defs
      test_key_info_def dnskeyRData_def)

section \<open>Signatures\<close>

text \<open>What is used of Ed25519: the lengths, and that a signature made with the private key verifies.\<close>

definition ed25519_pair :: "crypto \<Rightarrow> (bytes \<Rightarrow> bytes \<Rightarrow> bytes) \<Rightarrow> test_key \<Rightarrow> bool" where
  "ed25519_pair C sign k \<longleftrightarrow> length (tk_pub k) = 32 \<and> tk_tag k = rfc4034KeyTag 257 3 15 (tk_pub k) \<and>
     (\<forall>m. length (sign (tk_priv k) m) = 64 \<and> ed25519Verify C (tk_pub k) m (sign (tk_priv k) m))"

text \<open>A record set a signer can be given: data for every record, no two alike, few enough labels.\<close>

definition signable :: "dnslib \<Rightarrow> rr list \<Rightarrow> bool" where
  "signable L rrs \<longleftrightarrow> rrs \<noteq> [] \<and> (\<forall>r \<in> set rrs. rrData L r \<noteq> None) \<and> distinct (map (rrData L) rrs) \<and>
     length (split_on CHR ''.'' (trim_suffix (fqdn L (rr_name (hd rrs))) ''.'')) < 256"

definition same_data :: "dnslib \<Rightarrow> rr list \<Rightarrow> rr list \<Rightarrow> bool" where
  "same_data L rrs rrs' \<longleftrightarrow> (\<forall>rd. (\<exists>r \<in> set rrs. rrData L r = Some rd) = (\<exists>r \<in> set rrs'. rrData L r = Some rd))"

lemma canonRRset_signable:
  assumes "signable L rrs" and "same_data L rrs rrs'"
  shows "canonRRset L rrs' = sort (map (\<lambda>r. raw (rrData L r)) rrs)"
proof -
  let ?ds = "map (\<lambda>r. raw (rrData L r)) rrs"
  have data: "rrData L r = Some (raw (rrData L r))" if "r \<in> set rrs" for r
    using assms(1) that by (auto simp: signable_def raw_def)
  have "distinct (map Some ?ds)"
    using assms(1) data unfolding signable_def by (simp add: comp_def cong: map_cong)
  then have dis: "distinct ?ds" by (simp only: distinct_map)
  have set: "{rd. \<exists>r \<in> set rrs'. rrData L r = Some rd} = set ?ds"
  proof -
    have "{rd. \<exists>r \<in> set rrs'. rrData L r = Some rd} = {rd. \<exists>r \<in> set rrs. rrData L r = Some rd}"
      using assms(2) by (simp add: same_data_def)
    also have "\<dots> = set ?ds" using data by force
    finally show ?thesis .
  qed
  show ?thesis unfolding canonRRset_eq set
    by (rule sorted_distinct_set_unique) (simp_all add: dis)
qed

lemma signedOwner_full:
  assumes "dns_names_ok L" and "unat (si_labels sig) = length (split_on CHR ''.'' (trim_suffix (fqdn L n) ''.''))"
  shows "signedOwner L sig (ownerName L n) = ownerName L n"
proof -
  have "countLabels L (ownerName L n) \<le> length (split_on CHR ''.'' (trim_suffix (fqdn L n) ''.''))"
    using assms(1) by (simp add: countLabels_owner) (simp add: countLabels_def Let_def)
  then show ?thesis using assms(2) by (simp add: signedOwner_def)
qed

lemma unat_labels: "n < 256 \<Longrightarrow> unat (word_of_nat n :: byte) = n"
  by (simp add: unat_of_nat)

text \<open>The octets the validator rebuilds are the octets that were signed.\<close>

lemma signRRset_octets:
  assumes L: "dns_names_ok L" and ok: "signable L rrs" and data: "same_data L rrs rrs'"
    and made: "signRRset L sign k clock zone rrs tamper = Some (h, sg)"
  shows "signedData L (parseRRSIG L sg) (ownerName L (rr_name (hd rrs))) rrs' =
    signed_octets L (tk_tag k) zone rrs (rr_hdr (hd rrs)) (fqdn L (rr_name (hd rrs)))
      (sg_inception sg) (sg_expiration sg)"
proof -
  obtain r rs where rrs: "rrs = r # rs" using ok by (cases rrs) (auto simp: signable_def)
  let ?n = "length (split_on CHR ''.'' (trim_suffix (fqdn L (rr_name r)) ''.''))"
  have sg: "sg_typecovered sg = rr_type r" "sg_algorithm sg = 15" "sg_labels sg = word_of_nat ?n"
    "sg_origttl sg = rr_ttl r" "sg_keytag sg = tk_tag k" "sg_signername sg = fqdn L zone"
    using made unfolding rrs by (auto simp: signRRset_def Let_def tz_name_def split: option.splits)
  have "?n < 256" using ok by (simp add: signable_def rrs)
  then have owner: "signedOwner L (parseRRSIG L sg) (ownerName L (rr_name r)) = ownerName L (rr_name r)"
    by (intro signedOwner_full [OF L]) (simp add: parseRRSIG_def sg unat_labels)
  show ?thesis
    using L unfolding rrs list.sel signedData_def Let_def owner canonRRset_signable [OF ok data, unfolded rrs]
    by (simp add: signed_octets_def Let_def parseRRSIG_def sigRDataNoSig_def sg rrs signedRecord_def [abs_def])
qed

lemma signature_accepted:
  assumes "dns_names_ok L" and "ed25519_pair C sign k" and "signable L rrs" and "same_data L rrs rrs'"
    and "signRRset L sign k clock zone rrs tamper = Some (h, sg)"
    and "tamper \<Longrightarrow> \<forall>m b bs. sign (tk_priv k) m = b # bs \<longrightarrow> \<not> ed25519Verify C (tk_pub k) m ((b XOR 0xff) # bs)"
  shows "\<exists>key. parseDNSKEY C (snd (dnskeyRR L k zone)) = Inr key \<and> ki_tag key = sg_keytag sg \<and>
    verifySig C (parseRRSIG L sg) key [signedData L (parseRRSIG L sg) (ownerName L (rr_name (hd rrs))) rrs']
      = (if tamper then Some ErrSigInvalid else None)"
proof (intro exI conjI)
  let ?m = "signed_octets L (tk_tag k) zone rrs (rr_hdr (hd rrs)) (fqdn L (rr_name (hd rrs)))
      (sg_inception sg) (sg_expiration sg)"
  let ?s = "sign (tk_priv k) ?m"
  have len: "length (tk_pub k) = 32" and tag: "tk_tag k = rfc4034KeyTag 257 3 15 (tk_pub k)"
    and s: "length ?s = 64" "ed25519Verify C (tk_pub k) ?m ?s"
    using assms(2) by (simp_all add: ed25519_pair_def)
  show "parseDNSKEY C (snd (dnskeyRR L k zone)) = Inr (test_key_info k)" by (rule parse_dnskeyRR [OF len])
  obtain r rs where rrs: "rrs = r # rs" using assms(3) by (cases rrs) (auto simp: signable_def)
  then show "ki_tag (test_key_info k) = sg_keytag sg"
    using assms(5) by (auto simp: signRRset_def Let_def test_key_info_def tag split: option.splits)
  obtain b bs where b: "?s = b # bs" using s(1) by (cases ?s) auto
  have "sg_signature sg = b64_encode (if tamper then (b XOR 0xff) # bs else ?s)"
    using assms(5) b unfolding rrs by (auto simp: signRRset_def Let_def split: option.splits list.splits)
  then have sig: "si_signature (parseRRSIG L sg) = (if tamper then (b XOR 0xff) # bs else ?s)"
    by (simp add: parseRRSIG_def)
  show "verifySig C (parseRRSIG L sg) (test_key_info k)
      [signedData L (parseRRSIG L sg) (ownerName L (rr_name (hd rrs))) rrs'] = (if tamper then Some ErrSigInvalid else None)"
    using s b assms(6) unfolding signRRset_octets [OF assms(1,3,4,5)]
    by (auto simp: verifySig_def verifyEd25519_def test_key_info_def alg_defs sig concatRData_def)
qed

text \<open>
  C8. A signature made by the signer verifies: over whatever the validator received of the record
  set, in any order, with repetitions and under any spelling of the owner, the signature checks
  with the key read from the signer's DNSKEY record, and its key tag is that key's. A
  signature whose first byte was flipped is refused when the scheme refuses it.
\<close>

theorem signRRset_verifies:
  assumes "dns_names_ok L" and "ed25519_pair C sign k" and "signable L rrs" and "same_data L rrs rrs'"
    and "signRRset L sign k clock zone rrs tamper = Some (h, sg)"
    and "tamper \<Longrightarrow> \<forall>m b bs. sign (tk_priv k) m = b # bs \<longrightarrow> \<not> ed25519Verify C (tk_pub k) m ((b XOR 0xff) # bs)"
  shows "\<exists>key. parseDNSKEY C (snd (dnskeyRR L k zone)) = Inr key \<and> ki_tag key = sg_keytag sg \<and>
    verifySig C (parseRRSIG L sg) key [signedData L (parseRRSIG L sg) (ownerName L (rr_name (hd rrs))) rrs']
      = (if tamper then Some ErrSigInvalid else None)"
  using signature_accepted [OF assms(1-5)] assms(6) by blast

text \<open>A key pair for the examples, with a scheme that accepts everything.\<close>

definition ex_sign :: "bytes \<Rightarrow> bytes \<Rightarrow> bytes" where
  "ex_sign priv m = replicate 64 0"

definition ex_pair :: test_key where
  "ex_pair = \<lparr>tk_priv = [], tk_pub = replicate 32 0, tk_tag = rfc4034KeyTag 257 3 15 (replicate 32 0)\<rparr>"

lemma ex_pair_ok: "ed25519_pair ex_crypto ex_sign ex_pair"
  by (simp add: ed25519_pair_def ex_pair_def ex_sign_def ex_crypto_def)

theorem signRRset_verifies_witness:
  "\<exists>h sg key. signRRset plain_lib ex_sign ex_pair (3600, 3600) ''z.'' [ex_txt ''b'', ex_txt ''a''] False = Some (h, sg) \<and>
     parseDNSKEY ex_crypto (snd (dnskeyRR plain_lib ex_pair ''z.'')) = Inr key \<and>
     verifySig ex_crypto (parseRRSIG plain_lib sg) key
       [signedData plain_lib (parseRRSIG plain_lib sg) (ownerName plain_lib ''z.'') [ex_txt ''a'', ex_txt ''b'', ex_txt ''a'']] = None"
proof -
  let ?rrs = "[ex_txt ''b'', ex_txt ''a'']"
  obtain h sg where made: "signRRset plain_lib ex_sign ex_pair (3600, 3600) ''z.'' ?rrs False = Some (h, sg)"
    by (auto simp: signRRset_def Let_def)
  have data: "rrData plain_lib (ex_txt s) = Some (txt_piece s)" for s
    by (simp add: rrData_def ex_txt_def txtRdata_def go_append_def txt_piece_def Let_def)
  have "txt_piece ''a'' \<noteq> txt_piece ''b''"
    by (simp add: txt_piece_def Let_def bytes_of_def byte_of_char_def)
  then have ok: "signable plain_lib ?rrs"
    by (simp add: signable_def data) (simp add: ex_txt_def plain_lib_def has_suffix_def trim_suffix_def)
  have "same_data plain_lib ?rrs [ex_txt ''a'', ex_txt ''b'', ex_txt ''a'']" by (auto simp: same_data_def)
  from signRRset_verifies [OF plain_lib_ok ex_pair_ok ok this made] made show ?thesis
    by (auto simp: ex_txt_def)
qed

end
