(* ===== verification/Addrs.thy ===== *)
theory Addrs
  imports DnsUtil Catalog
begin

text \<open>
  \<^verbatim>\<open>internal/addrs/addrs.go\<close>: classification of the addresses public records point to.
\<close>

section \<open>Classification\<close>

record classification =
  cl_category :: string
  cl_severity :: severity
  cl_reason :: string

definition isLoopbackV4 :: "bytes \<Rightarrow> bool" where
  "isLoopbackV4 ip \<longleftrightarrow> ip ! 0 = 127"

definition isPrivateV4 :: "bytes \<Rightarrow> byte \<Rightarrow> bool" where
  "isPrivateV4 ip second =
     (if ip ! 0 \<noteq> second then False
      else if second = 172 then 16 \<le> ip ! 1 \<and> ip ! 1 \<le> 31
      else True)"

definition isDocV4 :: "bytes \<Rightarrow> bool" where
  "isDocV4 ip \<longleftrightarrow> (ip ! 0 = 198 \<and> ip ! 1 = 51 \<and> ip ! 2 = 100) \<or>
     (ip ! 0 = 203 \<and> ip ! 1 = 0 \<and> ip ! 2 = 113)"

definition isLoopbackV6 :: "bytes \<Rightarrow> bool" where
  "isLoopbackV6 ip = isLoopback ip"

definition isUniqueLocalV6 :: "bytes \<Rightarrow> bool" where
  "isUniqueLocalV6 ip = isPrivate ip"

definition isLinkLocalV6 :: "bytes \<Rightarrow> bool" where
  "isLinkLocalV6 ip = isLinkLocalUnicast ip"

definition isUnspecifiedV6 :: "bytes \<Rightarrow> bool" where
  "isUnspecifiedV6 ip = isUnspecified ip"

definition mk_class :: "string \<Rightarrow> severity \<Rightarrow> string \<Rightarrow> classification option" where
  "mk_class c s r = Some \<lparr>cl_category = c, cl_severity = s, cl_reason = r\<rparr>"

definition classifyV4 :: "bytes \<Rightarrow> classification option" where
  "classifyV4 ip =
     (if isLoopbackV4 ip then mk_class ''loopback'' SeverityMedium ''IPv4 loopback 127.0.0.0/8''
      else if isPrivateV4 ip 10 then mk_class ''private'' SeverityMedium ''RFC1918 10.0.0.0/8''
      else if isPrivateV4 ip 172 then mk_class ''private'' SeverityMedium ''RFC1918 172.16.0.0/12''
      else if isPrivateV4 ip 192 then mk_class ''private'' SeverityMedium ''RFC1918 192.168.0.0/16''
      else if ip ! 0 = 169 \<and> ip ! 1 = 254
        then mk_class ''link-local'' SeverityLow ''link-local 169.254.0.0/16''
      else if isDocV4 ip
        then mk_class ''documentation'' SeverityLow ''documentation 198.51.100.0/24 / 203.0.113.0/24''
      else if ip ! 0 = 192 \<and> ip ! 1 = 0 \<and> ip ! 2 = 0 \<and> ip ! 3 = 2
        then mk_class ''reserved'' SeverityLow ''reserved 192.0.0.0/24''
      else if 224 \<le> ip ! 0
        then mk_class ''reserved'' SeverityLow ''reserved/multicast/unicast-multicast''
      else None)"

definition classifyV6 :: "bytes \<Rightarrow> classification option" where
  "classifyV6 ip =
     (if isLoopbackV6 ip then mk_class ''loopback'' SeverityMedium ''IPv6 loopback ::1''
      else if isUniqueLocalV6 ip then mk_class ''private'' SeverityMedium ''IPv6 unique-local fc00::/7''
      else if isLinkLocalV6 ip then mk_class ''link-local'' SeverityLow ''IPv6 link-local fe80::/10''
      else if isUnspecifiedV6 ip then mk_class ''reserved'' SeverityLow ''IPv6 unspecified ::''
      else None)"

definition classify :: "bytes option \<Rightarrow> classification option" where
  "classify ip =
     (case ip of None \<Rightarrow> None
      | Some ip \<Rightarrow>
        (case to4 ip of Some v4 \<Rightarrow> classifyV4 v4
         | None \<Rightarrow> (case to16 ip of Some v6 \<Rightarrow> classifyV6 v6 | None \<Rightarrow> None)))"

definition classificationRule :: "string \<Rightarrow> rule option" where
  "classificationRule category =
     (if category = ''private'' then Some AddrPrivate
      else if category = ''loopback'' then Some AddrLoopback
      else if category = ''link-local'' then Some AddrLocal
      else if category = ''reserved'' then Some AddrReserved
      else if category = ''documentation'' then Some AddrDocumentation
      else None)"

section \<open>The check\<close>

definition dnsutilAddrs :: "rr option \<Rightarrow> bytes list" where
  "dnsutilAddrs r = (case r of None \<Rightarrow> []
     | Some r \<Rightarrow> (case rr_data r of
         A_RR ip \<Rightarrow> (case ip of None \<Rightarrow> [] | Some ip \<Rightarrow> [ip])
       | AAAA_RR ip \<Rightarrow> (case ip of None \<Rightarrow> [] | Some ip \<Rightarrow> [ip])
       | _ \<Rightarrow> []))"

text \<open>The loop over the addresses, with the \<^verbatim>\<open>seen\<close> map of their texts.\<close>

fun checkAddrs :: "string \<Rightarrow> string list \<Rightarrow> bytes list \<Rightarrow> finding list" where
  "checkAddrs zone seen [] = []"
| "checkAddrs zone seen (ip # ips) =
     (case classify (Some ip) of
        None \<Rightarrow> checkAddrs zone seen ips
      | Some c \<Rightarrow>
        (let key = ipString ip in
         if key \<in> set seen then checkAddrs zone seen ips
         else (case classificationRule (cl_category c) of
             None \<Rightarrow> checkAddrs zone (key # seen) ips
           | Some rule \<Rightarrow>
               withZone (ruleNew rule (ipString ip) (cl_reason c) [''address '' @ ipString ip]) zone
                 # checkAddrs zone (key # seen) ips)))"

definition addrsCheckAll :: "string \<Rightarrow> section_rrs \<Rightarrow> finding list" where
  "addrsCheckAll zone records = checkAddrs zone [] (concat (map dnsutilAddrs records))"

section \<open>Lemmas\<close>

lemma classificationRule_catalog: "classificationRule c = Some r \<Longrightarrow> r \<in> set catalogRules"
  by (auto simp: classificationRule_def split: if_splits)

lemma classify_rule: "classify ip = Some c \<Longrightarrow> classificationRule (cl_category c) \<noteq> None"
  by (auto simp: classify_def classifyV4_def classifyV6_def mk_class_def classificationRule_def
      split: option.splits if_splits)

lemma checkAddrs_wf: "f \<in> set (checkAddrs zone seen ips) \<Longrightarrow> wf_finding f"
  by (induction zone seen ips rule: checkAddrs.induct)
    (auto simp: Let_def dest: classificationRule_catalog split: option.splits if_splits)

interpretation addrs: checker "\<lambda>(zone, records). addrsCheckAll zone records"
  by unfold_locales (auto simp: addrsCheckAll_def dest: checkAddrs_wf)

text \<open>The subjects reported: the texts of the flagged addresses, each once.\<close>

lemma checkAddrs_subjects:
  "f_subject ` set (checkAddrs zone seen ips)
     = ipString ` {ip \<in> set ips. classify (Some ip) \<noteq> None} - set seen"
proof (induction zone seen ips rule: checkAddrs.induct)
  case (2 zone seen ip ips)
  show ?case
  proof (cases "classify (Some ip)")
    case None
    have "{x \<in> set (ip # ips). classify (Some x) \<noteq> None} = {x \<in> set ips. classify (Some x) \<noteq> None}"
      using None by auto
    then show ?thesis using None 2(1) by simp
  next
    case (Some c)
    then obtain r where r: "classificationRule (cl_category c) = Some r"
      using classify_rule by blast
    have s: "{x \<in> set (ip # ips). classify (Some x) \<noteq> None}
        = insert ip {x \<in> set ips. classify (Some x) \<noteq> None}"
      using Some by auto
    show ?thesis
    proof (cases "ipString ip \<in> set seen")
      case True
      then show ?thesis using Some 2(2) unfolding s by (auto simp: Let_def)
    next
      case False
      then show ?thesis using Some r 2(4) unfolding s by (auto simp: Let_def)
    qed
  qed
qed simp

lemma checkAddrs_distinct: "distinct (map f_subject (checkAddrs zone seen ips))"
proof (induction zone seen ips rule: checkAddrs.induct)
  case (2 zone seen ip ips)
  have "ipString ip \<notin> f_subject ` set (checkAddrs zone (ipString ip # seen) ips)"
    by (simp add: checkAddrs_subjects)
  then show ?case
    using 2 by (auto simp: Let_def split: option.splits)
qed simp

section \<open>What is flagged\<close>

text \<open>The prefixes of IPv4 that the classification flags, on the four bytes of the address.\<close>

definition flagged_v4 :: "byte \<Rightarrow> byte \<Rightarrow> byte \<Rightarrow> bool" where
  "flagged_v4 a b c \<longleftrightarrow> a = 10 \<or> a = 127 \<or> (a = 172 \<and> 16 \<le> b \<and> b \<le> 31) \<or> a = 192 \<or>
     (a = 169 \<and> b = 254) \<or> (a = 198 \<and> b = 51 \<and> c = 100) \<or> (a = 203 \<and> b = 0 \<and> c = 113) \<or> 224 \<le> a"

lemma classify_v4: "classify (Some [a, b, c, d]) \<noteq> None \<longleftrightarrow> flagged_v4 a b c"
  by (auto simp: classify_def to4_def classifyV4_def mk_class_def flagged_v4_def isLoopbackV4_def
      isPrivateV4_def isDocV4_def)

lemma dnsutilAddrs_set:
  "set (concat (map dnsutilAddrs records)) =
     {ip. \<exists>r. Some r \<in> set records \<and> (rr_data r = A_RR (Some ip) \<or> rr_data r = AAAA_RR (Some ip))}"
proof -
  have "ip \<in> set (dnsutilAddrs x) \<longleftrightarrow> (\<exists>r. x = Some r \<and> (rr_data r = A_RR (Some ip) \<or> rr_data r = AAAA_RR (Some ip)))" for ip x
  proof (cases x)
    case (Some r)
    then show ?thesis by (cases "rr_data r") (auto simp: dnsutilAddrs_def split: option.splits)
  qed (simp add: dnsutilAddrs_def)
  then show ?thesis by auto
qed

text \<open>
  The addresses reported: one finding for each distinct flagged address of the records, named by
  its text, however often it occurs; an IPv4 address is flagged exactly in loopback, 10.0.0.0/8,
  172.16.0.0/12, link-local, the two documentation networks, everything from 224.0.0.0, and the
  whole of 192.0.0.0/8, of which only 192.168.0.0/16 is private.
\<close>

theorem addrs_reported:
  "f_subject ` set (addrsCheckAll zone records) =
     ipString ` {ip \<in> set (concat (map dnsutilAddrs records)). classify (Some ip) \<noteq> None} \<and>
   distinct (map f_subject (addrsCheckAll zone records)) \<and>
   (classify (Some [a, b, c, d]) \<noteq> None) = flagged_v4 a b c"
  unfolding addrsCheckAll_def classify_v4 checkAddrs_subjects by (simp add: checkAddrs_distinct)

end
