(* ===== verification/Delegation.thy ===== *)
theory Delegation
  imports DnsUtil Catalog
begin

text \<open>
  \<^verbatim>\<open>internal/delegation/delegation.go\<close>: the name servers the parent lists against those
  the child lists, and the glue of the in-bailiwick ones.
\<close>

section \<open>Views\<close>

record parent_view =
  pv_ns :: "string list"
  pv_nsrr :: "rr list"
  pv_glue :: "(string \<times> bytes option list) list"
  pv_glueAAAA :: "(string \<times> bytes option list) list"
  pv_nsFromParent :: "rr list"

record child_view =
  cv_ns :: "string list"
  cv_nsrr :: "rr list"
  cv_nsaddr :: "(string \<times> bytes option list) list"
  cv_nsaddrAAAA :: "(string \<times> bytes option list) list"
  cv_authoritative :: bool

section \<open>Helpers\<close>

definition sortedNames :: "string list \<Rightarrow> string list" where
  "sortedNames names = sort names"

definition equalSets :: "string list \<Rightarrow> string list \<Rightarrow> bool" where
  "equalSets a b =
     (if length a \<noteq> length b then False else list_all (\<lambda>i. a ! i = b ! i) [0..<length a])"

definition containsName :: "string list \<Rightarrow> string \<Rightarrow> bool" where
  "containsName xs s = list_ex (\<lambda>x. x = s) xs"

definition isSubDomain :: "dnslib \<Rightarrow> string \<Rightarrow> string \<Rightarrow> bool" where
  "isSubDomain L name zone =
     (let n = fqdn L (to_lower name); z = fqdn L (to_lower zone)
      in n = z \<or> has_suffix n (CHR ''.'' # z))"

section \<open>Views from responses\<close>

definition glue_of :: "(rdata \<Rightarrow> bytes option option) \<Rightarrow> rr list \<Rightarrow> (string \<times> bytes option list) list" where
  "glue_of sel rs = fold (\<lambda>r m. case sel (rr_data r) of
      None \<Rightarrow> m | Some ip \<Rightarrow> add_to (to_lower (rr_name r)) ip m) rs []"

definition a_addr :: "rdata \<Rightarrow> bytes option option" where
  "a_addr d = (case d of A_RR ip \<Rightarrow> Some ip | _ \<Rightarrow> None)"

definition aaaa_addr :: "rdata \<Rightarrow> bytes option option" where
  "aaaa_addr d = (case d of AAAA_RR ip \<Rightarrow> Some ip | _ \<Rightarrow> None)"

definition apex_ns :: "dnslib \<Rightarrow> msg \<Rightarrow> string \<Rightarrow> rr list" where
  "apex_ns L resp name = (let f = fqdn L (to_lower name)
     in slot (rrByName L (m_answer resp)) f @ slot (rrByName L (m_ns resp)) f)"

definition extractNSFromResponse :: "dnslib \<Rightarrow> msg \<Rightarrow> string \<Rightarrow> parent_view" where
  "extractNSFromResponse L resp name =
     (let nsRR = apex_ns L resp name in
      \<lparr>pv_ns = nsNames (map Some nsRR), pv_nsrr = nsRR,
       pv_glue = glue_of a_addr (somes (m_answer resp)),
       pv_glueAAAA = glue_of aaaa_addr (somes (m_answer resp)), pv_nsFromParent = []\<rparr>)"

definition extractChildFromResponse :: "dnslib \<Rightarrow> msg \<Rightarrow> string \<Rightarrow> child_view" where
  "extractChildFromResponse L resp zone =
     (let nsRR = apex_ns L resp zone; rrs = somes (m_answer resp @ m_ns resp) in
      \<lparr>cv_ns = nsNames (map Some nsRR), cv_nsrr = nsRR,
       cv_nsaddr = glue_of a_addr rrs, cv_nsaddrAAAA = glue_of aaaa_addr rrs,
       cv_authoritative = False\<rparr>)"

section \<open>Compare\<close>

definition no_glue :: "parent_view \<Rightarrow> string \<Rightarrow> bool" where
  "no_glue parent h \<longleftrightarrow> length (slot (pv_glue parent) h) = 0 \<and> length (slot (pv_glueAAAA parent) h) = 0"

definition delegationCompare :: "dnslib \<Rightarrow> string \<Rightarrow> parent_view \<Rightarrow> child_view \<Rightarrow> finding list" where
  "delegationCompare L zone parent child =
     (let parentNS = sortedNames (pv_ns parent); childNS = sortedNames (cv_ns child) in
      (if \<not> equalSets parentNS childNS
       then [ruleNew DelegInconsistentNS zone
               ''The parent zone delegates with a different set of name servers than the child authoritative server claims to serve.''
               [''parent NS: '' @ list_str parentNS, ''child NS: '' @ list_str childNS]]
       else [])
      @ (if \<not> cv_authoritative child \<and> 0 < length (cv_ns child)
         then [withZone (ruleNew DelegLame ''zone apex''
               ''The authoritative server for the zone did not respond authoritatively (AA=0) to a zone NS/SOA query.''
               []) zone]
         else [])
      @ map (\<lambda>h. withZone (ruleNew DelegNonAuthNS h
               ''The parent lists a name server that the child authoritative server does not include in its own NS set.''
               [''parent NS: '' @ h]) zone)
          (filter (\<lambda>h. \<not> containsName childNS h) parentNS)
      @ map (\<lambda>h. withZone (ruleNew DelegMissingGlue h
               ''An in-bailiwick name server has no glue A/AAAA records, so resolvers cannot reach it.''
               [''NS '' @ h @ '' has no glue'']) zone)
          (filter (\<lambda>h. isSubDomain L h zone \<and> no_glue parent h) parentNS))"

section \<open>Lemmas\<close>

lemma equalSets_iff: "equalSets a b \<longleftrightarrow> a = b"
  by (auto simp: equalSets_def list_all_iff intro: nth_equalityI)

lemma containsName_iff: "containsName xs s \<longleftrightarrow> s \<in> set xs"
  by (auto simp: containsName_def list_ex_iff)

lemma set_sortedNames [simp]: "set (sortedNames xs) = set xs"
  by (simp add: sortedNames_def)

lemma equalSets_sorted:
  assumes "distinct a" and "distinct b"
  shows "equalSets (sortedNames a) (sortedNames b) \<longleftrightarrow> set a = set b"
  using assms sorted_distinct_set_unique [of "sort a" "sort b"]
  by (auto simp: equalSets_iff sortedNames_def dest: arg_cong [where f = set])

lemma distinct_nsNames: "distinct (nsNames rs)"
  by (simp add: nsNames_def)

lemma delegationCompare_wf: "f \<in> set (delegationCompare L zone p c) \<Longrightarrow> wf_finding f"
  by (auto simp: delegationCompare_def Let_def split: if_splits)

interpretation delegation: checker "\<lambda>(L, zone, p, c). delegationCompare L zone p c"
  by unfold_locales (auto dest: delegationCompare_wf)

text \<open>The name server records the view rests on: those owned by the zone name.\<close>

lemma set_apex_ns:
  "set (apex_ns L resp name) = {r. (Some r \<in> set (m_answer resp) \<or> Some r \<in> set (m_ns resp)) \<and>
      normName (fqdn L (rr_name r)) = fqdn L (to_lower name)}"
  by (auto simp: apex_ns_def Let_def slot_rrByName set_somes)

lemma ns_target_Some: "ns_target r = Some n \<longleftrightarrow> (\<exists>t. rr_data r = NS_RR t \<and> n = normName t)"
  by (auto simp: ns_target_def split: rdata.splits)

lemma set_nsNames: "set (nsNames rs) = {normName t |r t. Some r \<in> set rs \<and> rr_data r = NS_RR t}"
  unfolding nsNames_def set_dedup_on_id set_map_filter ns_target_Some Bex_def set_somes by blast

lemma slot_glue_of:
  "slot (glue_of sel rs) h = List.map_filter (\<lambda>r. if to_lower (rr_name r) = h then sel (rr_data r) else None) rs"
proof -
  have "slot (fold (\<lambda>r m. case sel (rr_data r) of
      None \<Rightarrow> m | Some ip \<Rightarrow> add_to (to_lower (rr_name r)) ip m) rs m) h
    = slot m h @ List.map_filter (\<lambda>r. if to_lower (rr_name r) = h then sel (rr_data r) else None) rs" for m
    by (induction rs arbitrary: m) (auto simp: List.map_filter_def slot_add_to split: option.splits)
  from this [of "[]"] show ?thesis by (simp add: glue_of_def)
qed

section \<open>What the comparison reports\<close>

lemma delegation_ids:
  "distinct [r_id DelegInconsistentNS, r_id DelegLame, r_id DelegNonAuthNS, r_id DelegMissingGlue]"
  by (simp add: DelegMissingGlue_def DelegNonAuthNS_def DelegInconsistentNS_def DelegLame_def)

lemma delegation_subjects:
  "subjects_of DelegMissingGlue (delegationCompare L zone parent child)
     = {h \<in> set (pv_ns parent). isSubDomain L h zone \<and> no_glue parent h}"
  "subjects_of DelegNonAuthNS (delegationCompare L zone parent child) = set (pv_ns parent) - set (cv_ns child)"
  "subjects_of DelegInconsistentNS (delegationCompare L zone parent child)
     = (if equalSets (sortedNames (pv_ns parent)) (sortedNames (cv_ns child)) then {} else {zone})"
  "subjects_of DelegLame (delegationCompare L zone parent child)
     = (if \<not> cv_authoritative child \<and> cv_ns child \<noteq> [] then {''zone apex''} else {})"
  using delegation_ids by (auto simp: delegationCompare_def Let_def containsName_iff subjects_of_map)

lemma delegation_views:
  assumes "child = (extractChildFromResponse L cresp zone')\<lparr>cv_authoritative := aa\<rparr>"
    and "parent = extractNSFromResponse L presp zone"
  shows "(subjects_of DelegInconsistentNS (delegationCompare L zone parent child) \<noteq> {})
      = (set (nsNames (map Some (apex_ns L presp zone))) \<noteq> set (nsNames (map Some (apex_ns L cresp zone')))) \<and>
    subjects_of DelegNonAuthNS (delegationCompare L zone parent child)
      = set (nsNames (map Some (apex_ns L presp zone))) - set (nsNames (map Some (apex_ns L cresp zone'))) \<and>
    subjects_of DelegMissingGlue (delegationCompare L zone parent child)
      = {h \<in> set (nsNames (map Some (apex_ns L presp zone))). isSubDomain L h zone \<and>
          \<not> (\<exists>r ip. Some r \<in> set (m_answer presp) \<and> to_lower (rr_name r) = h \<and> rr_data r \<in> {A_RR ip, AAAA_RR ip})}"
proof -
  have ns: "pv_ns parent = nsNames (map Some (apex_ns L presp zone))"
    "cv_ns child = nsNames (map Some (apex_ns L cresp zone'))"
    using assms by (simp_all add: extractNSFromResponse_def extractChildFromResponse_def Let_def)
  have sel: "a_addr d = Some ip \<longleftrightarrow> d = A_RR ip" "aaaa_addr d = Some ip \<longleftrightarrow> d = AAAA_RR ip" for d ip
    by (auto simp: a_addr_def aaaa_addr_def split: rdata.splits)
  have empty: "List.map_filter f xs = [] \<longleftrightarrow> (\<forall>x \<in> set xs. f x = None)" for f :: "rr \<Rightarrow> bytes option option" and xs
    by (induction xs) (auto simp: List.map_filter_def split: option.splits)
  have g: "slot (pv_glue parent) h = [] \<longleftrightarrow> \<not> (\<exists>r ip. Some r \<in> set (m_answer presp) \<and> to_lower (rr_name r) = h \<and> rr_data r = A_RR ip)"
    "slot (pv_glueAAAA parent) h = [] \<longleftrightarrow> \<not> (\<exists>r ip. Some r \<in> set (m_answer presp) \<and> to_lower (rr_name r) = h \<and> rr_data r = AAAA_RR ip)" for h
    using assms(2) by (auto simp: extractNSFromResponse_def Let_def slot_glue_of empty set_somes sel [symmetric] split: if_splits)
  have glue: "no_glue parent h \<longleftrightarrow>
      \<not> (\<exists>r ip. Some r \<in> set (m_answer presp) \<and> to_lower (rr_name r) = h \<and> rr_data r \<in> {A_RR ip, AAAA_RR ip})" for h
    unfolding no_glue_def by (auto simp: g)
  show ?thesis
    unfolding delegation_subjects ns glue using equalSets_sorted [OF distinct_nsNames distinct_nsNames] by simp
qed

text \<open>
  C31. The comparison of parent and child, on the views taken from their responses: the sets differ is
  reported exactly when the two responses name different servers in the NS records of the zone,
  whatever their order, case and repetition; a server is reported as missing at the child exactly
  when only the parent names it; and as lacking glue exactly when it lies in the zone and the
  parent's answer has no address record of its name.
\<close>

theorem delegation_reports:
  "let fs = delegationCompare L zone (extractNSFromResponse L presp zone)
         ((extractChildFromResponse L cresp zone')\<lparr>cv_authoritative := aa\<rparr>);
       P = set (nsNames (map Some (apex_ns L presp zone)));
       C = set (nsNames (map Some (apex_ns L cresp zone')))
   in (subjects_of DelegInconsistentNS fs \<noteq> {}) = (P \<noteq> C) \<and>
      subjects_of DelegNonAuthNS fs = P - C \<and>
      subjects_of DelegMissingGlue fs = {h \<in> P. isSubDomain L h zone \<and>
        \<not> (\<exists>r ip. Some r \<in> set (m_answer presp) \<and> to_lower (rr_name r) = h \<and> rr_data r \<in> {A_RR ip, AAAA_RR ip})}"
  using delegation_views [OF refl refl] by (simp only: Let_def)

end
