(* ===== verification/AuthServer.thy ===== *)
theory AuthServer
  imports DnsUtil Catalog
begin

text \<open>
  \<^verbatim>\<open>internal/authserver/authserver.go\<close>: the evaluation of one probe of a name server.
\<close>

record probe_result =
  pr_host :: string
  pr_udp :: bool
  pr_tcp :: bool
  pr_aa :: bool
  pr_soa :: bool
  pr_hasns :: bool
  pr_edns :: bool
  pr_consistent :: bool
  pr_errors :: "string list"

definition new_probe :: probe_result where
  "new_probe = \<lparr>pr_host = '''', pr_udp = False, pr_tcp = False, pr_aa = False, pr_soa = False,
     pr_hasns = False, pr_edns = False, pr_consistent = False, pr_errors = []\<rparr>"

definition checkServer :: "string \<Rightarrow> string \<Rightarrow> probe_result option \<Rightarrow> finding list" where
  "checkServer zone server r =
     (case r of
        None \<Rightarrow> [withZone (ruleNew AuthUDPFail server ''The name server could not be reached.''
                   [''server '' @ server]) zone]
      | Some r \<Rightarrow>
          (if \<not> pr_udp r then [withZone (ruleNew AuthUDPFail server
              ''The authoritative server did not answer over UDP.'' [''server '' @ server]) zone] else [])
        @ (if \<not> pr_tcp r then [withZone (ruleNew AuthTCPFail server
              ''The authoritative server did not answer over TCP (needed for large responses and AXFR).'' []) zone] else [])
        @ (if pr_udp r \<and> \<not> pr_aa r then [withZone (ruleNew AuthNoAA server
              ''The server answered but did not set the AA flag for a zone NS/SOA query.'' []) zone] else [])
        @ (if pr_udp r \<and> \<not> pr_soa r then [withZone (ruleNew AuthNoSOA server
              ''The authoritative server did not include the zone SOA in the authority section.'' []) zone] else [])
        @ (if pr_udp r \<and> \<not> pr_hasns r then [withZone (ruleNew AuthNoNS server
              ''The authoritative server did not include NS records for the zone apex.'' []) zone] else [])
        @ (if pr_udp r \<and> \<not> pr_edns r then [withZone (ruleNew AuthNoEDNS server
              ''The server does not support EDNS0 with the DO bit; DNSSEC responses may be truncated.'' []) zone] else [])
        @ (if \<not> pr_consistent r then [withZone (ruleNew AuthInconsistent server
              ''The server returned inconsistent answers across repeated queries.'' []) zone] else []))"

definition is_ns :: "rr option \<Rightarrow> bool" where
  "is_ns r = (case r of None \<Rightarrow> False | Some r \<Rightarrow> (case rr_data r of NS_RR _ \<Rightarrow> True | _ \<Rightarrow> False))"

definition is_soa :: "rr option \<Rightarrow> bool" where
  "is_soa x \<longleftrightarrow> soaOf [x] \<noteq> None"

text \<open>
  \<^verbatim>\<open>ProbeResponse\<close> reads two fields of the response before it compares the response with
  nil, so a nil response is a panic, here \<^term>\<open>None\<close>.
\<close>

definition probe_soa :: "probe_result \<Rightarrow> rr option \<Rightarrow> probe_result" where
  "probe_soa r x = (if is_soa x then r\<lparr>pr_soa := True\<rparr> else r)"

definition probe_answer :: "probe_result \<Rightarrow> rr option \<Rightarrow> probe_result" where
  "probe_answer r x = (let r = probe_soa r x in if is_ns x then r\<lparr>pr_hasns := True\<rparr> else r)"

definition probeResponse :: "msg option \<Rightarrow> probe_result option" where
  "probeResponse resp =
     (case resp of None \<Rightarrow> None
      | Some resp \<Rightarrow>
          (let r = new_probe\<lparr>pr_aa := m_authoritative resp, pr_edns := m_edns resp \<noteq> None\<rparr>
           in Some (foldl probe_soa (foldl probe_answer r (m_answer resp)) (m_ns resp))))"

section \<open>Lemmas\<close>

lemma checkServer_wf: "f \<in> set (checkServer zone server r) \<Longrightarrow> wf_finding f"
  by (cases r) (auto simp: checkServer_def split: if_splits)

interpretation authserver: checker "\<lambda>(zone, server, r). checkServer zone server r"
  by unfold_locales (auto dest: checkServer_wf)

lemma is_soa_iff: "is_soa x \<longleftrightarrow> (\<exists>r s. x = Some r \<and> rr_data r = SOA_RR s)"
  by (cases x) (auto simp: is_soa_def split: rdata.splits)

text \<open>What the two loops leave in the result, whatever it was before.\<close>

lemma probe_ns_loop:
  "foldl probe_soa r xs = r\<lparr>pr_soa := pr_soa r \<or> list_ex is_soa xs\<rparr>"
  by (induction xs arbitrary: r) (auto simp: probe_soa_def)

lemma probe_answer_loop:
  "foldl probe_answer r xs = r\<lparr>pr_soa := pr_soa r \<or> list_ex is_soa xs,
      pr_hasns := pr_hasns r \<or> list_ex is_ns xs\<rparr>"
  by (induction xs arbitrary: r) (auto simp: probe_answer_def probe_soa_def)

lemma probeResponse_eq:
  "probeResponse (Some m) = Some (new_probe
     \<lparr>pr_aa := m_authoritative m, pr_edns := m_edns m \<noteq> None,
      pr_soa := list_ex is_soa (m_answer m @ m_ns m), pr_hasns := list_ex is_ns (m_answer m)\<rparr>)"
  by (simp add: probeResponse_def Let_def probe_answer_loop probe_ns_loop new_probe_def)

section \<open>What a probe reports\<close>

lemma authserver_ids:
  "distinct [r_id AuthUDPFail, r_id AuthTCPFail, r_id AuthNoAA, r_id AuthNoSOA, r_id AuthNoNS, r_id AuthNoEDNS, r_id AuthInconsistent]"
  by (simp add: AuthUDPFail_def AuthTCPFail_def AuthNoAA_def AuthNoSOA_def AuthNoNS_def AuthNoEDNS_def AuthInconsistent_def)

text \<open>
  What a probe of a name server reports, from its response: a missing AA bit, SOA, apex NS or EDNS0
  exactly when the response lacks it; and, since the probe never makes a TCP or a repeated
  query, always a failing TCP service and inconsistent answers. A missing response is a panic.
\<close>

theorem probe_reports:
  "probeResponse None = None \<and>
   (\<exists>pr. probeResponse (Some m) = Some pr \<and>
      f_id ` set (checkServer zone h (Some (pr\<lparr>pr_udp := True\<rparr>))) =
        {r_id AuthTCPFail, r_id AuthInconsistent}
        \<union> (if m_authoritative m then {} else {r_id AuthNoAA})
        \<union> (if list_ex is_soa (m_answer m @ m_ns m) then {} else {r_id AuthNoSOA})
        \<union> (if list_ex is_ns (m_answer m) then {} else {r_id AuthNoNS})
        \<union> (if m_edns m = None then {r_id AuthNoEDNS} else {}))"
proof
  show "probeResponse None = None" by (simp add: probeResponse_def)
  show "\<exists>pr. probeResponse (Some m) = Some pr \<and>
      f_id ` set (checkServer zone h (Some (pr\<lparr>pr_udp := True\<rparr>))) =
        {r_id AuthTCPFail, r_id AuthInconsistent}
        \<union> (if m_authoritative m then {} else {r_id AuthNoAA})
        \<union> (if list_ex is_soa (m_answer m @ m_ns m) then {} else {r_id AuthNoSOA})
        \<union> (if list_ex is_ns (m_answer m) then {} else {r_id AuthNoNS})
        \<union> (if m_edns m = None then {r_id AuthNoEDNS} else {})"
    unfolding probeResponse_eq by (auto simp: checkServer_def new_probe_def image_Un)
qed

end
