(* ===== verification/Soa.thy ===== *)
theory Soa
  imports DnsUtil Catalog
begin

text \<open>
  \<^verbatim>\<open>internal/soa/soa.go\<close>: checks of a zone's SOA record. The clock is read as a calendar
  date, an argument of the model.
\<close>

record date =
  d_year :: int
  d_month :: int
  d_day :: int

definition validName :: "dnslib \<Rightarrow> string \<Rightarrow> bool" where
  "validName L n =
     (if n = '''' \<or> n = ''.'' then False
      else if \<not> isFqdn L n then False
      else list_all (\<lambda>label. \<not> 63 < length label) (split_on CHR ''.'' n))"

definition date_code :: "date \<Rightarrow> u32" where
  "date_code now = word_of_int (d_year now) * 10000 + word_of_int (d_month now) * 100 + word_of_int (d_day now)"

text \<open>\<^term>\<open>None\<close> is the nil error.\<close>

definition serialIssues :: "date \<Rightarrow> u32 \<Rightarrow> string option" where
  "serialIssues now serial =
     (let year = date_code now in
      if year - 2 \<le> serial \<and> serial \<le> year + 2 then None
      else if 2000010100 < serial then None
      else Some ''serial not in YYYYMMDDnn form'')"

definition scheduleIssues :: "soa \<Rightarrow> string option" where
  "scheduleIssues s =
     (if soa_refresh s \<le> soa_retry s then Some ''retry >= refresh''
      else if soa_expire s = 0 \<or> 0x7fffffff < soa_expire s then Some ''expire out of range''
      else if soa_refresh s = 0 then Some ''refresh is zero''
      else None)"

definition soaCheck :: "dnslib \<Rightarrow> date \<Rightarrow> string \<Rightarrow> soa option \<Rightarrow> finding list" where
  "soaCheck L now zone soa =
     (case soa of None \<Rightarrow> []
      | Some s \<Rightarrow>
          (if \<not> validName L (soa_mbox s) then [ruleNew SOAInvalidRNAME zone
             ''The SOA RNAME (responsible email address) is not a valid domain name.''
             [''RNAME='' @ soa_mbox s]] else [])
        @ (if \<not> validName L (soa_ns s) then [ruleNew SOAInvalidMNAME zone
             ''The SOA MNAME (primary name server) is not a valid domain name.''
             [''MNAME='' @ soa_ns s]] else [])
        @ (if serialIssues now (soa_serial s) \<noteq> None then [ruleNew SOASerialFormat zone
             ''The SOA serial does not resemble the canonical YYYYMMDDnn form and may indicate manual increments.''
             [''serial='' @ word_str (soa_serial s)]] else [])
        @ (case scheduleIssues s of None \<Rightarrow> []
           | Some e \<Rightarrow> [ruleNew SOASchedule zone e
             [''refresh='' @ word_str (soa_refresh s) @ '' retry='' @ word_str (soa_retry s)
              @ '' expire='' @ word_str (soa_expire s) @ '' minimum='' @ word_str (soa_minttl s)]])
        @ (if soa_minttl s < 30 then [ruleNew SOANegativeTTL zone
             ''A very low negative-cache TTL can increase loader queries; treated as info, not a violation.'' []]
           else []))"

section \<open>Lemmas\<close>

lemma soaCheck_wf: "f \<in> set (soaCheck L now zone s) \<Longrightarrow> wf_finding f"
  by (auto simp: soaCheck_def split: if_splits option.splits)

interpretation soa: checker "\<lambda>(L, now, zone, s). soaCheck L now zone s"
  by unfold_locales (auto dest: soaCheck_wf)

text \<open>The last branch of the schedule check cannot be reached.\<close>

lemma scheduleIssues_refresh_zero: "soa_refresh s = 0 \<Longrightarrow> scheduleIssues s = Some ''retry >= refresh''"
  by (simp add: scheduleIssues_def)

section \<open>What is reported\<close>

lemma soa_ids:
  "distinct [r_id SOAInvalidRNAME, r_id SOAInvalidMNAME, r_id SOASerialFormat, r_id SOASchedule, r_id SOANegativeTTL]"
  by (simp add: SOAInvalidRNAME_def SOAInvalidMNAME_def SOASerialFormat_def SOASchedule_def SOANegativeTTL_def)

definition real_date :: "date \<Rightarrow> bool" where
  "real_date d \<longleftrightarrow> 1 \<le> d_year d \<and> d_year d \<le> 9999 \<and> 1 \<le> d_month d \<and> d_month d \<le> 12 \<and> 1 \<le> d_day d \<and> d_day d \<le> 31"

lemma date_code_uint:
  "real_date d \<Longrightarrow> uint (date_code d) = d_year d * 10000 + d_month d * 100 + d_day d"
proof -
  assume d: "real_date d"
  have "date_code d = word_of_int (d_year d * 10000 + d_month d * 100 + d_day d)"
    by (simp add: date_code_def)
  moreover have "0 \<le> d_year d * 10000 + d_month d * 100 + d_day d" "d_year d * 10000 + d_month d * 100 + d_day d < 2 ^ 32"
    using d by (auto simp: real_date_def)
  ultimately show ?thesis by (simp only: uint_word_of_int_eq) (simp add: take_bit_int_eq_self)
qed

lemma serialIssues_iff:
  assumes "real_date now"
  shows "serialIssues now s = None \<longleftrightarrow>
    \<bar>uint s - (d_year now * 10000 + d_month now * 100 + d_day now)\<bar> \<le> 2 \<or> 2000010100 < uint s"
proof -
  let ?c = "d_year now * 10000 + d_month now * 100 + d_day now"
  have c: "10101 \<le> ?c" "?c \<le> 99991231" using assms by (auto simp: real_date_def)
  have u: "uint (date_code now) = ?c" by (rule date_code_uint [OF assms])
  have lo: "uint (date_code now - 2) = ?c - 2"
    using c u by (simp add: uint_word_ariths)
  have hi: "uint (date_code now + 2) = ?c + 2"
    using c u by (simp add: uint_word_ariths)
  have "date_code now - 2 \<le> s \<longleftrightarrow> ?c - 2 \<le> uint s" "s \<le> date_code now + 2 \<longleftrightarrow> uint s \<le> ?c + 2"
    by (simp_all add: word_le_def lo hi)
  moreover have "2000010100 < s \<longleftrightarrow> 2000010100 < uint s" by (simp add: word_less_def)
  ultimately show ?thesis by (auto simp: serialIssues_def Let_def)
qed

text \<open>
  What is reported of an SOA record: an invalid name of the responsible person or of the primary
  server; a serial that neither exceeds 2000010100 nor is within two of the eight-digit date of
  today; timers whose retry is not below their refresh or whose expiry is zero or beyond 31
  bits; and a negative TTL below 30.
\<close>

theorem soa_reports:
  assumes "real_date now"
  shows "(subjects_of SOASerialFormat (soaCheck L now zone (Some s)) \<noteq> {}) =
      (\<not> (2000010100 < uint (soa_serial s) \<or>
          \<bar>uint (soa_serial s) - (d_year now * 10000 + d_month now * 100 + d_day now)\<bar> \<le> 2)) \<and>
    (subjects_of SOASchedule (soaCheck L now zone (Some s)) \<noteq> {}) =
      (soa_refresh s \<le> soa_retry s \<or> soa_expire s = 0 \<or> 2147483647 < soa_expire s) \<and>
    (subjects_of SOANegativeTTL (soaCheck L now zone (Some s)) \<noteq> {}) = (soa_minttl s < 30) \<and>
    (subjects_of SOAInvalidRNAME (soaCheck L now zone (Some s)) \<noteq> {}) = (\<not> validName L (soa_mbox s)) \<and>
    (subjects_of SOAInvalidMNAME (soaCheck L now zone (Some s)) \<noteq> {}) = (\<not> validName L (soa_ns s))"
proof -
  have serial: "(serialIssues now (soa_serial s) \<noteq> None) =
      (\<not> (2000010100 < uint (soa_serial s) \<or>
          \<bar>uint (soa_serial s) - (d_year now * 10000 + d_month now * 100 + d_day now)\<bar> \<le> 2))"
    using serialIssues_iff [OF assms, of "soa_serial s"] by argo
  have schedule: "(scheduleIssues s \<noteq> None) =
      (soa_refresh s \<le> soa_retry s \<or> soa_expire s = 0 \<or> 2147483647 < soa_expire s)"
    by (auto simp: scheduleIssues_def)
  have S: "subjects_of r (soaCheck L now zone (Some s)) \<noteq> {} \<longleftrightarrow>
      (\<not> validName L (soa_mbox s) \<and> r_id r = r_id SOAInvalidRNAME) \<or>
      (\<not> validName L (soa_ns s) \<and> r_id r = r_id SOAInvalidMNAME) \<or>
      (serialIssues now (soa_serial s) \<noteq> None \<and> r_id r = r_id SOASerialFormat) \<or>
      (scheduleIssues s \<noteq> None \<and> r_id r = r_id SOASchedule) \<or>
      (soa_minttl s < 30 \<and> r_id r = r_id SOANegativeTTL)" for r
    by (auto simp: soaCheck_def split: option.split)
  show ?thesis unfolding S serial [symmetric] schedule [symmetric] using soa_ids by auto
qed

definition ex_soa :: soa where
  "ex_soa = \<lparr>soa_ns = ''ns.z.'', soa_mbox = ''h.z.'', soa_serial = 20240510, soa_refresh = 7200,
     soa_retry = 900, soa_expire = 1209600, soa_minttl = 300\<rparr>"

theorem soa_reports_witness:
  "subjects_of SOASerialFormat (soaCheck plain_lib \<lparr>d_year = 2024, d_month = 5, d_day = 11\<rparr> ''z.'' (Some ex_soa)) = {}"
  using soa_reports [of "\<lparr>d_year = 2024, d_month = 5, d_day = 11\<rparr>" plain_lib "''z.''" ex_soa]
  by (simp add: real_date_def ex_soa_def)

end
