(* ===== verification/Ttl.thy ===== *)
theory Ttl
  imports DnsUtil Catalog
begin

text \<open>
  \<^verbatim>\<open>internal/ttl/ttl.go\<close>: the smallest TTL seen per record type, judged by a policy profile.
\<close>

section \<open>Profiles\<close>

definition ProfileConservative :: string where "ProfileConservative = ''conservative''"
definition ProfileBalanced :: string where "ProfileBalanced = ''balanced''"
definition ProfileAgile :: string where "ProfileAgile = ''agile''"

lemmas profile_defs = ProfileConservative_def ProfileBalanced_def ProfileAgile_def

text \<open>The smallest acceptable TTL and the extreme threshold.\<close>

definition limits :: "string \<Rightarrow> u32 \<times> u32" where
  "limits p =
     (if p = ProfileConservative then (300, 86400)
      else if p = ProfileBalanced then (60, 604800)
      else if p = ProfileAgile then (10, 604800)
      else (60, 604800))"

section \<open>The collector\<close>

record collector =
  c_values :: "u16 \<rightharpoonup> u32"
  c_records :: "u16 \<rightharpoonup> rr list"

definition newCollector :: collector where
  "newCollector = \<lparr>c_values = Map.empty, c_records = Map.empty\<rparr>"

definition addRR :: "collector \<Rightarrow> rr option \<Rightarrow> collector" where
  "addRR c r =
     (case r of None \<Rightarrow> c
      | Some r \<Rightarrow>
        (let typ = rr_type r; t = rr_ttl r;
             c1 = (case c_values c typ of
                     None \<Rightarrow> c\<lparr>c_values := (c_values c)(typ \<mapsto> t)\<rparr>
                   | Some prev \<Rightarrow> if t < prev then c\<lparr>c_values := (c_values c)(typ \<mapsto> t)\<rparr> else c)
         in c1\<lparr>c_records := (c_records c1)(typ \<mapsto>
              (case c_records c1 typ of None \<Rightarrow> [] | Some rs \<Rightarrow> rs) @ [r])\<rparr>))"

definition collectAll :: "collector \<Rightarrow> msg \<Rightarrow> collector" where
  "collectAll c resp = foldl addRR c (m_answer resp @ m_ns resp)"

section \<open>The check\<close>

definition ttlTypes :: "u16 list" where
  "ttlTypes = [TypeSOA, TypeNS, TypeA, TypeAAAA, TypeMX, TypeCNAME, TypeTXT, TypeCAA, TypeDNSKEY, TypeDS]"

definition ttlJudge :: "dnslib \<Rightarrow> string \<Rightarrow> u32 \<Rightarrow> u32 \<Rightarrow> u16 \<Rightarrow> u32 option \<Rightarrow> finding list" where
  "ttlJudge L zone minTTL extremeTTL typ v =
     (case v of None \<Rightarrow> []
      | Some t \<Rightarrow>
          if t = 0 then []
          else if extremeTTL < t then
            [ruleNew TTLExtreme zone
              ''A very high TTL reduces operational agility and delays propagation of legitimate changes.''
              [typeToString L typ @ '' TTL='' @ word_str t @ '' (limit '' @ word_str extremeTTL @ '')'']]
          else if t < minTTL then
            [ruleNew TTLShort zone
              ''A low TTL is an operational/resilience heuristic: it improves propagation agility but increases query load and reduces cache efficiency. It is not reported as a vulnerability.''
              [typeToString L typ @ '' TTL='' @ word_str t @ '' (profile minimum '' @ word_str minTTL @ '')'']]
          else [])"

definition ttlCheck :: "dnslib \<Rightarrow> string \<Rightarrow> string \<Rightarrow> collector \<Rightarrow> finding list" where
  "ttlCheck L zone profile c =
     (let p = (if profile = '''' then ProfileBalanced else profile);
          (minTTL, extremeTTL) = limits p
      in concat (map (\<lambda>typ. ttlJudge L zone minTTL extremeTTL typ (c_values c typ)) ttlTypes))"

section \<open>Lemmas\<close>

lemma ttlJudge_wf: "f \<in> set (ttlJudge L zone lo hi typ v) \<Longrightarrow> wf_finding f"
  by (auto simp: ttlJudge_def split: option.splits if_splits)

lemma ttlCheck_wf: "f \<in> set (ttlCheck L zone profile c) \<Longrightarrow> wf_finding f"
  by (auto simp: ttlCheck_def Let_def split: prod.splits dest: ttlJudge_wf)

interpretation ttl: checker "\<lambda>(L, zone, profile, c). ttlCheck L zone profile c"
  by unfold_locales (auto dest: ttlCheck_wf)

text \<open>The TTLs of the records of a type.\<close>

definition ttls_of :: "section_rrs \<Rightarrow> u16 \<Rightarrow> u32 set" where
  "ttls_of rs typ = rr_ttl ` {r \<in> set (somes rs). rr_type r = typ}"

lemma finite_ttls_of [simp]: "finite (ttls_of rs typ)"
  by (simp add: ttls_of_def)

lemma ttls_of_snoc:
  "ttls_of (rs @ [x]) typ =
     (case x of Some r \<Rightarrow> if rr_type r = typ then insert (rr_ttl r) (ttls_of rs typ) else ttls_of rs typ
      | None \<Rightarrow> ttls_of rs typ)"
  by (cases x) (auto simp: ttls_of_def)

lemma addRR_values:
  "c_values (addRR c (Some r)) = (c_values c)(rr_type r \<mapsto>
     (case c_values c (rr_type r) of None \<Rightarrow> rr_ttl r | Some p \<Rightarrow> min p (rr_ttl r)))"
  by (auto simp: addRR_def Let_def fun_eq_iff min_def split: option.splits)

lemma addRR_None [simp]: "addRR c None = c"
  by (simp add: addRR_def)

lemma collect_values:
  "c_values (foldl addRR newCollector rs) typ =
     (if ttls_of rs typ = {} then None else Some (Min (ttls_of rs typ)))"
proof (induction rs rule: rev_induct)
  case Nil
  then show ?case by (simp add: newCollector_def ttls_of_def)
next
  case (snoc x rs)
  show ?case
  proof (cases x)
    case None
    then show ?thesis using snoc by (simp add: ttls_of_snoc)
  next
    case (Some r)
    then show ?thesis using snoc by (auto simp: ttls_of_snoc addRR_values min.commute)
  qed
qed

lemma collect_records:
  "(case c_records (foldl addRR newCollector rs) typ of None \<Rightarrow> [] | Some xs \<Rightarrow> xs)
     = filter (\<lambda>r. rr_type r = typ) (somes rs)"
proof (induction rs rule: rev_induct)
  case Nil
  then show ?case by (simp add: newCollector_def)
next
  case (snoc x rs)
  have "c_records (addRR c (Some r)) = (c_records c)(rr_type r \<mapsto>
      (case c_records c (rr_type r) of None \<Rightarrow> [] | Some xs \<Rightarrow> xs) @ [r])" for c r
    by (auto simp: addRR_def Let_def split: option.splits)
  then show ?case using snoc by (cases x) auto
qed

section \<open>What is reported\<close>

lemma ttl_ids: "r_id TTLShort \<noteq> r_id TTLExtreme"
  by (simp add: TTLShort_def TTLExtreme_def)

lemma distinct_ttlTypes: "distinct ttlTypes"
  by (simp add: ttlTypes_def type_defs)

lemma length_filter_concat:
  assumes "\<And>x. x \<in> set xs \<Longrightarrow> length (filter P (f x)) = of_bool (Q x)" and "distinct xs"
  shows "length (filter P (concat (map f xs))) = card {x \<in> set xs. Q x}"
proof -
  have "length (filter P (concat (map f xs))) = length (filter Q xs)"
    using assms(1) by (induction xs) auto
  also have "\<dots> = card {x \<in> set xs. Q x}"
    using assms(2) by (metis distinct_card distinct_filter set_filter)
  finally show ?thesis .
qed

lemma limits_ok: "limits p = (lo, hi) \<Longrightarrow> lo < hi"
  by (auto simp: limits_def split: if_splits)

lemma judge_short:
  "lo < hi \<Longrightarrow> length (filter (\<lambda>f. f_id f = r_id TTLShort) (ttlJudge L zone lo hi t v)) =
     of_bool (\<exists>x. v = Some x \<and> 0 < x \<and> x < lo)"
  using ttl_ids by (cases v) (auto simp: ttlJudge_def word_neq_0_conv)

lemma judge_extreme:
  "lo < hi \<Longrightarrow> length (filter (\<lambda>f. f_id f = r_id TTLExtreme) (ttlJudge L zone lo hi t v)) =
     of_bool (\<exists>x. v = Some x \<and> hi < x)"
  using ttl_ids by (cases v) (auto simp: ttlJudge_def word_neq_0_conv)

text \<open>
  C39. The TTL findings of a response: for each of the ten types judged that has records, the smallest TTL
  of its records decides. A type counts as too short exactly when this TTL is positive and below
  the minimum of the profile, as extreme exactly when it is above the threshold; a smallest TTL of
  zero is never reported.
\<close>

theorem ttl_reports:
  "let p = (if profile = '''' then ProfileBalanced else profile);
       rs = m_answer m @ m_ns m; fs = ttlCheck L zone profile (collectAll newCollector m)
   in length (filter (\<lambda>f. f_id f = r_id TTLShort) fs) =
        card {t \<in> set ttlTypes. ttls_of rs t \<noteq> {} \<and> 0 < Min (ttls_of rs t) \<and> Min (ttls_of rs t) < fst (limits p)} \<and>
      length (filter (\<lambda>f. f_id f = r_id TTLExtreme) fs) =
        card {t \<in> set ttlTypes. ttls_of rs t \<noteq> {} \<and> snd (limits p) < Min (ttls_of rs t)}"
proof -
  let ?p = "if profile = '''' then ProfileBalanced else profile" and ?rs = "m_answer m @ m_ns m"
  obtain lo hi where l: "limits ?p = (lo, hi)" by fastforce
  have lh: "lo < hi" by (rule limits_ok [OF l])
  let ?f = "\<lambda>t. ttlJudge L zone lo hi t (c_values (collectAll newCollector m) t)"
  have v: "c_values (collectAll newCollector m) t = (if ttls_of ?rs t = {} then None else Some (Min (ttls_of ?rs t)))" for t
    unfolding collectAll_def by (rule collect_values)
  have short: "length (filter (\<lambda>f. f_id f = r_id TTLShort) (?f t)) =
      of_bool (ttls_of ?rs t \<noteq> {} \<and> 0 < Min (ttls_of ?rs t) \<and> Min (ttls_of ?rs t) < lo)" for t
    unfolding v judge_short [OF lh] by (cases "ttls_of ?rs t = {}") simp_all
  have extreme: "length (filter (\<lambda>f. f_id f = r_id TTLExtreme) (?f t)) =
      of_bool (ttls_of ?rs t \<noteq> {} \<and> hi < Min (ttls_of ?rs t))" for t
    unfolding v judge_extreme [OF lh] by (cases "ttls_of ?rs t = {}") simp_all
  have c: "ttlCheck L zone profile (collectAll newCollector m) = concat (map ?f ttlTypes)"
    by (simp add: ttlCheck_def Let_def l [simplified])
  show ?thesis
    unfolding Let_def c l fst_conv snd_conv
    by (intro conjI length_filter_concat [OF short distinct_ttlTypes] length_filter_concat [OF extreme distinct_ttlTypes])
qed

end
