(* ===== verification/Caa.thy ===== *)
theory Caa
  imports DnsUtil Catalog
begin

text \<open>
  \<^verbatim>\<open>internal/caa/caa.go\<close>: checks of the CAA records of a zone.
\<close>

definition knownTags :: "string list" where
  "knownTags = [''issue'', ''issuewild'', ''iodef'', ''validationmode'']"

text \<open>
  \<^verbatim>\<open>%q\<close>: quotes and backslashes escaped, control characters by name or as hexadecimal, and
  every byte past ASCII as hexadecimal (Go prints a printable multi-byte character as it is).
\<close>

definition quote_char :: "char \<Rightarrow> string" where
  "quote_char c = (let n = (of_char c :: nat); bs = char_of (92 :: nat) in
     if n = 34 \<or> n = 92 then [bs, c]
     else if 32 \<le> n \<and> n < 127 then [c]
     else if n = 7 then [bs, CHR ''a''] else if n = 8 then [bs, CHR ''b'']
     else if n = 12 then [bs, CHR ''f''] else if n = 10 then [bs, CHR ''n'']
     else if n = 13 then [bs, CHR ''r''] else if n = 9 then [bs, CHR ''t'']
     else if n = 11 then [bs, CHR ''v'']
     else [bs, CHR ''x'', hex_digit (n div 16), hex_digit (n mod 16)])"

definition quote_str :: "string \<Rightarrow> string" where
  "quote_str s = [char_of (34 :: nat)] @ concat (map quote_char s) @ [char_of (34 :: nat)]"

definition validDomainLabel :: "string \<Rightarrow> bool" where
  "validDomainLabel s =
     (if s = '''' \<or> 253 < length s then False
      else list_all (\<lambda>label. \<not> (length label = 0 \<or> 63 < length label)) (split_on CHR ''.'' s))"

definition validateIssue :: "string \<Rightarrow> string" where
  "validateIssue value0 =
     (let (domain0, value) = (case cut_at CHR '';'' value0 of
              Some (a, b) \<Rightarrow> (a, b) | None \<Rightarrow> (value0, value0));
          domain = trim_space domain0
      in if domain = '''' then ''''
         else if \<not> validDomainLabel domain then ''issue issuer domain is malformed''
         else if value \<noteq> '''' \<and> \<not> validDomainLabel value then ''issue target domain is malformed''
         else '''')"

definition validateTag :: "string \<Rightarrow> byte \<Rightarrow> string \<Rightarrow> string" where
  "validateTag tag flag value =
     (if tag = ''issue'' \<or> tag = ''issuewild''
      then (if value = '''' then '''' else validateIssue value)
      else if tag = ''iodef''
      then (if \<not> has_prefix value ''mailto:'' \<and> \<not> has_prefix value ''http://'' \<and> \<not> has_prefix value ''https://''
            then ''iodef value must be a mailto: or URL'' else '''')
      else '''')"

definition caa_of :: "rr \<Rightarrow> caa option" where
  "caa_of r = (case rr_data r of CAA_RR c \<Rightarrow> Some c | _ \<Rightarrow> None)"

definition dnsutilCAA :: "section_rrs \<Rightarrow> caa list" where
  "dnsutilCAA records = List.map_filter caa_of (somes records)"

definition caaRecord :: "string \<Rightarrow> caa \<Rightarrow> finding list" where
  "caaRecord zone c =
     (let tag = to_lower (trim_space (caa_tag c)); issues = validateTag tag (caa_flag c) (caa_value c) in
      (if caa_flag c AND 1 \<noteq> 0 \<and> tag \<notin> set knownTags
       then [ruleNew CAACriticalUnknown zone
          ''A CAA record sets the critical bit for a tag this tool does not recognize; relying on it could block issuance or be ignored.''
          [''flags='' @ word_str (caa_flag c) @ '' tag='' @ quote_str (caa_tag c) @ '' value='' @ quote_str (caa_value c)]]
       else [])
      @ (if issues \<noteq> ''''
         then [ruleNew (ruleWithSeverity CAACriticalUnknown SeverityLow) zone issues
            [''tag='' @ quote_str (caa_tag c) @ '' value='' @ quote_str (caa_value c)]]
         else []))"

definition caaCheck :: "string \<Rightarrow> section_rrs \<Rightarrow> finding list" where
  "caaCheck zone records = concat (map (caaRecord zone) (dnsutilCAA records))"

section \<open>Lemmas\<close>

lemma caaRecord_wf: "f \<in> set (caaRecord zone c) \<Longrightarrow> wf_finding f"
  by (auto simp: caaRecord_def Let_def split: if_splits)

lemma caaCheck_wf: "f \<in> set (caaCheck zone records) \<Longrightarrow> wf_finding f"
  by (auto simp: caaCheck_def dest: caaRecord_wf)

interpretation caa: checker "\<lambda>(zone, records). caaCheck zone records"
  by unfold_locales (auto dest: caaCheck_wf)

lemma caa_of_Some: "caa_of r = Some c \<longleftrightarrow> rr_data r = CAA_RR c"
  by (auto simp: caa_of_def split: rdata.splits)

lemma set_dnsutilCAA: "c \<in> set (dnsutilCAA records) \<longleftrightarrow> (\<exists>r. Some r \<in> set records \<and> rr_data r = CAA_RR c)"
  by (auto simp: dnsutilCAA_def set_map_filter set_somes caa_of_Some)

text \<open>The shape of a valid domain: non-empty labels of at most 63 bytes, 253 bytes in all.\<close>

lemma validDomainLabel_iff:
  "validDomainLabel s \<longleftrightarrow> length s \<le> 253 \<and> (\<forall>l \<in> set (split_on CHR ''.'' s). 1 \<le> length l \<and> length l \<le> 63)"
  by (cases "s = ''''") (auto simp: validDomainLabel_def list_all_iff Suc_le_eq)

section \<open>What is reported\<close>

lemma caa_severity: "r_severity CAACriticalUnknown \<noteq> SeverityLow"
  by (simp add: CAACriticalUnknown_def severity_defs)

definition unknown_critical :: "caa \<Rightarrow> bool" where
  "unknown_critical c \<longleftrightarrow> odd (unat (caa_flag c)) \<and> to_lower (trim_space (caa_tag c)) \<notin> set knownTags"

definition bad_value :: "caa \<Rightarrow> bool" where
  "bad_value c \<longleftrightarrow> validateTag (to_lower (trim_space (caa_tag c))) (caa_flag c) (caa_value c) \<noteq> ''''"

lemma and_one: "(b :: byte) AND 1 \<noteq> 0 \<longleftrightarrow> odd (unat b)"
  by (simp add: and_one_eq odd_iff_mod_2_eq_one flip: unat_eq_zero) (simp add: unat_mod parity_cases)

lemma caaRecord_severities:
  "(\<exists>f \<in> set (caaRecord zone c). f_severity f = r_severity CAACriticalUnknown) = unknown_critical c"
  "(\<exists>f \<in> set (caaRecord zone c). f_severity f = SeverityLow) = bad_value c"
  using caa_severity by (auto simp: caaRecord_def Let_def unknown_critical_def bad_value_def and_one)

lemma caaCheck_found:
  "(\<exists>f \<in> set (caaCheck zone records). P f) =
     (\<exists>r c. Some r \<in> set records \<and> rr_data r = CAA_RR c \<and> (\<exists>f \<in> set (caaRecord zone c). P f))"
  unfolding caaCheck_def by (simp add: Bex_def set_dnsutilCAA) blast

text \<open>
  C40. The CAA findings: a record with an unknown tag is reported at the severity of the rule exactly when
  the lowest bit of its flags is set, so the critical flag 128 of RFC 8659 alone never is; and a
  record whose value does not fit its tag is reported at low severity.
\<close>

theorem caa_reports:
  "(\<exists>f \<in> set (caaCheck zone records). f_severity f = r_severity CAACriticalUnknown)
     = (\<exists>r c. Some r \<in> set records \<and> rr_data r = CAA_RR c \<and> unknown_critical c) \<and>
   (\<exists>f \<in> set (caaCheck zone records). f_severity f = SeverityLow)
     = (\<exists>r c. Some r \<in> set records \<and> rr_data r = CAA_RR c \<and> bad_value c) \<and>
   \<not> unknown_critical (c\<lparr>caa_flag := 128\<rparr>)"
  unfolding caaCheck_found caaRecord_severities by (auto simp: unknown_critical_def)

end
