(* ===== verification/Nsec.thy ===== *)
theory Nsec
  imports DnsUtil Catalog
begin

text \<open>
  \<^verbatim>\<open>internal/nsec/nsec.go\<close>: presence of NSEC and NSEC3 records and their parameters.
\<close>

record assessment =
  as_nsec :: bool
  as_nsec3 :: bool
  as_iter :: int
  as_salt :: int
  as_malformed :: bool

definition new_assessment :: assessment where
  "new_assessment = \<lparr>as_nsec = False, as_nsec3 = False, as_iter = 0, as_salt = 0, as_malformed = False\<rparr>"

definition analyzeRR :: "assessment \<Rightarrow> rr option \<Rightarrow> assessment" where
  "analyzeRR a x =
     (case x of None \<Rightarrow> a
      | Some r \<Rightarrow>
        (case rr_data r of
           NSEC_RR _ _ \<Rightarrow> a\<lparr>as_nsec := True\<rparr>
         | NSEC3_RR n \<Rightarrow>
             (let a1 = a\<lparr>as_nsec3 := True, as_iter := uint (n3_iterations n), as_salt := uint (n3_saltlength n)\<rparr>;
                  a2 = (if n3_iterations n = 0 \<and> n3_saltlength n = 0 then a1\<lparr>as_malformed := True\<rparr> else a1)
              in if 10000 < n3_iterations n then a2\<lparr>as_malformed := True\<rparr> else a2)
         | _ \<Rightarrow> a))"

definition nsecAnalyze :: "section_rrs \<Rightarrow> assessment" where
  "nsecAnalyze records = foldl analyzeRR new_assessment records"

definition nsecCheck :: "string \<Rightarrow> assessment \<Rightarrow> finding list" where
  "nsecCheck zone a =
     (if \<not> as_nsec a \<and> \<not> as_nsec3 a then [ruleNew DNSSECNoNSEC zone
        ''The zone does not publish NSEC or NSEC3 records; NSEC/NSEC3 provides authenticated denial of existence.'' []]
      else [])
     @ (if as_malformed a then [ruleNew DNSSECMalformedNSEC3 zone
        ''NSEC3 has zero or excessive iterations, or no salt, which weakens or breaks the hash.''
        [''iterations='' @ int_str (as_iter a) @ '' salt_length='' @ int_str (as_salt a)]]
      else [])"

definition nsec3Supported :: "assessment \<Rightarrow> bool" where
  "nsec3Supported a = as_nsec3 a"

section \<open>Lemmas\<close>

lemma nsecCheck_wf: "f \<in> set (nsecCheck zone a) \<Longrightarrow> wf_finding f"
  by (auto simp: nsecCheck_def split: if_splits)

interpretation nsec: checker "\<lambda>(zone, a). nsecCheck zone a"
  by unfold_locales (auto dest: nsecCheck_wf)

definition has_nsec :: "rr option \<Rightarrow> bool" where
  "has_nsec x \<longleftrightarrow> (\<exists>r. x = Some r \<and> (case rr_data r of NSEC_RR _ _ \<Rightarrow> True | _ \<Rightarrow> False))"

definition nsec3_of :: "rr option \<Rightarrow> nsec3 option" where
  "nsec3_of x = (case x of None \<Rightarrow> None
     | Some r \<Rightarrow> (case rr_data r of NSEC3_RR n \<Rightarrow> Some n | _ \<Rightarrow> None))"

definition bad_nsec3 :: "nsec3 \<Rightarrow> bool" where
  "bad_nsec3 n \<longleftrightarrow> (n3_iterations n = 0 \<and> n3_saltlength n = 0) \<or> 10000 < n3_iterations n"

lemma analyzeRR_fields:
  "as_nsec (analyzeRR a x) \<longleftrightarrow> as_nsec a \<or> has_nsec x"
  "as_nsec3 (analyzeRR a x) \<longleftrightarrow> as_nsec3 a \<or> nsec3_of x \<noteq> None"
  "as_malformed (analyzeRR a x) \<longleftrightarrow> as_malformed a \<or> (\<exists>n. nsec3_of x = Some n \<and> bad_nsec3 n)"
  by (auto simp: analyzeRR_def has_nsec_def nsec3_of_def bad_nsec3_def Let_def
      split: option.splits rdata.splits)

text \<open>The assessment over the whole list: presence of each kind, malformed when one record is.\<close>

lemma nsecAnalyze_fields:
  "as_nsec (nsecAnalyze rs) \<longleftrightarrow> (\<exists>x \<in> set rs. has_nsec x)"
  "as_nsec3 (nsecAnalyze rs) \<longleftrightarrow> (\<exists>x \<in> set rs. nsec3_of x \<noteq> None)"
  "as_malformed (nsecAnalyze rs) \<longleftrightarrow> (\<exists>x \<in> set rs. \<exists>n. nsec3_of x = Some n \<and> bad_nsec3 n)"
proof -
  have "as_nsec (foldl analyzeRR a rs) \<longleftrightarrow> as_nsec a \<or> (\<exists>x \<in> set rs. has_nsec x)"
    "as_nsec3 (foldl analyzeRR a rs) \<longleftrightarrow> as_nsec3 a \<or> (\<exists>x \<in> set rs. nsec3_of x \<noteq> None)"
    "as_malformed (foldl analyzeRR a rs) \<longleftrightarrow>
       as_malformed a \<or> (\<exists>x \<in> set rs. \<exists>n. nsec3_of x = Some n \<and> bad_nsec3 n)" for a
    by (induction rs arbitrary: a) (auto simp: analyzeRR_fields)
  then show
    "as_nsec (nsecAnalyze rs) \<longleftrightarrow> (\<exists>x \<in> set rs. has_nsec x)"
    "as_nsec3 (nsecAnalyze rs) \<longleftrightarrow> (\<exists>x \<in> set rs. nsec3_of x \<noteq> None)"
    "as_malformed (nsecAnalyze rs) \<longleftrightarrow> (\<exists>x \<in> set rs. \<exists>n. nsec3_of x = Some n \<and> bad_nsec3 n)"
    by (simp_all add: nsecAnalyze_def new_assessment_def)
qed

section \<open>What is reported\<close>

text \<open>
  The findings on denial of existence: none of the records being NSEC or NSEC3 is reported exactly
  then, and malformed parameters exactly when some NSEC3 record has neither iterations nor a
  salt, the setting that RFC 9276 asks for, or more than 10000 iterations.
\<close>

theorem nsec_reports:
  "(subjects_of DNSSECNoNSEC (nsecCheck zone (nsecAnalyze rs)) \<noteq> {}) =
     (\<not> (\<exists>x \<in> set rs. has_nsec x) \<and> \<not> (\<exists>x \<in> set rs. \<exists>n. nsec3_of x = Some n)) \<and>
   (subjects_of DNSSECMalformedNSEC3 (nsecCheck zone (nsecAnalyze rs)) \<noteq> {}) =
     (\<exists>x \<in> set rs. \<exists>n. nsec3_of x = Some n \<and>
        ((n3_iterations n = 0 \<and> n3_saltlength n = 0) \<or> 10000 < n3_iterations n))"
proof -
  have ids: "r_id DNSSECNoNSEC \<noteq> r_id DNSSECMalformedNSEC3" by (simp add: DNSSECNoNSEC_def DNSSECMalformedNSEC3_def)
  have C: "(subjects_of DNSSECNoNSEC (nsecCheck zone a) \<noteq> {}) = (\<not> as_nsec a \<and> \<not> as_nsec3 a)"
    "(subjects_of DNSSECMalformedNSEC3 (nsecCheck zone a) \<noteq> {}) = as_malformed a" for a
    using ids by (auto simp: nsecCheck_def)
  show ?thesis unfolding C nsecAnalyze_fields bad_nsec3_def not_None_eq by blast
qed

end
