(* ===== verification/Active.thy ===== *)
theory Active
  imports DnsUtil Catalog
begin

text \<open>
  The opt-in probes and the wildcard probe: \<^verbatim>\<open>internal/axfr/axfr.go\<close>,
  \<^verbatim>\<open>internal/active/active.go\<close> and \<^verbatim>\<open>internal/wildcard/wildcard.go\<close>. The random bytes of a
  probe name are an argument, \<^term>\<open>None\<close> when the random source fails.
\<close>

section \<open>Zone transfer\<close>

record outcome =
  o_server :: string
  o_status :: string
  o_count :: int
  o_records :: section_rrs

record axfr_config =
  ax_max :: int
  ax_show :: bool
  ax_timeout :: int

text \<open>Times are nanoseconds, Go's \<^verbatim>\<open>time.Duration\<close>.\<close>

definition axfrDefaultConfig :: axfr_config where
  "axfrDefaultConfig = \<lparr>ax_max = 1000, ax_show = False, ax_timeout = 10000000000\<rparr>"

definition axfrEvaluate :: "string \<Rightarrow> string \<Rightarrow> outcome option \<Rightarrow> finding list" where
  "axfrEvaluate zone server oc =
     (case oc of None \<Rightarrow> []
      | Some oc \<Rightarrow>
        if o_status oc = ''allowed'' then
          [withZone (ruleNew AXFRAllowed server
            ''The authoritative server accepted an AXFR request and exposed the full zone contents.''
            [''server '' @ server @ '' returned '' @ int_str (o_count oc) @ '' records'']) zone]
        else if o_status oc = ''refused'' then
          [withZone (ruleNew AXFRRefused server ''The server refused AXFR, which is the secure default.'' []) zone]
        else if o_status oc = ''failed'' then
          [withZone (ruleNew AXFRFailed server
            ''The AXFR request failed (timeout, format error, or server error).'' []) zone]
        else [])"

definition limitRecords :: "section_rrs \<Rightarrow> int \<Rightarrow> section_rrs" where
  "limitRecords records mx = (if mx \<le> 0 \<or> int (length records) \<le> mx then records else take (nat mx) records)"

definition parseTransferResult :: "msg option \<Rightarrow> axfr_config \<Rightarrow> outcome" where
  "parseTransferResult resp cfg =
     (case resp of
        None \<Rightarrow> \<lparr>o_server = '''', o_status = ''failed'', o_count = 0, o_records = []\<rparr>
      | Some resp \<Rightarrow>
        if m_rcode resp = RcodeRefused
        then \<lparr>o_server = '''', o_status = ''refused'', o_count = 0, o_records = []\<rparr>
        else if m_rcode resp \<noteq> RcodeSuccess
        then \<lparr>o_server = '''', o_status = ''failed'', o_count = 0, o_records = []\<rparr>
        else (let records = m_answer resp;
                  records = (if ax_show cfg then m_answer resp else records);
                  limited = limitRecords records (ax_max cfg)
              in \<lparr>o_server = '''', o_status = ''allowed'', o_count = int (length limited), o_records = limited\<rparr>))"

section \<open>Open recursion\<close>

record recursion_result =
  rec_server :: string
  rec_recursive :: bool
  rec_queries :: int

definition checkRecursion :: "string \<Rightarrow> string \<Rightarrow> msg option \<Rightarrow> recursion_result" where
  "checkRecursion server zone resp =
     (let r = \<lparr>rec_server = server, rec_recursive = False, rec_queries = 1\<rparr> in
      case resp of None \<Rightarrow> r
      | Some m \<Rightarrow>
          if m_recursion_available m \<and> m_rcode m = RcodeSuccess \<and> 0 < length (m_answer m)
          then r\<lparr>rec_recursive := True\<rparr> else r)"

definition activeCheck :: "string \<Rightarrow> string \<Rightarrow> recursion_result option \<Rightarrow> finding list" where
  "activeCheck server zone r =
     (case r of None \<Rightarrow> []
      | Some r \<Rightarrow>
        if \<not> rec_recursive r then []
        else [withZone (ruleNew RecursionOpen server
          ''The authoritative server answers recursive queries for arbitrary names, exposing it as an open resolver.''
          [''server '' @ server @ '' answered recursion with '' @ int_str (rec_queries r) @ '' query(s)'']) zone])"

definition randomName :: "bytes option \<Rightarrow> string \<Rightarrow> string option" where
  "randomName rnd zone = (case rnd of None \<Rightarrow> None | Some b \<Rightarrow> Some (hex_encode b @ ''.'' @ zone))"

text \<open>\<^verbatim>\<open>RecursionQuery\<close> ignores the error of \<^verbatim>\<open>RandomName\<close>, whose name is then empty.\<close>

definition recursionQuery :: "dnslib \<Rightarrow> bytes option \<Rightarrow> string \<Rightarrow> msg" where
  "recursionQuery L rnd zone = safeNewMsg L (case randomName rnd zone of None \<Rightarrow> '''' | Some n \<Rightarrow> n) TypeA"

section \<open>Wildcards\<close>

definition probeName :: "bytes option \<Rightarrow> string \<Rightarrow> string option" where
  "probeName rnd zone = (case rnd of None \<Rightarrow> None | Some b \<Rightarrow> Some (hex_encode b @ ''.'' @ zone))"

definition wildcardCheck :: "string \<Rightarrow> string \<Rightarrow> bool \<Rightarrow> finding list" where
  "wildcardCheck zone probe hasWildcard =
     (if \<not> hasWildcard then []
      else [ruleNew WildcardPresent zone
        ''The zone answers a non-existent, randomly-generated name with a record. Wildcards can mask typosquatting and cause unexpected resolution.''
        [''queried '' @ probe @ '' and received a wildcard/nxdomain-clobbering answer'']])"

definition isWildcardResponse :: "dnslib \<Rightarrow> msg option \<Rightarrow> string \<Rightarrow> bool" where
  "isWildcardResponse L resp probe =
     (case resp of None \<Rightarrow> False
      | Some m \<Rightarrow>
        if m_rcode m \<noteq> RcodeSuccess then False
        else (let queried = to_lower (fqdn L probe) in
          list_ex (\<lambda>r. let name = to_lower (fqdn L (rr_name r))
             in contains_sub name ''*.'' \<or> name = queried) (somes (m_answer m))))"

section \<open>Lemmas\<close>

lemma axfrEvaluate_wf: "f \<in> set (axfrEvaluate zone server oc) \<Longrightarrow> wf_finding f"
  by (auto simp: axfrEvaluate_def split: option.splits if_splits)

interpretation axfr: checker "\<lambda>(zone, server, oc). axfrEvaluate zone server oc"
  by unfold_locales (auto dest: axfrEvaluate_wf)

lemma activeCheck_wf: "f \<in> set (activeCheck server zone r) \<Longrightarrow> wf_finding f"
  by (auto simp: activeCheck_def split: option.splits if_splits)

interpretation active: checker "\<lambda>(server, zone, r). activeCheck server zone r"
  by unfold_locales (auto dest: activeCheck_wf)

lemma wildcardCheck_wf: "f \<in> set (wildcardCheck zone probe b) \<Longrightarrow> wf_finding f"
  by (auto simp: wildcardCheck_def split: if_splits)

interpretation wildcard: checker "\<lambda>(zone, probe, b). wildcardCheck zone probe b"
  by unfold_locales (auto dest: wildcardCheck_wf)

lemma length_limitRecords:
  "0 < mx \<Longrightarrow> length (limitRecords rs mx) = min (length rs) (nat mx)"
  by (auto simp: limitRecords_def)

end
