(* ===== verification/Cname.thy ===== *)
theory Cname
  imports DnsUtil Catalog
begin

text \<open>
  \<^verbatim>\<open>internal/cname/cname.go\<close>: chains, loops and dangling targets in the graph of CNAME
  records. The graph is a Go map that the check ranges over; its order here is the order of
  one such loop, and the facts hold for every order.
\<close>

section \<open>The graph\<close>

type_synonym graph = "(string \<times> string) list"

definition fqdnLower :: "dnslib \<Rightarrow> string \<Rightarrow> string" where
  "fqdnLower L n = to_lower (fqdn L n)"

definition buildRR :: "dnslib \<Rightarrow> rr option \<Rightarrow> graph \<Rightarrow> graph" where
  "buildRR L x g =
     (case x of None \<Rightarrow> g
      | Some r \<Rightarrow> (case rr_data r of
          CNAME_RR target \<Rightarrow> put (fqdnLower L (rr_name r)) (fqdnLower L target) g
        | _ \<Rightarrow> g))"

definition buildGraph :: "dnslib \<Rightarrow> section_rrs \<Rightarrow> graph" where
  "buildGraph L records = fold (buildRR L) records []"

section \<open>Walking\<close>

text \<open>The loop of \<^verbatim>\<open>walk\<close>: the nodes seen, the chain so far, the current node.\<close>

function walk_from :: "graph \<Rightarrow> string list \<Rightarrow> string list \<Rightarrow> string \<Rightarrow> string list" where
  "walk_from g seen chain cur =
     (if cur \<in> set seen then chain
      else case map_of g cur of
        None \<Rightarrow> chain
      | Some target \<Rightarrow>
          if 100 < length (chain @ [target]) then chain @ [target]
          else walk_from g (cur # seen) (chain @ [target]) target)"
  by pat_completeness auto
termination
  by (relation "measure (\<lambda>(g, seen, chain, cur). 101 - length chain)") auto

declare walk_from.simps [simp del]

definition walk :: "string \<Rightarrow> graph \<Rightarrow> string list" where
  "walk start g = walk_from g [] [] start"

text \<open>
  One start of \<^verbatim>\<open>loopRoots\<close>; the \<^verbatim>\<open>seen\<close> set of the source holds exactly the nodes of the
  path. \<^term>\<open>None\<close> when the walk ends or reaches the cap of 100 nodes.
\<close>

function loop_from :: "graph \<Rightarrow> string list \<Rightarrow> string \<Rightarrow> (string \<times> string) option" where
  "loop_from g path cur =
     (if cur \<in> set path then Some (cur, join '' -> '' (path @ [cur]))
      else case map_of g cur of
        None \<Rightarrow> None
      | Some nxt \<Rightarrow>
          if 100 < length (path @ [cur]) then None else loop_from g (path @ [cur]) nxt)"
  by pat_completeness auto
termination
  by (relation "measure (\<lambda>(g, path, cur). 101 - length path)") auto

declare loop_from.simps [simp del]

definition loopRoots :: "graph \<Rightarrow> (string \<times> string) list" where
  "loopRoots g = fold (\<lambda>start out. case loop_from g [] start of
      None \<Rightarrow> out | Some (c, p) \<Rightarrow> put c p out) (map fst g) []"

section \<open>The check\<close>

definition longFinding :: "string \<Rightarrow> nat \<Rightarrow> string \<Rightarrow> string list \<Rightarrow> finding" where
  "longFinding zone maxChain start chain =
     withZone (ruleNew CNAMEChainLong start
       (''The CNAME chain from '' @ start @ '' exceeds '' @ nat_str maxChain @ '' hops.'')
       [''chain: '' @ join '' -> '' chain]) zone"

definition danglingFinding :: "string \<Rightarrow> string \<Rightarrow> finding" where
  "danglingFinding zone t =
     withZone (ruleNew CNAMEDangling t
       ''The final CNAME target does not resolve to any record; the chain is dangling (potential takeover surface).''
       [''target '' @ t @ '' does not resolve'']) zone"

definition loopFinding :: "string \<Rightarrow> string \<Rightarrow> string \<Rightarrow> finding" where
  "loopFinding zone root loop =
     withZone ((ruleNew CNAMELoop root (''A CNAME loop was detected starting at '' @ root @ ''.'')
       [''loop: '' @ loop])\<lparr>f_subject := root\<rparr>) zone"

fun cnameScan :: "string \<Rightarrow> graph \<Rightarrow> nat \<Rightarrow> (string \<Rightarrow> bool) \<Rightarrow> string list \<Rightarrow> string list \<Rightarrow> finding list" where
  "cnameScan zone g maxChain resolveTarget visited [] = []"
| "cnameScan zone g maxChain resolveTarget visited (start # starts) =
     (if start \<in> set visited then cnameScan zone g maxChain resolveTarget visited starts
      else let chain = walk start g in
        (if maxChain < length chain then [longFinding zone maxChain start chain] else [])
        @ (if 0 < length chain \<and> \<not> resolveTarget (last chain)
           then [danglingFinding zone (last chain)] else [])
        @ cnameScan zone g maxChain resolveTarget (chain @ visited) starts)"

definition cnameCheck :: "string \<Rightarrow> graph \<Rightarrow> int \<Rightarrow> (string \<Rightarrow> bool) \<Rightarrow> finding list" where
  "cnameCheck zone g maxChain resolveTarget =
     (let mx = (if maxChain \<le> 0 then 8 else nat maxChain) in
      cnameScan zone g mx resolveTarget [] (map fst g)
      @ map (\<lambda>(root, loop). loopFinding zone root loop) (loopRoots g))"

section \<open>Lemmas: well-formed findings\<close>

lemma cnameScan_wf: "f \<in> set (cnameScan zone g mx res vis ss) \<Longrightarrow> wf_finding f"
  by (induction zone g mx res vis ss rule: cnameScan.induct)
    (auto simp: longFinding_def danglingFinding_def Let_def split: if_splits)

lemma cnameCheck_wf: "f \<in> set (cnameCheck zone g mx res) \<Longrightarrow> wf_finding f"
  by (auto simp: cnameCheck_def Let_def loopFinding_def dest: cnameScan_wf)

interpretation cname: checker "\<lambda>(zone, g, mx, res). cnameCheck zone g mx res"
  by unfold_locales (auto dest: cnameCheck_wf)

section \<open>Lemmas: following the graph\<close>

fun follow :: "graph \<Rightarrow> nat \<Rightarrow> string \<Rightarrow> string option" where
  "follow g 0 s = Some s"
| "follow g (Suc k) s = Option.bind (follow g k s) (map_of g)"

lemma follow_add: "follow g (j + k) s = Option.bind (follow g j s) (follow g k)"
  by (induction k) (auto simp: bind_assoc)

lemma follow_defined: "follow g k s = Some t \<Longrightarrow> j \<le> k \<Longrightarrow> \<exists>u. follow g j s = Some u"
  using follow_add [of g j "k - j" s] by (cases "follow g j s") auto

definition on_short_cycle :: "graph \<Rightarrow> string \<Rightarrow> bool" where
  "on_short_cycle g n \<longleftrightarrow> (\<exists>p. 0 < p \<and> p \<le> 100 \<and> follow g p n = Some n)"

text \<open>The state of both walks: the nodes visited so far are the iterates of the start.\<close>

definition traced :: "graph \<Rightarrow> string \<Rightarrow> string list \<Rightarrow> string \<Rightarrow> bool" where
  "traced g s path cur \<longleftrightarrow> (\<forall>i < length path. follow g i s = Some (path ! i)) \<and>
     follow g (length path) s = Some cur"

lemma traced_Nil [simp]: "traced g s [] s"
  by (simp add: traced_def)

lemma traced_step:
  "traced g s path cur \<Longrightarrow> map_of g cur = Some nxt \<Longrightarrow> traced g s (path @ [cur]) nxt"
  by (auto simp: traced_def nth_append less_Suc_eq)

lemma traced_mem: "traced g s path cur \<Longrightarrow> x \<in> set path \<longleftrightarrow> (\<exists>i < length path. follow g i s = Some x)"
  by (auto simp: traced_def in_set_conv_nth)

section \<open>Lemmas: loops\<close>

lemma follow_shift:
  "follow g i s = Some u \<Longrightarrow> i \<le> j \<Longrightarrow> follow g (j - i) u = follow g j s"
  using follow_add [of g i "j - i" s] by simp

lemma loop_from_sound:
  "traced g s path cur \<Longrightarrow> length path \<le> 100 \<Longrightarrow> loop_from g path cur = Some (c, p) \<Longrightarrow> on_short_cycle g c"
proof (induction g path cur rule: loop_from.induct)
  case (1 g path cur)
  show ?case
  proof (cases "cur \<in> set path")
    case True
    then have c: "c = cur" using "1.prems"(3) by (simp add: loop_from.simps [of g path cur])
    obtain i where i: "i < length path" "follow g i s = Some cur"
      using True traced_mem [OF "1.prems"(1)] by blast
    have "follow g (length path - i) cur = Some cur"
      using follow_shift [OF i(2), of "length path"] i(1) "1.prems"(1) by (simp add: traced_def)
    then show ?thesis using i(1) "1.prems"(2) unfolding on_short_cycle_def c
      by (intro exI [of _ "length path - i"]) auto
  next
    case False
    then obtain nxt where nxt: "map_of g cur = Some nxt" and len: "\<not> 100 < length (path @ [cur])"
      and rec: "loop_from g (path @ [cur]) nxt = Some (c, p)"
      using "1.prems"(3) by (auto simp: loop_from.simps [of g path cur] split: option.splits if_splits)
    show ?thesis
      using "1.IH" [OF False nxt len traced_step [OF "1.prems"(1) nxt] _ rec] len by simp
  qed
qed

text \<open>On a cycle of least period \<open>p\<close> the first \<open>p\<close> iterates differ.\<close>

definition least_period :: "graph \<Rightarrow> string \<Rightarrow> nat \<Rightarrow> bool" where
  "least_period g s p \<longleftrightarrow> 0 < p \<and> follow g p s = Some s \<and> (\<forall>q. 0 < q \<longrightarrow> q < p \<longrightarrow> follow g q s \<noteq> Some s)"

lemma least_period_cycle: "least_period g s p \<Longrightarrow> follow g p s = Some s"
  by (simp add: least_period_def)

lemma least_period_min: "least_period g s p \<Longrightarrow> 0 < q \<Longrightarrow> q < p \<Longrightarrow> follow g q s \<noteq> Some s"
  by (simp add: least_period_def)

lemma least_period_exists:
  assumes "follow g p s = Some s" "0 < p"
  obtains q where "least_period g s q" "q \<le> p"
proof -
  let ?P = "\<lambda>q. 0 < q \<and> follow g q s = Some s"
  have "?P (LEAST q. ?P q)" using assms by (intro LeastI [of ?P p]) simp
  moreover have "\<not> ?P q" if "q < (LEAST q. ?P q)" for q using not_less_Least [OF that] .
  moreover have "(LEAST q. ?P q) \<le> p" using assms by (intro Least_le) simp
  ultimately show thesis using that [of "LEAST q. ?P q"] by (auto simp: least_period_def)
qed

lemma least_period_distinct:
  assumes p: "least_period g s p" and ij: "i < j" "j < p" and f: "follow g i s = Some u" "follow g j s = Some u"
  shows False
proof -
  have "follow g (p - j) u = follow g p s"
    by (rule follow_shift [OF f(2)]) (use ij in simp)
  also have "\<dots> = Some s" by (rule least_period_cycle [OF p])
  finally have "follow g (p - j) u = Some s" .
  then have "follow g (i + (p - j)) s = Some s"
    by (simp add: follow_add f(1))
  moreover have "follow g (i + (p - j)) s \<noteq> Some s"
    by (rule least_period_min [OF p]) (use ij in auto)
  ultimately show False by (rule notE [rotated])
qed

lemma loop_from_complete:
  "least_period g s p \<Longrightarrow> p \<le> 100 \<Longrightarrow> traced g s path cur \<Longrightarrow> length path \<le> p
    \<Longrightarrow> \<exists>l. loop_from g path cur = Some (s, l)"
proof (induction g path cur rule: loop_from.induct)
  case (1 g path cur)
  note lp = "1.prems"(1) and tr = "1.prems"(3)
  have s0: "follow g 0 s = Some s" by simp
  show ?case
  proof (cases "length path = p")
    case True
    have "cur = s" using tr lp True by (simp add: traced_def least_period_def)
    moreover have "s \<in> set path"
      using traced_mem [OF tr, of s] s0 lp True by (auto simp: least_period_def intro: exI [of _ 0])
    ultimately show ?thesis by (simp add: loop_from.simps [of g path s])
  next
    case False
    then have lt: "length path < p" using "1.prems"(4) by simp
    have cur: "follow g (length path) s = Some cur" using tr by (simp add: traced_def)
    have "cur \<notin> set path"
      using least_period_distinct [OF lp _ lt _ cur] traced_mem [OF tr, of cur] by blast
    moreover obtain nxt where nxt: "map_of g cur = Some nxt"
      using follow_defined [of g p s s "Suc (length path)"] lp lt cur by (auto simp: least_period_def)
    moreover have len: "\<not> 100 < length (path @ [cur])" using lt "1.prems"(2) by simp
    moreover have "\<exists>l. loop_from g (path @ [cur]) nxt = Some (s, l)"
      using "1.IH" [OF calculation(1) nxt len lp "1.prems"(2) traced_step [OF tr nxt]] lt by simp
    ultimately show ?thesis by (simp add: loop_from.simps [of g path cur])
  qed
qed

lemma loopRoots_keys:
  "fst ` set (loopRoots g) = {c. \<exists>s \<in> fst ` set g. \<exists>l. loop_from g [] s = Some (c, l)}"
proof -
  have "fst ` set (fold (\<lambda>start out. case loop_from g [] start of
      None \<Rightarrow> out | Some (c, p) \<Rightarrow> put c p out) ss out)
    = fst ` set out \<union> {c. \<exists>s \<in> set ss. \<exists>l. loop_from g [] s = Some (c, l)}" for ss out
    by (induction ss arbitrary: out) (auto split: option.splits prod.splits simp: fst_set_put)
  from this [of "map fst g" "[]"] show ?thesis by (simp add: loopRoots_def)
qed

lemma loopRoots_sound: "n \<in> fst ` set (loopRoots g) \<Longrightarrow> on_short_cycle g n"
proof -
  assume "n \<in> fst ` set (loopRoots g)"
  then obtain s l where "loop_from g [] s = Some (n, l)" by (auto simp: loopRoots_keys)
  from loop_from_sound [OF traced_Nil _ this] show ?thesis by simp
qed

lemma loopRoots_complete: "on_short_cycle g n \<Longrightarrow> n \<in> fst ` set (loopRoots g)"
proof -
  assume "on_short_cycle g n"
  then obtain p where p: "0 < p" "p \<le> 100" "follow g p n = Some n" by (auto simp: on_short_cycle_def)
  obtain q where q: "least_period g n q" "q \<le> p" using least_period_exists [OF p(3,1)] .
  have "\<exists>l. loop_from g [] n = Some (n, l)"
    using loop_from_complete [OF q(1) _ traced_Nil] q(2) p(2) by simp
  moreover have "n \<in> fst ` set g"
    using follow_defined [OF p(3), of 1] p(1) by (auto dest!: map_of_SomeD intro!: image_eqI)
  ultimately show ?thesis unfolding loopRoots_keys by blast
qed

lemma loopRoots_set: "fst ` set (loopRoots g) = {n. on_short_cycle g n}"
  using loopRoots_sound loopRoots_complete by blast

section \<open>Lemmas: chains\<close>

text \<open>The starts that the first loop of \<^verbatim>\<open>Check\<close> walks, and what it reports for one.\<close>

fun walked :: "graph \<Rightarrow> string list \<Rightarrow> string list \<Rightarrow> string list" where
  "walked g visited [] = []"
| "walked g visited (s # ss) =
     (if s \<in> set visited then walked g visited ss else s # walked g (walk s g @ visited) ss)"

definition chain_findings :: "string \<Rightarrow> graph \<Rightarrow> nat \<Rightarrow> (string \<Rightarrow> bool) \<Rightarrow> string \<Rightarrow> finding list" where
  "chain_findings zone g mx res s =
     (if mx < length (walk s g) then [longFinding zone mx s (walk s g)] else [])
     @ (if 0 < length (walk s g) \<and> \<not> res (last (walk s g)) then [danglingFinding zone (last (walk s g))] else [])"

lemma cnameScan_walked:
  "cnameScan zone g mx res vis ss = concat (map (chain_findings zone g mx res) (walked g vis ss))"
  by (induction g vis ss rule: walked.induct) (auto simp: chain_findings_def Let_def)

lemma set_walked: "s \<in> set (walked g vis ss) \<Longrightarrow> s \<in> set ss"
  by (induction g vis ss rule: walked.induct) (auto split: if_splits)

text \<open>A start that is not walked itself lies on the chain of one that is.\<close>

lemma walked_covers:
  "s \<in> set ss \<Longrightarrow> s \<in> set vis \<or> (\<exists>s' \<in> set (walked g vis ss). s' = s \<or> s \<in> set (walk s' g))"
proof (induction g vis ss rule: walked.induct)
  case (2 g vis a ss)
  show ?case
  proof (cases "a \<in> set vis")
    case True
    then show ?thesis using "2.IH"(1) "2.prems" by auto
  next
    case False
    then show ?thesis using "2.IH"(2) "2.prems" by auto
  qed
qed simp

text \<open>The chain of a name that ends, after \<open>k\<close> records, in a name without a CNAME.\<close>

definition ends :: "graph \<Rightarrow> nat \<Rightarrow> string \<Rightarrow> string \<Rightarrow> bool" where
  "ends g k s t \<longleftrightarrow> follow g k s = Some t \<and> map_of g t = None"

lemma follow_Suc_front: "follow g (Suc k) s = Option.bind (map_of g s) (follow g k)"
  using follow_add [of g 1 k s] by simp

lemma ends_0 [simp]: "ends g 0 s t \<longleftrightarrow> s = t \<and> map_of g s = None"
  by (auto simp: ends_def)

lemma ends_Suc: "ends g (Suc k) s t \<longleftrightarrow> (\<exists>u. map_of g s = Some u \<and> ends g k u t)"
  by (cases "map_of g s") (auto simp: ends_def follow_Suc_front simp del: follow.simps(2))

lemma ends_unique: "ends g k s t \<Longrightarrow> ends g k' s t' \<Longrightarrow> k' = k \<and> t' = t"
proof (induction k arbitrary: s k')
  case 0
  then show ?case by (cases k') (auto simp: ends_Suc)
next
  case (Suc k)
  then show ?case by (cases k') (auto simp: ends_Suc)
qed

fun chain_of :: "graph \<Rightarrow> nat \<Rightarrow> string \<Rightarrow> string list" where
  "chain_of g 0 s = []"
| "chain_of g (Suc k) s = (case map_of g s of None \<Rightarrow> [] | Some u \<Rightarrow> u # chain_of g k u)"

lemma walk_from_ends:
  "ends g k cur t \<Longrightarrow> length chain + k \<le> 100 \<Longrightarrow> (\<And>x. x \<in> set seen \<Longrightarrow> \<exists>m > k. ends g m x t)
    \<Longrightarrow> walk_from g seen chain cur = chain @ chain_of g k cur"
proof (induction k arbitrary: cur chain seen)
  case 0
  then show ?case by (auto simp: walk_from.simps [of g seen])
next
  case (Suc k)
  obtain u where u: "map_of g cur = Some u" "ends g k u t"
    using Suc.prems(1) by (auto simp: ends_Suc)
  have new: "cur \<notin> set seen"
    using Suc.prems(3) [of cur] ends_unique [OF Suc.prems(1)] by blast
  have seen: "\<exists>m > k. ends g m x t" if "x \<in> set (cur # seen)" for x
  proof (cases "x = cur")
    case True
    then show ?thesis using Suc.prems(1) by blast
  next
    case False
    then have "x \<in> set seen" using that by simp
    from Suc.prems(3) [OF this] obtain m where "m > Suc k" "ends g m x t" by blast
    then show ?thesis by (intro exI [of _ m]) simp
  qed
  have "walk_from g (cur # seen) (chain @ [u]) u = (chain @ [u]) @ chain_of g k u"
    by (rule Suc.IH [OF u(2) _ seen]) (use Suc.prems(2) in auto)
  then show ?case using u new Suc.prems(2) by (simp add: walk_from.simps [of g seen])
qed

lemma walk_ends: "ends g k s t \<Longrightarrow> k \<le> 100 \<Longrightarrow> walk s g = chain_of g k s"
  unfolding walk_def using walk_from_ends [of g k s t "[]" "[]"] by simp

lemma length_chain_of: "ends g k s t \<Longrightarrow> length (chain_of g k s) = k"
  by (induction k arbitrary: s) (auto simp: ends_Suc)

lemma last_chain_of: "ends g k s t \<Longrightarrow> 0 < k \<Longrightarrow> last (chain_of g k s) = t"
proof (induction k arbitrary: s)
  case (Suc k)
  then obtain u where u: "map_of g s = Some u" "ends g k u t" by (auto simp: ends_Suc)
  then show ?case using Suc.IH [OF u(2)] by (cases k) (auto simp: ends_Suc)
qed simp

lemma mem_chain_of: "ends g k s t \<Longrightarrow> x \<in> set (chain_of g k s) \<Longrightarrow> \<exists>m < k. ends g m x t"
proof (induction k arbitrary: s)
  case (Suc k)
  then obtain u where u: "map_of g s = Some u" "ends g k u t" by (auto simp: ends_Suc)
  then show ?case using Suc.IH [OF u(2)] Suc.prems(2) less_Suc_eq by auto
qed simp

text \<open>Every name of the graph ends within the cap of 100 records.\<close>

definition loop_free :: "graph \<Rightarrow> bool" where
  "loop_free g \<longleftrightarrow> (\<forall>s \<in> fst ` set g. \<exists>k t. 0 < k \<and> k \<le> 100 \<and> ends g k s t)"

lemma loop_free_walked:
  assumes g: "loop_free g" and s: "s \<in> fst ` set g" "ends g k s t"
  obtains s' k' where "s' \<in> set (walked g [] (map fst g))" "ends g k' s' t" "k \<le> k'" "0 < k'" "k' \<le> 100"
    "walk s' g = chain_of g k' s'"
proof -
  have k: "0 < k" "k \<le> 100" using g s ends_unique [OF s(2)] unfolding loop_free_def by blast+
  obtain s' where s': "s' \<in> set (walked g [] (map fst g))" "s' = s \<or> s \<in> set (walk s' g)"
    using walked_covers [of s "map fst g" "[]" g] s(1) by auto
  have "s' \<in> fst ` set g" using set_walked [OF s'(1)] by simp
  then obtain k' t' where k': "0 < k'" "k' \<le> 100" "ends g k' s' t'" using g unfolding loop_free_def by blast
  have w: "walk s' g = chain_of g k' s'" by (rule walk_ends [OF k'(3,2)])
  have "t' = t \<and> k \<le> k'"
    using s'(2)
  proof
    assume "s' = s"
    then show ?thesis using ends_unique [OF k'(3)] s(2) by auto
  next
    assume "s \<in> set (walk s' g)"
    then obtain m where "m < k'" "ends g m s t'" using mem_chain_of [OF k'(3)] w by auto
    then show ?thesis using ends_unique [OF s(2)] by fastforce
  qed
  then show thesis using that [OF s'(1), of k'] k' w by blast
qed

section \<open>What the check reports\<close>

lemma loop_subjects:
  "subjects_of r (map (\<lambda>(root, loop). loopFinding zone root loop) ls) =
     (if r_id r = r_id CNAMELoop then fst ` set ls else {})"
  by (induction ls) (auto simp: loopFinding_def)

lemma chain_subjects:
  "subjects_of CNAMEDangling (chain_findings zone g mx res s) =
     (if walk s g \<noteq> [] \<and> \<not> res (last (walk s g)) then {last (walk s g)} else {})"
  "subjects_of CNAMEChainLong (chain_findings zone g mx res s) =
     (if mx < length (walk s g) then {s} else {})"
  "subjects_of CNAMELoop (chain_findings zone g mx res s) = {}"
  by (auto simp: chain_findings_def longFinding_def danglingFinding_def CNAMEDangling_def
      CNAMEChainLong_def CNAMELoop_def)

lemma cname_ids: "r_id CNAMEDangling \<noteq> r_id CNAMELoop" "r_id CNAMEChainLong \<noteq> r_id CNAMELoop"
  by (simp_all add: CNAMEDangling_def CNAMEChainLong_def CNAMELoop_def)

lemma cnameCheck_subjects:
  "subjects_of r (cnameCheck zone g maxChain res) =
     (\<Union>s \<in> set (walked g [] (map fst g)). subjects_of r
        (chain_findings zone g (if maxChain \<le> 0 then 8 else nat maxChain) res s))
     \<union> (if r_id r = r_id CNAMELoop then {n. on_short_cycle g n} else {})"
  by (simp add: cnameCheck_def Let_def cnameScan_walked subjects_of_concat loop_subjects loopRoots_set)

text \<open>
  C20. The names reported as looping are exactly those on a cycle of at most 100 CNAME records:
  every node of such a cycle is reported, in whatever order the graph map is ranged over, and
  no name outside a cycle is.
\<close>

theorem cname_loops_exact:
  "subjects_of CNAMELoop (cnameCheck zone g maxChain res) = {n. on_short_cycle g n}"
  by (simp add: cnameCheck_subjects chain_subjects)

text \<open>In a graph without loops the names reported as dangling are the final targets that do not resolve.\<close>

lemma cname_dangling_set:
  assumes "loop_free g"
  shows "subjects_of CNAMEDangling (cnameCheck zone g maxChain res) =
    {t. \<not> res t \<and> (\<exists>s \<in> fst ` set g. \<exists>k. ends g k s t)}"
proof (intro set_eqI iffI)
  fix t assume "t \<in> subjects_of CNAMEDangling (cnameCheck zone g maxChain res)"
  then obtain s where s: "s \<in> set (walked g [] (map fst g))" "t = last (walk s g)" "\<not> res t"
    by (auto simp: cnameCheck_subjects chain_subjects cname_ids split: if_splits)
  have dom: "s \<in> fst ` set g" using set_walked [OF s(1)] by simp
  then obtain k u where k: "0 < k" "k \<le> 100" "ends g k s u" using assms unfolding loop_free_def by blast
  have "t = u" using last_chain_of [OF k(3,1)] walk_ends [OF k(3,2)] s(2) by simp
  then show "t \<in> {t. \<not> res t \<and> (\<exists>s \<in> fst ` set g. \<exists>k. ends g k s t)}" using s(3) dom k(3) by auto
next
  fix t assume "t \<in> {t. \<not> res t \<and> (\<exists>s \<in> fst ` set g. \<exists>k. ends g k s t)}"
  then obtain s k where s: "s \<in> fst ` set g" "ends g k s t" and res: "\<not> res t" by blast
  obtain s' k' where s': "s' \<in> set (walked g [] (map fst g))" "ends g k' s' t" "0 < k'"
    "walk s' g = chain_of g k' s'"
    using loop_free_walked [OF assms s] by metis
  have "walk s' g \<noteq> []" using length_chain_of [OF s'(2)] s'(3,4) by auto
  moreover have "last (walk s' g) = t" using last_chain_of [OF s'(2,3)] s'(4) by simp
  ultimately show "t \<in> subjects_of CNAMEDangling (cnameCheck zone g maxChain res)"
    using s'(1) res by (auto simp: cnameCheck_subjects chain_subjects cname_ids)
qed

lemma ends_numeral: "ends g (numeral n) s t \<longleftrightarrow> (\<exists>u. map_of g s = Some u \<and> ends g (pred_numeral n) u t)"
  by (simp add: numeral_eq_Suc ends_Suc)

lemma cname_dangling_example:
  "''c'' \<in> subjects_of CNAMEDangling (cnameCheck ''z'' [(''a'', ''b''), (''b'', ''c'')] 8 (\<lambda>_. False))"
proof -
  let ?g = "[(''a'', ''b''), (''b'', ''c'')]"
  have a: "ends ?g 2 ''a'' ''c''" and b: "ends ?g 1 ''b'' ''c''"
    by (simp_all add: numeral_2_eq_2 ends_Suc)
  have "loop_free ?g"
    unfolding loop_free_def using a b by (auto intro: exI [of _ 2] exI [of _ 1])
  from cname_dangling_set [OF this] show ?thesis using b by auto
qed

text \<open>
  A chain of more than the configured number of records (8 by default) is reported in a
  graph without loops, in whatever order the graph map is ranged over, and only then.
\<close>

theorem cname_long_iff:
  assumes "loop_free g"
  shows "subjects_of CNAMEChainLong (cnameCheck zone g maxChain res) \<noteq> {} \<longleftrightarrow>
    (\<exists>s \<in> fst ` set g. \<exists>k t. ends g k s t \<and> (if maxChain \<le> 0 then 8 else nat maxChain) < k)"
proof
  assume "subjects_of CNAMEChainLong (cnameCheck zone g maxChain res) \<noteq> {}"
  then obtain s where s: "s \<in> set (walked g [] (map fst g))"
    "(if maxChain \<le> 0 then 8 else nat maxChain) < length (walk s g)"
    by (auto simp: cnameCheck_subjects chain_subjects cname_ids split: if_splits)
  have dom: "s \<in> fst ` set g" using set_walked [OF s(1)] by simp
  then obtain k u where k: "0 < k" "k \<le> 100" "ends g k s u" using assms unfolding loop_free_def by blast
  have "length (walk s g) = k" using walk_ends [OF k(3,2)] length_chain_of [OF k(3)] by simp
  then show "\<exists>s \<in> fst ` set g. \<exists>k t. ends g k s t \<and> (if maxChain \<le> 0 then 8 else nat maxChain) < k"
    using s(2) dom k(3) by metis
next
  assume "\<exists>s \<in> fst ` set g. \<exists>k t. ends g k s t \<and> (if maxChain \<le> 0 then 8 else nat maxChain) < k"
  then obtain s k t where s: "s \<in> fst ` set g" "ends g k s t"
    and k: "(if maxChain \<le> 0 then 8 else nat maxChain) < k" by blast
  obtain s' k' where s': "s' \<in> set (walked g [] (map fst g))" "ends g k' s' t" "k \<le> k'"
    "walk s' g = chain_of g k' s'"
    using loop_free_walked [OF assms s] by metis
  have "(if maxChain \<le> 0 then 8 else nat maxChain) < length (walk s' g)"
    using length_chain_of [OF s'(2)] s'(3,4) k by (simp del: if_split)
  then have "s' \<in> subjects_of CNAMEChainLong (cnameCheck zone g maxChain res)"
    using s'(1) by (auto simp: cnameCheck_subjects chain_subjects cname_ids split: if_splits)
  then show "subjects_of CNAMEChainLong (cnameCheck zone g maxChain res) \<noteq> {}" by blast
qed

theorem cname_long_iff_witness:
  "subjects_of CNAMEChainLong (cnameCheck ''z'' [(''b'', ''c''), (''a'', ''b'')] 1 (\<lambda>_. True)) \<noteq> {}"
proof -
  let ?g = "[(''b'', ''c''), (''a'', ''b'')]"
  have a: "ends ?g 2 ''a'' ''c''" and b: "ends ?g 1 ''b'' ''c''"
    by (simp_all add: numeral_2_eq_2 ends_Suc)
  have "loop_free ?g"
    unfolding loop_free_def using a b by (auto intro: exI [of _ 2] exI [of _ 1])
  from cname_long_iff [OF this, of "''z''" 1 "\<lambda>_. True"] show ?thesis using a by fastforce
qed

text \<open>
  The dangling finding of one target is repeated for every start walked, so how many there are
  depends on the order of the range loop.
\<close>

lemma cname_dangling_order:
  "length (cnameCheck z [(''a'', ''b''), (''b'', ''c'')] 8 (\<lambda>_. False)) = 1"
  "length (cnameCheck z [(''b'', ''c''), (''a'', ''b'')] 8 (\<lambda>_. False)) = 2"
  by (simp_all add: cnameCheck_def loopRoots_def walk_def walk_from.simps loop_from.simps)

end
