(* ===== verification/AuditRun.thy ===== *)
theory AuditRun
  imports Addrs Delegation AuthServer Soa Ttl Caa Nsec Active Cname DnssecChain Network FakeServer
begin

text \<open>
  \<^verbatim>\<open>internal/audit/audit.go\<close>: the run that queries a zone, collects its records, applies every
  check and orders the findings. The resolver is an argument with its own state, as the
  \<^verbatim>\<open>Resolver\<close> interface is in the source: it answers a query with an error or a message.
  The clock, the random bytes of probe names and the packages the checks call are arguments.
\<close>

section \<open>State\<close>

record options =
  opt_resolver :: string
  opt_profile :: string
  opt_timeout :: int
  opt_maxqps :: int
  opt_maxqueries :: int
  opt_active :: bool
  opt_showaxfr :: bool

record audit_result =
  ar_zone :: string
  ar_findings :: "finding list"
  ar_resolver :: string
  ar_queries :: int
  ar_records :: int

record 's resolver =
  rv_query :: "'s \<Rightarrow> string \<Rightarrow> msg \<Rightarrow> (go_error + msg) \<times> 's"
  rv_transfer :: "'s \<Rightarrow> string \<Rightarrow> msg \<Rightarrow> (go_error + rr list) \<times> 's"

record 's runner =
  rn_queries :: int
  rn_res :: 's

record env =
  e_lib :: dnslib
  e_crypto :: crypto
  e_now :: int
  e_date :: date
  e_probe1 :: "bytes option"
  e_probe2 :: "bytes option"
  e_rec :: "nat \<Rightarrow> bytes option"

definition splitResolvers :: "string \<Rightarrow> string list" where
  "splitResolvers s = (if trim_space s = '''' then []
     else filter (\<lambda>p. p \<noteq> '''') (map trim_space (split_on CHR '','' s)))"

text \<open>The configuration \<^verbatim>\<open>New\<close> builds for the network resolver; the fields it leaves out are zero.\<close>

definition auditConfig :: "string list option \<Rightarrow> options \<Rightarrow> config" where
  "auditConfig conf opt =
     \<lparr>cfg_timeout = opt_timeout opt, cfg_retries = 0, cfg_edns = False, cfg_dnssec = False,
      cfg_budget = \<lparr>MaxQueries = opt_maxqueries opt, MaxQPS = opt_maxqps opt, MaxConcurrency = 0,
        PerTimeout = 0, RecursionLimit = 0\<rparr>,
      cfg_udpaddr = defaultServer conf (splitResolvers (opt_resolver opt))\<rparr>"

definition childZone :: "string \<Rightarrow> string" where
  "childZone zone = ''sub.'' @ zone"

definition addFinding :: "audit_result \<Rightarrow> finding \<Rightarrow> audit_result" where
  "addFinding r f = r\<lparr>ar_findings := ar_findings r @ [f\<lparr>f_zone := ar_zone r\<rparr>]\<rparr>"

definition addFindings :: "audit_result \<Rightarrow> finding list \<Rightarrow> audit_result" where
  "addFindings r fs = foldl addFinding r fs"

definition makeTransferResp :: "go_error + rr list \<Rightarrow> msg option" where
  "makeTransferResp x = (case x of Inl _ \<Rightarrow> None
     | Inr rs \<Rightarrow> Some (new_msg\<lparr>m_rcode := RcodeSuccess, m_answer := map Some rs\<rparr>))"

definition buildResolveTarget :: "dnslib \<Rightarrow> section_rrs \<Rightarrow> string \<Rightarrow> string \<Rightarrow> bool" where
  "buildResolveTarget L records zone0 =
     (let inZ = map (\<lambda>r. to_lower (fqdn L (rr_name r))) (somes records); zone = to_lower (fqdn L zone0)
      in (\<lambda>name0. let name = to_lower (fqdn L name0) in
            if name \<in> set inZ then True
            else if has_suffix name (CHR ''.'' # zone) then zone \<in> set inZ
            else False))"

section \<open>Queries\<close>

definition runQuery :: "'s resolver \<Rightarrow> options \<Rightarrow> msg \<Rightarrow> 's runner \<Rightarrow> (go_error + msg) \<times> 's runner" where
  "runQuery R opt req s =
     (let req = (if m_edns req = None then req\<lparr>m_edns := Some (1232, True)\<rparr> else req);
          (r, st) = rv_query R (rn_res s) (opt_resolver opt) req
      in (r, \<lparr>rn_queries = rn_queries s + 1, rn_res = st\<rparr>))"

definition runTransfer :: "'s resolver \<Rightarrow> options \<Rightarrow> msg \<Rightarrow> 's runner \<Rightarrow> (go_error + rr list) \<times> 's runner" where
  "runTransfer R opt req s =
     (let (r, st) = rv_transfer R (rn_res s) (opt_resolver opt) req
      in (r, \<lparr>rn_queries = rn_queries s + 1, rn_res = st\<rparr>))"

text \<open>A loop of queries that skips the ones that fail: the responses with their types.\<close>

fun askAll :: "dnslib \<Rightarrow> 's resolver \<Rightarrow> options \<Rightarrow> (string \<times> u16) list \<Rightarrow> 's runner \<Rightarrow> (u16 \<times> msg) list \<times> 's runner" where
  "askAll L R opt [] s = ([], s)"
| "askAll L R opt ((name, typ) # qs) s =
     (case runQuery R opt (safeNewMsg L name typ) s of
        (Inl _, s1) \<Rightarrow> askAll L R opt qs s1
      | (Inr m, s1) \<Rightarrow> (let (ms, s2) = askAll L R opt qs s1 in ((typ, m) # ms, s2)))"

definition apexTypes :: "u16 list" where
  "apexTypes = [TypeA, TypeAAAA, TypeMX, TypeCNAME, TypeTXT, TypeCAA]"

text \<open>The name servers of the answer, lowered and fully qualified, each once.\<close>

definition ns_host :: "dnslib \<Rightarrow> rr option \<Rightarrow> string option" where
  "ns_host L x = (case x of None \<Rightarrow> None
     | Some r \<Rightarrow> (case rr_data r of NS_RR n \<Rightarrow> Some (to_lower (fqdn L n)) | _ \<Rightarrow> None))"

definition nsHosts :: "dnslib \<Rightarrow> section_rrs \<Rightarrow> string list" where
  "nsHosts L answer = dedup_on (\<lambda>n. n) [] (List.map_filter (ns_host L) answer)"

definition collectApexRecords :: "dnslib \<Rightarrow> 's resolver \<Rightarrow> options \<Rightarrow> string \<Rightarrow> msg \<Rightarrow> 's runner
    \<Rightarrow> section_rrs \<times> msg list \<times> 's runner" where
  "collectApexRecords L R opt zone initial s =
     (let (apex, s1) = askAll L R opt (map (\<lambda>t. (zone, t)) apexTypes) s;
          (hosts, s2) = askAll L R opt
            (concat (map (\<lambda>n. [(n, TypeA), (n, TypeAAAA)]) (nsHosts L (m_answer initial)))) s1
      in (m_answer initial @ m_ns initial @ concat (map (\<lambda>(_, m). m_answer m @ m_ns m) apex)
            @ concat (map (\<lambda>(_, m). m_answer m) hosts),
          map snd apex @ map snd hosts, s2))"

section \<open>DNSSEC material\<close>

record dnssec_data =
  dd_units :: "msg list"
  dd_keys :: section_rrs
  dd_seen :: "string list"
  dd_answer :: section_rrs
  dd_ns :: section_rrs
  dd_ds :: msg

definition rrKey :: "dnslib \<Rightarrow> rr \<Rightarrow> string" where
  "rrKey L r = (case rrData L r of Some rd \<Rightarrow> string_of rd | None \<Rightarrow> rrString L r)"

definition recordKey :: "dnslib \<Rightarrow> rr \<Rightarrow> string" where
  "recordKey L r = fqdn L (to_lower (rr_name r)) @ ''|'' @ word_str (rr_type r) @ ''|'' @ rrKey L r"

definition addAnswer :: "dnslib \<Rightarrow> rr option \<Rightarrow> dnssec_data \<Rightarrow> dnssec_data" where
  "addAnswer L x d = (case x of None \<Rightarrow> d
     | Some r \<Rightarrow> if recordKey L r \<in> set (dd_seen d) then d
         else d\<lparr>dd_seen := recordKey L r # dd_seen d, dd_answer := dd_answer d @ [Some r]\<rparr>)"

definition addNs :: "dnslib \<Rightarrow> rr option \<Rightarrow> dnssec_data \<Rightarrow> dnssec_data" where
  "addNs L x d = (case x of None \<Rightarrow> d
     | Some r \<Rightarrow> if recordKey L r \<in> set (dd_seen d) then d
         else d\<lparr>dd_seen := recordKey L r # dd_seen d, dd_ns := dd_ns d @ [Some r]\<rparr>)"

definition addMsg :: "dnslib \<Rightarrow> msg \<Rightarrow> dnssec_data \<Rightarrow> dnssec_data" where
  "addMsg L m d = fold (addNs L) (m_ns m) (fold (addAnswer L) (m_answer m) d)"

definition addUnit :: "dnslib \<Rightarrow> msg \<Rightarrow> dnssec_data \<Rightarrow> dnssec_data" where
  "addUnit L m d = addMsg L m (d\<lparr>dd_units := dd_units d @ [m]\<rparr>)"

definition addTyped :: "dnslib \<Rightarrow> u16 \<times> msg \<Rightarrow> dnssec_data \<Rightarrow> dnssec_data" where
  "addTyped L = (\<lambda>(typ, m) d0. let d = addUnit L m d0 in
     if typ = TypeDNSKEY then d\<lparr>dd_keys := dd_keys d @ m_answer m\<rparr>
     else d\<lparr>dd_ds := (dd_ds d)\<lparr>m_answer := m_answer (dd_ds d) @ m_answer m, m_ns := m_ns (dd_ds d) @ m_ns m\<rparr>\<rparr>)"

definition collectDNSSEC :: "env \<Rightarrow> 's resolver \<Rightarrow> options \<Rightarrow> string \<Rightarrow> msg \<Rightarrow> section_rrs \<Rightarrow> msg list
    \<Rightarrow> 's runner \<Rightarrow> dnssec_data \<times> 's runner" where
  "collectDNSSEC E R opt zone initial apexRecords apexUnits s =
     (let L = e_lib E;
          d0 = \<lparr>dd_units = initial # apexUnits, dd_keys = [], dd_seen = [], dd_answer = [], dd_ns = [], dd_ds = new_msg\<rparr>;
          d1 = fold (addAnswer L) apexRecords (addMsg L initial d0);
          (typed, s1) = askAll L R opt [(zone, TypeDNSKEY), (zone, TypeDS)] s;
          d2 = fold (addTyped L) typed d1
      in case probeName (e_probe1 E) zone of
           None \<Rightarrow> (d2, s1)
         | Some n \<Rightarrow> (case runQuery R opt (safeNewMsg L n TypeA) s1 of
             (Inl _, s2) \<Rightarrow> (d2, s2)
           | (Inr m, s2) \<Rightarrow> (addUnit L m d2, s2)))"

section \<open>Verifying signatures\<close>

record pair_stat =
  ps_passes :: nat
  ps_fails :: nat
  ps_name :: string
  ps_rtype :: u16
  ps_keytag :: u16

text \<open>One signature of a unit; the time of \<^verbatim>\<open>VerifyRRSIGForType\<close> is not used there.\<close>

definition statSig :: "env \<Rightarrow> string \<Rightarrow> zone_keys \<Rightarrow> string \<times> rrsig_info \<Rightarrow> (string \<times> pair_stat) list \<Rightarrow> (string \<times> pair_stat) list" where
  "statSig E apex zk = (\<lambda>(name, sig) stats.
     let lname = fqdn (e_lib E) (to_lower name); rtype = si_typecovered sig in
     if lname \<noteq> apex \<and> \<not> has_suffix lname (CHR ''.'' # apex) then stats
     else if rtype = TypeDS then stats
     else if length (zk_bytype zk lname rtype) = 0 then stats
     else if \<not> hasKeyForTag zk (si_keytag sig) then stats
     else let key = lname @ ''/'' @ word_str rtype;
              st = (case map_of stats key of Some st \<Rightarrow> st
                    | None \<Rightarrow> \<lparr>ps_passes = 0, ps_fails = 0, ps_name = lname, ps_rtype = rtype, ps_keytag = si_keytag sig\<rparr>)
          in put key (if 0 \<le> verifyRRSIGForType (e_lib E) (e_crypto E) zk lname rtype
                      then st\<lparr>ps_fails := ps_fails st + 1\<rparr> else st\<lparr>ps_passes := ps_passes st + 1\<rparr>) stats)"

definition unitKeys :: "env \<Rightarrow> dnssec_data \<Rightarrow> msg \<Rightarrow> zone_keys" where
  "unitKeys E d u = collect (e_lib E) (e_crypto E)
     (new_msg\<lparr>m_answer := m_answer u @ dd_keys d, m_ns := m_ns u\<rparr>)"

definition statUnit :: "env \<Rightarrow> dnssec_data \<Rightarrow> string \<Rightarrow> msg \<Rightarrow> (string \<times> pair_stat) list \<Rightarrow> (string \<times> pair_stat) list" where
  "statUnit E d apex u stats =
     (let zk = unitKeys E d u in
      fold (statSig E apex zk) (concat (map (\<lambda>(n, ss). map (\<lambda>s. (n, s)) ss) (zk_sigs zk))) stats)"

definition sigStats :: "env \<Rightarrow> string \<Rightarrow> dnssec_data \<Rightarrow> (string \<times> pair_stat) list" where
  "sigStats E zone d = fold (statUnit E d (fqdn (e_lib E) (to_lower zone))) (dd_units d) []"

definition invalidSig :: "env \<Rightarrow> string \<Rightarrow> pair_stat \<Rightarrow> finding" where
  "invalidSig E zone st = ruleNew DNSSECInvalidSig zone
     ''An RRSIG does not verify against the zone DNSKEY, so the covered records fail validation.''
     [''name='' @ ps_name st @ '' type='' @ typeToString (e_lib E) (ps_rtype st)
       @ '' keytag='' @ word_str (ps_keytag st)]"

definition verifySignatures :: "env \<Rightarrow> string \<Rightarrow> dnssec_data \<Rightarrow> finding list \<times> nat" where
  "verifySignatures E zone d =
     (let stats = map snd (sigStats E zone d) in
      (map (invalidSig E zone) (filter (\<lambda>st. \<not> 0 < ps_passes st \<and> 0 < ps_fails st) stats),
       length (filter (\<lambda>st. 0 < ps_passes st) stats)))"

section \<open>The steps of a run\<close>

definition delegationStep :: "env \<Rightarrow> 's resolver \<Rightarrow> options \<Rightarrow> string \<Rightarrow> parent_view \<Rightarrow> 's runner \<Rightarrow> finding list \<times> 's runner" where
  "delegationStep E R opt zone parent s =
     (let L = e_lib E; child = childZone zone in
      case runQuery R opt (safeNewMsg L child TypeNS) s of
        (Inl _, s1) \<Rightarrow> ([], s1)
      | (Inr m, s1) \<Rightarrow>
          (if 0 < length (m_answer m)
           then delegationCompare L zone parent
                  ((extractChildFromResponse L m child)\<lparr>cv_authoritative := m_authoritative m\<rparr>)
           else [], s1))"

text \<open>The probe loop: it ends with the first name server whose query succeeds.\<close>

fun probeLoop :: "env \<Rightarrow> 's resolver \<Rightarrow> options \<Rightarrow> string \<Rightarrow> string list \<Rightarrow> 's runner \<Rightarrow> finding list \<times> 's runner" where
  "probeLoop E R opt zone [] s = ([], s)"
| "probeLoop E R opt zone (h # hs) s =
     (case runQuery R opt (safeNewMsg (e_lib E) zone TypeSOA) s of
        (Inl _, s1) \<Rightarrow> probeLoop E R opt zone hs s1
      | (Inr m, s1) \<Rightarrow>
          (checkServer zone h (map_option (\<lambda>pr. pr\<lparr>pr_udp := True\<rparr>) (probeResponse (Some m))), s1))"

definition brokenReason :: "chain_result \<Rightarrow> string" where
  "brokenReason cr =
     (let reason = (if cr_reason cr = '''' then cr_brokenAt cr else cr_reason cr)
      in if reason = '''' then ''validation failed'' else reason)"

text \<open>The verdict on the chain, after the checks of the zone and the failing signatures.\<close>

definition chainFindings :: "env \<Rightarrow> string \<Rightarrow> zone_keys \<Rightarrow> zone_keys \<Rightarrow> finding list \<Rightarrow> nat \<Rightarrow> finding list" where
  "chainFindings E zone anchor zk sigFailures verified =
     (if \<not> hasDS anchor then [ruleNew DNSSECNoDS zone
        ''The zone is DNSSEC-signed but the parent publishes no DS record, so the chain of trust cannot be established.'' []]
      else let cr = validateChain (e_lib E) (e_crypto E) anchor zk (e_now E) in
        if \<not> cr_valid cr then [ruleNew DNSSECBrokenChain zone
          ''The DNSSEC chain of trust does not validate for this zone.'' [brokenReason cr]]
        else if 0 < verified \<and> length sigFailures = 0 then [ruleNew DNSSECValid zone
          ''The DNSSEC chain of trust validates and all in-zone RRSIGs verify against the zone DNSKEY.''
          [''verified_rrsets='' @ nat_str verified]]
        else [])"

definition denialRecords :: "dnssec_data \<Rightarrow> section_rrs" where
  "denialRecords dd = map Some
     (rrsOfType (dd_answer dd) TypeNSEC @ rrsOfType (dd_ns dd) TypeNSEC
      @ rrsOfType (dd_answer dd) TypeNSEC3 @ rrsOfType (dd_ns dd) TypeNSEC3)"

definition zoneKeys :: "env \<Rightarrow> string \<Rightarrow> dnssec_data \<Rightarrow> zone_keys" where
  "zoneKeys E zone dd = inZone (e_lib E) zone
     (collect (e_lib E) (e_crypto E) (new_msg\<lparr>m_answer := dd_answer dd, m_ns := dd_ns dd\<rparr>))"

definition anchorKeys :: "env \<Rightarrow> dnssec_data \<Rightarrow> zone_keys" where
  "anchorKeys E dd = collect (e_lib E) (e_crypto E) (dd_ds dd)"

definition dnssecStep :: "env \<Rightarrow> string \<Rightarrow> dnssec_data \<Rightarrow> finding list" where
  "dnssecStep E zone dd =
     (let zk = zoneKeys E zone dd; anchor = anchorKeys E dd;
          (sigFailures, verified) = verifySignatures E zone dd
      in if hasDNSKEY zk \<or> hasRRSIG zk \<or> hasDS anchor then
           checkZone (e_lib E) zone zk (e_now E) @ sigFailures
           @ chainFindings E zone anchor zk sigFailures verified
           @ nsecCheck zone (nsecAnalyze (denialRecords dd))
         else [])"

definition axfrOne :: "options \<Rightarrow> string \<Rightarrow> string \<Rightarrow> go_error + rr list \<Rightarrow> finding list" where
  "axfrOne opt zone h x =
     (let cfg = axfrDefaultConfig\<lparr>ax_show := opt_showaxfr opt\<rparr>;
          o0 = (parseTransferResult (makeTransferResp x) cfg)\<lparr>o_server := h\<rparr>;
          oc = (if x = Inl ErrZoneRefused then o0\<lparr>o_status := ''refused''\<rparr> else o0)
      in axfrEvaluate zone h (Some oc))"

fun axfrLoop :: "env \<Rightarrow> 's resolver \<Rightarrow> options \<Rightarrow> string \<Rightarrow> string list \<Rightarrow> 's runner \<Rightarrow> finding list \<times> 's runner" where
  "axfrLoop E R opt zone [] s = ([], s)"
| "axfrLoop E R opt zone (h # hs) s =
     (let (x, s1) = runTransfer R opt (safeNewMsg (e_lib E) zone TypeAXFR) s;
          (fs, s2) = axfrLoop E R opt zone hs s1
      in (axfrOne opt zone h x @ fs, s2))"

definition wildcardStep :: "env \<Rightarrow> 's resolver \<Rightarrow> options \<Rightarrow> string \<Rightarrow> 's runner \<Rightarrow> finding list \<times> 's runner" where
  "wildcardStep E R opt zone s =
     (case probeName (e_probe2 E) zone of
        None \<Rightarrow> ([], s)
      | Some n \<Rightarrow> (case runQuery R opt (safeNewMsg (e_lib E) n TypeA) s of
          (Inl _, s1) \<Rightarrow> ([], s1)
        | (Inr m, s1) \<Rightarrow>
            (if isWildcardResponse (e_lib E) (Some m) n then wildcardCheck zone n True else [], s1)))"

fun recursionLoop :: "env \<Rightarrow> 's resolver \<Rightarrow> options \<Rightarrow> string \<Rightarrow> nat \<Rightarrow> string list \<Rightarrow> 's runner \<Rightarrow> finding list \<times> 's runner" where
  "recursionLoop E R opt zone i [] s = ([], s)"
| "recursionLoop E R opt zone i (h # hs) s =
     (case randomName (e_rec E i) zone of
        None \<Rightarrow> recursionLoop E R opt zone (i + 1) hs s
      | Some n \<Rightarrow> (case runQuery R opt (safeNewMsg (e_lib E) n TypeA) s of
          (Inl _, s1) \<Rightarrow> recursionLoop E R opt zone (i + 1) hs s1
        | (Inr m, s1) \<Rightarrow>
            (let (fs, s2) = recursionLoop E R opt zone (i + 1) hs s1
             in (activeCheck h zone (Some (checkRecursion h zone (Some m))) @ fs, s2))))"

section \<open>The run\<close>

definition withAny :: "msg \<Rightarrow> go_error + msg \<Rightarrow> msg" where
  "withAny resp x = (case x of Inl _ \<Rightarrow> resp
     | Inr a \<Rightarrow> resp\<lparr>m_answer := m_answer resp @ m_answer a, m_ns := m_ns resp @ m_ns a\<rparr>)"

text \<open>Steps 3 to 7, on the records already collected.\<close>

definition recordChecks :: "env \<Rightarrow> options \<Rightarrow> string \<Rightarrow> msg \<Rightarrow> section_rrs \<Rightarrow> finding list" where
  "recordChecks E opt zone resp apexRecords =
     (let L = e_lib E in
      (case soaOf (m_answer resp) of None \<Rightarrow> [] | Some s \<Rightarrow> soaCheck L (e_date E) zone (Some s))
      @ ttlCheck L zone (opt_profile opt) (collectAll newCollector resp)
      @ caaCheck zone (map Some (rrsOfType apexRecords TypeCAA))
      @ addrsCheckAll zone apexRecords
      @ cnameCheck zone (buildGraph L apexRecords) 8 (buildResolveTarget L apexRecords zone))"

definition run :: "env \<Rightarrow> 's resolver \<Rightarrow> options \<Rightarrow> string \<Rightarrow> 's runner \<Rightarrow> audit_result \<times> 's runner" where
  "run E R opt zone s0 =
     (let L = e_lib E;
          res = \<lparr>ar_zone = zone, ar_findings = [], ar_resolver = opt_resolver opt, ar_queries = 0, ar_records = 0\<rparr>;
          (first, s1) = runQuery R opt (safeNewMsg L zone TypeNS) s0
      in case first of
        Inl _ \<Rightarrow> (addFinding res (ruleNew GeneralError zone ''Initial resolution failed.'' []), s1)
      | Inr resp0 \<Rightarrow>
        (let (anyR, s2) = runQuery R opt (safeNewMsg L zone TypeANY) s1;
             resp = withAny resp0 anyR;
             (apexRecords, apexUnits, s3) = collectApexRecords L R opt zone resp s2;
             parent = extractNSFromResponse L resp zone;
             (fDeleg, s4) = delegationStep E R opt zone parent s3;
             (fProbe, s5) = (if opt_resolver opt \<noteq> ''fake'' \<and> m_authoritative resp
                             then probeLoop E R opt zone (pv_ns parent) s4 else ([], s4));
             fRecords = recordChecks E opt zone resp apexRecords;
             (dd, s6) = collectDNSSEC E R opt zone resp apexRecords apexUnits s5;
             fDnssec = dnssecStep E zone dd;
             (fAxfr, s7) = (if opt_active opt then axfrLoop E R opt zone (pv_ns parent) s6 else ([], s6));
             (fWild, s8) = wildcardStep E R opt zone s7;
             (fRec, s9) = (if opt_active opt then recursionLoop E R opt zone 0 (pv_ns parent) s8 else ([], s8));
             res1 = addFindings res (fDeleg @ fProbe @ fRecords @ fDnssec @ fAxfr @ fWild @ fRec)
         in (res1\<lparr>ar_findings := sortFindings (ar_findings res1),
                  ar_records := int (length (m_answer resp) + length (m_ns resp) + length apexRecords
                    + length (dd_answer dd) + length (dd_ns dd)),
                  ar_queries := rn_queries s9\<rparr>, s9)))"

section \<open>Lemmas: findings of the steps\<close>

lemma addFindings_eq:
  "addFindings r fs = r\<lparr>ar_findings := ar_findings r @ map (\<lambda>f. f\<lparr>f_zone := ar_zone r\<rparr>) fs\<rparr>"
  by (induction fs arbitrary: r) (auto simp: addFindings_def addFinding_def)

lemma delegationStep_wf: "f \<in> set (fst (delegationStep E R opt zone p s)) \<Longrightarrow> wf_finding f"
  by (auto simp: delegationStep_def Let_def split: prod.splits sum.splits if_splits dest: delegationCompare_wf)

lemma probeLoop_wf: "f \<in> set (fst (probeLoop E R opt zone hs s)) \<Longrightarrow> wf_finding f"
  by (induction E R opt zone hs s rule: probeLoop.induct)
    (auto split: prod.splits sum.splits dest: checkServer_wf)

lemma recordChecks_wf: "f \<in> set (recordChecks E opt zone resp recs) \<Longrightarrow> wf_finding f"
  by (auto simp: recordChecks_def Let_def addrsCheckAll_def split: option.splits
      dest: soaCheck_wf ttlCheck_wf caaCheck_wf checkAddrs_wf cnameCheck_wf)

lemma verifySignatures_wf: "f \<in> set (fst (verifySignatures E zone d)) \<Longrightarrow> wf_finding f"
  by (auto simp: verifySignatures_def Let_def invalidSig_def)

lemma chainFindings_wf: "f \<in> set (chainFindings E zone anchor zk sf v) \<Longrightarrow> wf_finding f"
  by (auto simp: chainFindings_def Let_def split: if_splits)

lemma dnssecStep_wf: "f \<in> set (dnssecStep E zone dd) \<Longrightarrow> wf_finding f"
  by (auto simp: dnssecStep_def Let_def split_beta split: if_splits
      dest: checkZone_wf nsecCheck_wf chainFindings_wf verifySignatures_wf)

lemma axfrLoop_wf: "f \<in> set (fst (axfrLoop E R opt zone hs s)) \<Longrightarrow> wf_finding f"
  by (induction E R opt zone hs s rule: axfrLoop.induct)
    (auto simp: Let_def axfrOne_def split: prod.splits dest: axfrEvaluate_wf)

lemma wildcardStep_wf: "f \<in> set (fst (wildcardStep E R opt zone s)) \<Longrightarrow> wf_finding f"
  by (auto simp: wildcardStep_def split: option.splits prod.splits sum.splits if_splits dest: wildcardCheck_wf)

lemma recursionLoop_wf: "f \<in> set (fst (recursionLoop E R opt zone i hs s)) \<Longrightarrow> wf_finding f"
  by (induction E R opt zone i hs s rule: recursionLoop.induct)
    (auto simp: Let_def split: option.splits prod.splits sum.splits dest: activeCheck_wf)

lemmas step_wf = delegationStep_wf probeLoop_wf recordChecks_wf dnssecStep_wf axfrLoop_wf
  wildcardStep_wf recursionLoop_wf

text \<open>
  C28. Whatever the resolver answers, the findings of a run are sorted in the report order, carry the
  zone of the run, and each is an instance of a rule of the catalog with a valid severity.
\<close>

theorem run_findings_wf:
  "sorted_cmp compareFinding (ar_findings (fst (run E R opt zone s))) \<and>
   list_all (\<lambda>f. wf_finding f \<and> f_zone f = zone) (ar_findings (fst (run E R opt zone s)))"
proof (cases "fst (runQuery R opt (safeNewMsg (e_lib E) zone TypeNS) s)")
  case (Inl e)
  then show ?thesis by (simp add: run_def Let_def split_beta addFinding_def)
next
  case (Inr m)
  then show ?thesis
    by (auto simp: run_def Let_def split_beta addFindings_eq sortFindings_def
        finding_order.sorted_sort_stable list_all_iff split: if_splits dest: step_wf)
qed

section \<open>Lemmas: counting queries\<close>

lemma runQuery_count [simp]: "rn_queries (snd (runQuery R opt m s)) = rn_queries s + 1"
  by (simp add: runQuery_def Let_def split_beta)

lemma runTransfer_count [simp]: "rn_queries (snd (runTransfer R opt m s)) = rn_queries s + 1"
  by (simp add: runTransfer_def Let_def split_beta)

lemma snd_askAll:
  "snd (askAll L R opt (q # qs) s) = snd (askAll L R opt qs (snd (runQuery R opt (safeNewMsg L (fst q) (snd q)) s)))"
  by (cases q) (simp add: split_beta Let_def split: sum.split)

declare askAll.simps(2) [simp del]

lemma askAll_count: "rn_queries (snd (askAll L R opt qs s)) = rn_queries s + int (length qs)"
  by (induction qs arbitrary: s) (simp_all add: snd_askAll)

lemma collectApexRecords_count:
  "rn_queries (snd (snd (collectApexRecords L R opt zone m s))) =
     rn_queries s + 6 + 2 * int (length (nsHosts L (m_answer m)))"
proof -
  have l: "length (concat (map (\<lambda>n. [(n, TypeA), (n, TypeAAAA)]) hs)) = 2 * length hs" for hs :: "string list"
    by (induction hs) auto
  show ?thesis by (simp add: collectApexRecords_def Let_def split_beta askAll_count l) (simp add: apexTypes_def)
qed

text \<open>The states that the steps which may stop early leave.\<close>

lemma snd_collectDNSSEC:
  "snd (collectDNSSEC E R opt zone m recs us s) =
     (let s1 = snd (askAll (e_lib E) R opt [(zone, TypeDNSKEY), (zone, TypeDS)] s) in
      case probeName (e_probe1 E) zone of None \<Rightarrow> s1
      | Some n \<Rightarrow> snd (runQuery R opt (safeNewMsg (e_lib E) n TypeA) s1))"
  by (simp add: collectDNSSEC_def Let_def split_beta split: option.split sum.split)

lemma snd_delegationStep:
  "snd (delegationStep E R opt zone p s) = snd (runQuery R opt (safeNewMsg (e_lib E) (childZone zone) TypeNS) s)"
  by (simp add: delegationStep_def Let_def split_beta split: sum.split)

lemma snd_wildcardStep:
  "snd (wildcardStep E R opt zone s) = (case probeName (e_probe2 E) zone of None \<Rightarrow> s
     | Some n \<Rightarrow> snd (runQuery R opt (safeNewMsg (e_lib E) n TypeA) s))"
  by (simp add: wildcardStep_def split_beta split: option.split sum.split)

lemma snd_probeLoop:
  "snd (probeLoop E R opt zone (h # hs) s) =
     (let q = runQuery R opt (safeNewMsg (e_lib E) zone TypeSOA) s in
      case fst q of Inl _ \<Rightarrow> snd (probeLoop E R opt zone hs (snd q)) | Inr _ \<Rightarrow> snd q)"
  by (simp add: split_beta Let_def split: sum.split)

lemma snd_axfrLoop:
  "snd (axfrLoop E R opt zone (h # hs) s) =
     snd (axfrLoop E R opt zone hs (snd (runTransfer R opt (safeNewMsg (e_lib E) zone TypeAXFR) s)))"
  by (simp add: Let_def split_beta)

lemma snd_recursionLoop:
  "snd (recursionLoop E R opt zone i (h # hs) s) = snd (recursionLoop E R opt zone (i + 1) hs
     (case randomName (e_rec E i) zone of None \<Rightarrow> s
      | Some n \<Rightarrow> snd (runQuery R opt (safeNewMsg (e_lib E) n TypeA) s)))"
  by (simp add: Let_def split_beta split: option.split sum.split)

lemmas snd_steps = snd_collectDNSSEC snd_delegationStep snd_wildcardStep snd_probeLoop snd_axfrLoop snd_recursionLoop

declare probeLoop.simps(2) [simp del] axfrLoop.simps(2) [simp del] recursionLoop.simps(2) [simp del]

lemma collectDNSSEC_count:
  "rn_queries (snd (collectDNSSEC E R opt zone m recs us s)) \<le> rn_queries s + 3"
  by (auto simp: snd_steps Let_def askAll_count split: option.split)

lemma delegationStep_count: "rn_queries (snd (delegationStep E R opt zone p s)) = rn_queries s + 1"
  by (simp add: snd_steps)

lemma probeLoop_count: "rn_queries (snd (probeLoop E R opt zone hs s)) \<le> rn_queries s + int (length hs)"
proof (induction hs arbitrary: s)
  case (Cons h hs)
  show ?case using Cons [of "snd (runQuery R opt (safeNewMsg (e_lib E) zone TypeSOA) s)"]
    by (simp add: snd_steps Let_def split: sum.split)
qed simp

lemma axfrLoop_count: "rn_queries (snd (axfrLoop E R opt zone hs s)) = rn_queries s + int (length hs)"
  by (induction hs arbitrary: s) (simp_all add: snd_steps)

lemma wildcardStep_count: "rn_queries (snd (wildcardStep E R opt zone s)) \<le> rn_queries s + 1"
  by (simp add: snd_steps split: option.split)

lemma recursionLoop_count: "rn_queries (snd (recursionLoop E R opt zone i hs s)) \<le> rn_queries s + int (length hs)"
proof (induction hs arbitrary: i s)
  case (Cons h hs)
  let ?s = "case randomName (e_rec E i) zone of None \<Rightarrow> s
      | Some n \<Rightarrow> snd (runQuery R opt (safeNewMsg (e_lib E) n TypeA) s)"
  have "rn_queries ?s \<le> rn_queries s + 1" by (simp split: option.split)
  then show ?case using Cons [of "i + 1" ?s] unfolding snd_recursionLoop by (simp del: option.case_eq_if)
qed simp

text \<open>The response the checks see: the answer to the NS query with that to the ANY query appended.\<close>

definition initial_response :: "env \<Rightarrow> 's resolver \<Rightarrow> options \<Rightarrow> string \<Rightarrow> 's runner \<Rightarrow> msg option" where
  "initial_response E R opt zone s =
     (case runQuery R opt (safeNewMsg (e_lib E) zone TypeNS) s of
        (Inl _, _) \<Rightarrow> None
      | (Inr m, s1) \<Rightarrow> Some (withAny m (fst (runQuery R opt (safeNewMsg (e_lib E) zone TypeANY) s1))))"

text \<open>
  C29. How many queries a run makes. A run whose first query fails makes only that one, reports
  the single error finding, and leaves its counter of queries at zero; any other run makes at
  most thirteen, two for every name server of the answer, and one for every listed name server, or
  three with the active checks.
\<close>

theorem run_query_bound:
  "case initial_response E R opt zone s of
     None \<Rightarrow> rn_queries (snd (run E R opt zone s)) = rn_queries s + 1 \<and>
       ar_queries (fst (run E R opt zone s)) = 0 \<and>
       map f_id (ar_findings (fst (run E R opt zone s))) = [r_id GeneralError]
   | Some resp \<Rightarrow> ar_queries (fst (run E R opt zone s)) = rn_queries (snd (run E R opt zone s)) \<and>
       rn_queries (snd (run E R opt zone s)) \<le> rn_queries s + 13
         + 2 * int (length (nsHosts (e_lib E) (m_answer resp)))
         + (if opt_active opt then 3 else 1) * int (length (pv_ns (extractNSFromResponse (e_lib E) resp zone)))"
proof (cases "fst (runQuery R opt (safeNewMsg (e_lib E) zone TypeNS) s)")
  case (Inl e)
  then show ?thesis by (simp add: initial_response_def run_def Let_def split_beta addFinding_def)
next
  case (Inr m)
  let ?L = "e_lib E"
  define s1 where "s1 = snd (runQuery R opt (safeNewMsg ?L zone TypeNS) s)"
  define q2 where "q2 = runQuery R opt (safeNewMsg ?L zone TypeANY) s1"
  define resp where "resp = withAny m (fst q2)"
  define ns where "ns = pv_ns (extractNSFromResponse ?L resp zone)"
  define c where "c = collectApexRecords ?L R opt zone resp (snd q2)"
  define s4 where "s4 = snd (delegationStep E R opt zone (extractNSFromResponse ?L resp zone) (snd (snd c)))"
  define s5 where "s5 = (if opt_resolver opt \<noteq> ''fake'' \<and> m_authoritative resp
     then snd (probeLoop E R opt zone ns s4) else s4)"
  define s6 where "s6 = snd (collectDNSSEC E R opt zone resp (fst c) (fst (snd c)) s5)"
  define s7 where "s7 = (if opt_active opt then snd (axfrLoop E R opt zone ns s6) else s6)"
  define s8 where "s8 = snd (wildcardStep E R opt zone s7)"
  define s9 where "s9 = (if opt_active opt then snd (recursionLoop E R opt zone 0 ns s8) else s8)"
  have final: "snd (run E R opt zone s) = s9" "ar_queries (fst (run E R opt zone s)) = rn_queries s9"
    by (simp_all add: run_def Let_def split_beta Inr s1_def q2_def resp_def ns_def c_def s4_def s5_def s6_def
        s7_def s8_def s9_def)
  have i: "initial_response E R opt zone s = Some resp"
    by (simp add: initial_response_def split_beta Inr s1_def q2_def resp_def)
  have "rn_queries s1 = rn_queries s + 1" by (simp add: s1_def)
  moreover have "rn_queries (snd q2) = rn_queries s1 + 1" by (simp add: q2_def)
  moreover have "rn_queries (snd (snd c)) = rn_queries (snd q2) + 6 + 2 * int (length (nsHosts ?L (m_answer resp)))"
    by (simp add: c_def collectApexRecords_count)
  moreover have "rn_queries s4 = rn_queries (snd (snd c)) + 1" by (simp add: s4_def delegationStep_count)
  moreover have "rn_queries s5 \<le> rn_queries s4 + int (length ns)" using probeLoop_count [of E R opt zone ns s4] by (simp add: s5_def)
  moreover have "rn_queries s6 \<le> rn_queries s5 + 3" by (simp add: s6_def collectDNSSEC_count)
  moreover have "rn_queries s7 = rn_queries s6 + (if opt_active opt then int (length ns) else 0)"
    by (simp add: s7_def axfrLoop_count)
  moreover have "rn_queries s8 \<le> rn_queries s7 + 1" by (simp add: s8_def wildcardStep_count)
  moreover have "rn_queries s9 \<le> rn_queries s8 + (if opt_active opt then int (length ns) else 0)"
    using recursionLoop_count [of E R opt zone 0 ns s8] by (simp add: s9_def)
  ultimately show ?thesis unfolding i final ns_def [symmetric] by (auto simp: ns_def)
qed

section \<open>What a run leaves in its resolver\<close>

text \<open>
  A relation between the states before and after that every query and every transfer
  respects is respected by the whole run.
\<close>

locale run_relation =
  fixes R :: "'s resolver" and P :: "'s runner \<Rightarrow> 's runner \<Rightarrow> bool"
  assumes refl: "P s s"
    and trans: "P s t \<Longrightarrow> P t u \<Longrightarrow> P s u"
    and query: "P s (snd (runQuery R opt m s))"
    and transfer: "P s (snd (runTransfer R opt m s))"
begin

lemma askAll_related: "P s (snd (askAll L R opt qs s))"
  by (induction qs arbitrary: s) (auto simp: snd_askAll refl intro: trans query)

lemma collectApex_related: "P s (snd (snd (collectApexRecords L R opt zone m s)))"
  by (simp add: collectApexRecords_def Let_def split_beta) (blast intro: trans askAll_related)

lemma collectDNSSEC_related: "P s (snd (collectDNSSEC E R opt zone m recs us s))"
  by (auto simp: snd_steps Let_def split: option.split intro: trans askAll_related query)

lemma delegation_related: "P s (snd (delegationStep E R opt zone p s))"
  by (simp add: snd_steps query)

lemma probe_related: "P s (snd (probeLoop E R opt zone hs s))"
  by (induction hs arbitrary: s) (auto simp: snd_steps Let_def refl split: sum.split intro: trans query)

lemma axfr_related: "P s (snd (axfrLoop E R opt zone hs s))"
  by (induction hs arbitrary: s) (auto simp: snd_steps refl intro: trans transfer)

lemma wildcard_related: "P s (snd (wildcardStep E R opt zone s))"
  by (simp add: snd_steps refl query split: option.split)

lemma recursion_related: "P s (snd (recursionLoop E R opt zone i hs s))"
proof (induction hs arbitrary: i s)
  case (Cons h hs)
  have "P s (case randomName (e_rec E i) zone of None \<Rightarrow> s
      | Some n \<Rightarrow> snd (runQuery R opt (safeNewMsg (e_lib E) n TypeA) s))"
    by (simp add: refl query split: option.split)
  then show ?case unfolding snd_recursionLoop by (rule trans) (rule Cons)
qed (simp add: refl)

lemma run_related: "P s (snd (run E R opt zone s))"
proof (cases "fst (runQuery R opt (safeNewMsg (e_lib E) zone TypeNS) s)")
  case (Inl e)
  then show ?thesis by (simp add: run_def Let_def split_beta query)
next
  case (Inr m)
  have branch': "P a b \<Longrightarrow> P a (snd (if c then f b else ([], b)))"
    if "\<And>x. P x (snd (f x))" for a b c and f :: "'s runner \<Rightarrow> finding list \<times> 's runner"
    using that by (auto intro: trans)
  show ?thesis
    unfolding run_def Let_def split_beta Inr sum.case fst_conv snd_conv
    by (intro branch' [OF recursion_related] branch' [OF axfr_related] branch' [OF probe_related]
        trans [OF _ wildcard_related] trans [OF _ collectDNSSEC_related]
        trans [OF _ delegation_related] trans [OF _ collectApex_related] trans [OF _ query] query)
qed

end

text \<open>
  The resolvers of the source: the in-memory one, and the network one. What surrounds one call of
  the network resolver is a \<open>wire\<close>: what every send gives, the context's error after a send, the
  turns of the rate limiter, a cancellation while acquiring, and what a transfer gives. It may
  be a different one for every call, which is told by the queries left and by the request.
\<close>

record wire =
  wr_send :: "string \<Rightarrow> nat \<Rightarrow> transport \<Rightarrow> go_error + msg option"
  wr_ctx :: "nat \<Rightarrow> go_error option"
  wr_turns :: "(int \<times> bool) list"
  wr_cancelled :: bool
  wr_transfer :: "go_error + msg option"

definition fakeResolver :: "dnslib \<Rightarrow> fake resolver" where
  "fakeResolver L = \<lparr>rv_query = (\<lambda>f server m. fakeQuery L (Some m) f),
     rv_transfer = (\<lambda>f server m. (fakeTransfer L (Some m) f, f))\<rparr>"

definition netResolver :: "string list option \<Rightarrow> (int \<Rightarrow> msg \<Rightarrow> wire) \<Rightarrow> network resolver" where
  "netResolver conf W =
     \<lparr>rv_query = (\<lambda>n server m. let w = W (counterRemaining (nw_counter n)) m in
        case netQuery conf (wr_send w) (wr_ctx w) (wr_turns w) (wr_cancelled w) server n of
          (Some (_, Inr (Some r)), n') \<Rightarrow> (Inr r, n')
        | (Some (_, Inl e), n') \<Rightarrow> (Inl e, n')
        | (_, n') \<Rightarrow> (Inl DeadlineExceeded, n')),
      rv_transfer = (\<lambda>n server m. let w = W (counterRemaining (nw_counter n)) m in
        case netTransfer (wr_transfer w) (wr_turns w) (wr_cancelled w) n of
          (Some r, n') \<Rightarrow> (r, n')
        | (None, n') \<Rightarrow> (Inl DeadlineExceeded, n'))\<rparr>"

definition logged :: "fake runner \<Rightarrow> fake runner \<Rightarrow> bool" where
  "logged s t \<longleftrightarrow> fk_zones (rn_res t) = fk_zones (rn_res s) \<and>
     (\<exists>xs. fk_log (rn_res t) = fk_log (rn_res s) @ xs \<and> int (length xs) \<le> rn_queries t - rn_queries s)"

lemma fakeQuery_log:
  "snd (fakeQuery L (Some m) f) = f \<or> (\<exists>q. snd (fakeQuery L (Some m) f) = recordQuery q f)"
  by (auto simp: fakeQuery_def Let_def split: list.splits option.splits)

lemma logged_trans: "logged s t \<Longrightarrow> logged t u \<Longrightarrow> logged s u"
  by (force simp: logged_def)

interpretation fake_run: run_relation "fakeResolver L" logged
proof unfold_locales
  fix s :: "fake runner" and opt m
  show "logged s (snd (runQuery (fakeResolver L) opt m s))"
    using fakeQuery_log [of L "if m_edns m = None then m\<lparr>m_edns := Some (1232, True)\<rparr> else m" "rn_res s"]
    by (auto simp: logged_def runQuery_def Let_def split_beta fakeResolver_def recordQuery_def)
  show "logged s (snd (runTransfer (fakeResolver L) opt m s))"
    by (simp add: logged_def runTransfer_def Let_def split_beta fakeResolver_def)
qed (auto simp: logged_def intro: logged_trans)

definition within_budget :: "network runner \<Rightarrow> network runner \<Rightarrow> bool" where
  "within_budget s t \<longleftrightarrow> nw_sem (rn_res t) = nw_sem (rn_res s) \<and>
     ct_remaining (nw_counter (rn_res t)) \<le> ct_remaining (nw_counter (rn_res s)) \<and>
     (0 \<le> ct_remaining (nw_counter (rn_res s)) \<longrightarrow> 0 \<le> ct_remaining (nw_counter (rn_res t))) \<and>
     ct_remaining (nw_counter (rn_res s)) - ct_remaining (nw_counter (rn_res t)) \<le> rn_queries t - rn_queries s"

lemma netResolver_state:
  "\<exists>ex ctx turns cancelled. snd (rv_query (netResolver conf W) n server m) = snd (netQuery conf ex ctx turns cancelled server n)"
  "\<exists>xch turns cancelled. snd (rv_transfer (netResolver conf W) n server m) = snd (netTransfer xch turns cancelled n)"
proof -
  let ?w = "W (counterRemaining (nw_counter n)) m"
  have "snd (rv_query (netResolver conf W) n server m)
      = snd (netQuery conf (wr_send ?w) (wr_ctx ?w) (wr_turns ?w) (wr_cancelled ?w) server n)"
    by (auto simp: netResolver_def Let_def split: prod.splits option.splits sum.splits)
  then show "\<exists>ex ctx turns cancelled. snd (rv_query (netResolver conf W) n server m) = snd (netQuery conf ex ctx turns cancelled server n)"
    by blast
  have "snd (rv_transfer (netResolver conf W) n server m)
      = snd (netTransfer (wr_transfer ?w) (wr_turns ?w) (wr_cancelled ?w) n)"
    by (auto simp: netResolver_def Let_def split: prod.splits option.splits sum.splits)
  then show "\<exists>xch turns cancelled. snd (rv_transfer (netResolver conf W) n server m) = snd (netTransfer xch turns cancelled n)"
    by blast
qed

interpretation net_run: run_relation "netResolver conf W" within_budget
proof unfold_locales
  fix s :: "network runner" and opt :: options and m :: msg
  let ?m = "if m_edns m = None then m\<lparr>m_edns := Some (1232, True)\<rparr> else m"
  obtain ex ctx turns cancelled where q: "snd (rv_query (netResolver conf W) (rn_res s) (opt_resolver opt) ?m)
      = snd (netQuery conf ex ctx turns cancelled (opt_resolver opt) (rn_res s))"
    using netResolver_state(1) by blast
  show "within_budget s (snd (runQuery (netResolver conf W) opt m s))"
    using netQuery_frame [of conf ex ctx turns cancelled "opt_resolver opt" "rn_res s"]
    by (simp add: within_budget_def runQuery_def Let_def split_beta q)
  obtain xch turns' cancelled' where t: "snd (rv_transfer (netResolver conf W) (rn_res s) (opt_resolver opt) m)
      = snd (netTransfer xch turns' cancelled' (rn_res s))"
    using netResolver_state(2) by blast
  show "within_budget s (snd (runTransfer (netResolver conf W) opt m s))"
    using netTransfer_frame [of xch turns' cancelled' "rn_res s"]
    by (simp add: within_budget_def runTransfer_def Let_def split_beta t)
qed (auto simp: within_budget_def)

text \<open>
  C17. A run on the network resolver that \<^verbatim>\<open>New\<close> builds spends its budget and no more: whatever the
  wire does, the queries granted are at most \<^verbatim>\<open>MaxQueries\<close>, each of them is counted by the
  run, and every slot of the semaphore is free again at the end.
\<close>

theorem run_within_query_budget:
  "let n0 = newNetwork now (auditConfig conf opt);
       t = snd (run E (netResolver conf W) opt zone \<lparr>rn_queries = 0, rn_res = n0\<rparr>);
       granted = ct_remaining (nw_counter n0) - ct_remaining (nw_counter (rn_res t))
   in 0 \<le> granted \<and> granted \<le> (if opt_maxqueries opt \<le> 0 then 400 else opt_maxqueries opt) \<and>
      granted \<le> rn_queries t \<and> sm_held (nw_sem (rn_res t)) = 0"
proof -
  let ?n0 = "newNetwork now (auditConfig conf opt)"
  have n0: "ct_remaining (nw_counter ?n0) = (if opt_maxqueries opt \<le> 0 then 400 else opt_maxqueries opt)"
    "sm_held (nw_sem ?n0) = 0"
    by (simp_all add: newNetwork_def auditConfig_def Let_def newCounter_def)
  show ?thesis
    using net_run.run_related [where s = "\<lparr>rn_queries = 0, rn_res = ?n0\<rparr>" and conf = conf and W = W
      and E = E and opt = opt and zone = zone]
    unfolding within_budget_def Let_def by (simp add: n0 split: if_splits)
qed

text \<open>
  A run on the in-memory server leaves its zones alone, only appends to its log, and counts at
  least the queries it logs.
\<close>

theorem run_on_fake:
  "fk_zones (rn_res (snd (run E (fakeResolver L) opt zone s))) = fk_zones (rn_res s) \<and>
   (\<exists>xs. fk_log (rn_res (snd (run E (fakeResolver L) opt zone s))) = fk_log (rn_res s) @ xs \<and>
      int (length xs) \<le> rn_queries (snd (run E (fakeResolver L) opt zone s)) - rn_queries s)"
  using fake_run.run_related [where s = s and L = L and E = E and opt = opt and zone = zone] by (simp add: logged_def)

text \<open>
  The settings a run's network resolver really works with: one query in flight, no retry, three
  seconds for each send whatever \<^verbatim>\<open>--timeout\<close> says when the context has no nearer deadline,
  and the text of \<^verbatim>\<open>--resolver\<close> itself as the address, without the port that is added to
  the default server.
\<close>

theorem audit_network_settings:
  "let n = newNetwork now (auditConfig conf opt) in
     sm_width (nw_sem n) = 1 \<and> netRetries n = 0 \<and> perContext n None = 3000000000 \<and>
     netServer conf n (opt_resolver opt) = (if opt_resolver opt = '''' then defaultServer conf [] else opt_resolver opt)"
proof -
  have "split_on CHR '','' [] = [[]]" by simp
  moreover have "defaultServer conf [] \<noteq> ''''"
    by (auto simp: defaultServer_def joinPort_def splitHostPortOk_def last_index_def split: option.splits)
  ultimately show ?thesis
    by (simp add: newNetwork_def auditConfig_def Let_def netRetries_def perContext_def netServer_def
        splitResolvers_def trim_space_def)
qed

end
