(* ===== verification/AuditFacts.thy ===== *)
theory AuditFacts
  imports AuditRun
begin

text \<open>
  What the steps of a run report (\<^verbatim>\<open>internal/audit/audit.go\<close>): transfers, dangling targets, the
  union of the DNSSEC records, failing signatures and the verdict on the chain.
\<close>

section \<open>Transfers\<close>

lemma axfrOne_allowed: "map f_id (axfrOne opt zone h (Inr rs)) = [r_id AXFRAllowed]"
  by (simp add: axfrOne_def makeTransferResp_def parseTransferResult_def rcode_defs axfrEvaluate_def Let_def)

text \<open>
  C30. The verdict on a transfer: an error is reported as a failed transfer, or as refused when it is
  the in-memory server's refusal; but over the network, once the request's turn has come, every
  message a server answers is reported as an allowed transfer, whatever its response code, so
  also a REFUSED one, since only its records are kept.
\<close>

theorem axfr_verdict:
  "map f_id (axfrOne opt zone h (Inl e)) = [r_id (if e = ErrZoneRefused then AXFRRefused else AXFRFailed)] \<and>
   (fst (spend turns cancelled n) = Some (Inr ()) \<longrightarrow>
      (\<exists>x. fst (netTransfer (Inr (Some m)) turns cancelled n) = Some x \<and>
         map f_id (axfrOne opt zone h x) = [r_id AXFRAllowed]))"
proof
  show "map f_id (axfrOne opt zone h (Inl e)) = [r_id (if e = ErrZoneRefused then AXFRRefused else AXFRFailed)]"
    by (simp add: axfrOne_def makeTransferResp_def parseTransferResult_def axfrEvaluate_def Let_def)
  show "fst (spend turns cancelled n) = Some (Inr ()) \<longrightarrow>
      (\<exists>x. fst (netTransfer (Inr (Some m)) turns cancelled n) = Some x \<and>
         map f_id (axfrOne opt zone h x) = [r_id AXFRAllowed])"
    by (auto simp: netTransfer_def axfrOne_allowed split: prod.splits)
qed

definition ex_opt :: options where
  "ex_opt = \<lparr>opt_resolver = '''', opt_profile = ''balanced'', opt_timeout = 0, opt_maxqps = 0,
     opt_maxqueries = 0, opt_active = True, opt_showaxfr = False\<rparr>"

theorem axfr_verdict_witness:
  "\<exists>x. fst (netTransfer (Inr (Some (new_msg\<lparr>m_rcode := RcodeRefused\<rparr>))) [(0, False)] False ex_net) = Some x \<and>
     map f_id (axfrOne ex_opt ''z'' ''ns'' x) = [r_id AXFRAllowed]"
proof -
  have "fst (spend [(0, False)] False ex_net) = Some (Inr ())" using ex_net_spend(1) by (metis fst_conv)
  then show ?thesis
    using axfr_verdict [of ex_opt "''z''" "''ns''" Canceled "[(0, False)]" False ex_net "new_msg\<lparr>m_rcode := RcodeRefused\<rparr>"]
    by blast
qed

section \<open>Dangling targets\<close>

lemma resolveTarget_iff:
  "buildResolveTarget L recs zone t \<longleftrightarrow>
     (\<exists>r. Some r \<in> set recs \<and> fqdnLower L (rr_name r) = fqdnLower L t) \<or>
     (has_suffix (fqdnLower L t) (CHR ''.'' # fqdnLower L zone) \<and>
        (\<exists>r. Some r \<in> set recs \<and> fqdnLower L (rr_name r) = fqdnLower L zone))"
proof -
  have S: "n \<in> (\<lambda>r. fqdnLower L (rr_name r)) ` set (somes recs) \<longleftrightarrow>
      (\<exists>r. Some r \<in> set recs \<and> fqdnLower L (rr_name r) = n)" for n
    by (auto simp: set_somes)
  show ?thesis unfolding buildResolveTarget_def Let_def fqdnLower_def [symmetric] set_map S by argo
qed

text \<open>
  C21. Which CNAME targets a run reports as dangling, for chains without loops: the final targets that
  own none of the collected records and do not lie below a zone that owns one. No query is made
  for a target, so every target outside the zone whose records were not collected is reported.
\<close>

theorem audit_dangling:
  assumes "loop_free (buildGraph L recs)"
  shows "subjects_of CNAMEDangling (cnameCheck zone (buildGraph L recs) 8 (buildResolveTarget L recs zone)) =
    {t. (\<exists>s \<in> fst ` set (buildGraph L recs). \<exists>k. ends (buildGraph L recs) k s t) \<and>
        \<not> (\<exists>r. Some r \<in> set recs \<and> fqdnLower L (rr_name r) = fqdnLower L t) \<and>
        \<not> (has_suffix (fqdnLower L t) (CHR ''.'' # fqdnLower L zone) \<and>
           (\<exists>r. Some r \<in> set recs \<and> fqdnLower L (rr_name r) = fqdnLower L zone))}"
  unfolding cname_dangling_set [OF assms] resolveTarget_iff by blast

definition ex_cname :: "rr option list" where
  "ex_cname = [Some \<lparr>rr_hdr = \<lparr>h_name = ''www.z.'', h_rrtype = TypeCNAME, h_class = 1, h_ttl = 5\<rparr>,
     rr_data = CNAME_RR ''cdn.net.''\<rparr>]"

lemma ex_cname_graph: "buildGraph plain_lib ex_cname = [(''www.z.'', ''cdn.net.'')]"
  by (simp add: buildGraph_def ex_cname_def buildRR_def fqdnLower_def plain_lib_def has_suffix_def
      to_lower_def lower_char_def)

theorem audit_dangling_witness:
  "''cdn.net.'' \<in> subjects_of CNAMEDangling (cnameCheck ''z.'' (buildGraph plain_lib ex_cname) 8
     (buildResolveTarget plain_lib ex_cname ''z.''))"
proof -
  let ?g = "buildGraph plain_lib ex_cname"
  have e: "ends ?g 1 ''www.z.'' ''cdn.net.''" by (simp add: ex_cname_graph ends_Suc)
  have "loop_free ?g" unfolding loop_free_def using e by (auto simp: ex_cname_graph intro!: exI [of _ 1])
  note D = audit_dangling [OF this, of "''z.''"]
  have n: "fqdnLower plain_lib ''cdn.net.'' = ''cdn.net.''" "fqdnLower plain_lib ''www.z.'' = ''www.z.''"
    "fqdnLower plain_lib ''z.'' = ''z.''" "\<not> has_suffix ''cdn.net.'' ''.z.''"
    by (simp_all add: fqdnLower_def plain_lib_def has_suffix_def to_lower_def lower_char_def)
  have "\<exists>s \<in> fst ` set ?g. \<exists>k. ends ?g k s ''cdn.net.''" using e by (auto simp: ex_cname_graph)
  moreover have "rr_name r = ''www.z.''" if "Some r \<in> set ex_cname" for r using that by (simp add: ex_cname_def)
  then have "\<not> (\<exists>r. Some r \<in> set ex_cname \<and> fqdnLower plain_lib (rr_name r) = fqdnLower plain_lib ''cdn.net.'')"
    using n by force
  ultimately show ?thesis unfolding D mem_Collect_eq using n(1,3,4) by simp
qed

section \<open>The union of the DNSSEC records\<close>

definition union_inv :: "dnslib \<Rightarrow> dnssec_data \<Rightarrow> bool" where
  "union_inv L d \<longleftrightarrow> distinct (map (recordKey L) (somes (dd_answer d) @ somes (dd_ns d))) \<and>
     set (dd_seen d) = recordKey L ` (set (somes (dd_answer d)) \<union> set (somes (dd_ns d)))"

lemma addAnswer_inv: "union_inv L d \<Longrightarrow> union_inv L (addAnswer L x d)"
  by (cases x) (auto simp: union_inv_def addAnswer_def)

lemma addNs_inv: "union_inv L d \<Longrightarrow> union_inv L (addNs L x d)"
  by (cases x) (auto simp: union_inv_def addNs_def)

lemma fold_inv: "(\<And>x d. P d \<Longrightarrow> P (f x d)) \<Longrightarrow> P d \<Longrightarrow> P (fold f xs d)"
  by (induction xs arbitrary: d) auto

lemma addMsg_inv: "union_inv L d \<Longrightarrow> union_inv L (addMsg L m d)"
  unfolding addMsg_def by (intro fold_inv [of "union_inv L"] addNs_inv addAnswer_inv)

lemma union_inv_frame:
  "dd_answer d' = dd_answer d \<Longrightarrow> dd_ns d' = dd_ns d \<Longrightarrow> dd_seen d' = dd_seen d \<Longrightarrow> union_inv L d \<Longrightarrow> union_inv L d'"
  by (simp add: union_inv_def)

lemma addUnit_inv: "union_inv L d \<Longrightarrow> union_inv L (addUnit L m d)"
  unfolding addUnit_def by (rule addMsg_inv) (rule union_inv_frame [of _ d]; simp)

lemma addTyped_inv: "union_inv L d \<Longrightarrow> union_inv L (addTyped L p d)"
  using addUnit_inv [of L d "snd p"] by (auto simp: addTyped_def Let_def split_beta union_inv_def)

text \<open>What was seen stays seen, and every record added is seen.\<close>

lemma seen_mono:
  "set (dd_seen d) \<subseteq> set (dd_seen (addAnswer L x d))" "set (dd_seen d) \<subseteq> set (dd_seen (addNs L x d))"
  by (auto simp: addAnswer_def addNs_def split: option.splits)

lemma fold_seen_mono:
  "(\<And>x d. set (dd_seen d) \<subseteq> set (dd_seen (f x d))) \<Longrightarrow> set (dd_seen d) \<subseteq> set (dd_seen (fold f xs d))"
  by (induction xs arbitrary: d) (auto, blast)

lemma fold_seen_all:
  assumes mono: "\<And>x d. set (dd_seen d) \<subseteq> set (dd_seen (f x d))"
    and add: "\<And>r d. recordKey L r \<in> set (dd_seen (f (Some r) d))"
  shows "Some r \<in> set xs \<Longrightarrow> recordKey L r \<in> set (dd_seen (fold f xs d))"
proof (induction xs arbitrary: d)
  case (Cons x xs)
  then show ?case using fold_seen_mono [of f "f x d" xs, OF mono] add [of r d] by auto
qed simp

lemma add_seen:
  "recordKey L r \<in> set (dd_seen (addAnswer L (Some r) d))" "recordKey L r \<in> set (dd_seen (addNs L (Some r) d))"
  by (simp_all add: addAnswer_def addNs_def)

lemma addMsg_seen:
  "set (dd_seen d) \<subseteq> set (dd_seen (addMsg L m d))"
  "Some r \<in> set (m_answer m @ m_ns m) \<Longrightarrow> recordKey L r \<in> set (dd_seen (addMsg L m d))"
proof -
  let ?a = "fold (addAnswer L) (m_answer m) d"
  have n: "set (dd_seen ?a) \<subseteq> set (dd_seen (addMsg L m d))"
    unfolding addMsg_def by (rule fold_seen_mono) (rule seen_mono)
  have a: "set (dd_seen d) \<subseteq> set (dd_seen ?a)" by (rule fold_seen_mono) (rule seen_mono)
  show "set (dd_seen d) \<subseteq> set (dd_seen (addMsg L m d))" using a n by blast
  assume "Some r \<in> set (m_answer m @ m_ns m)"
  then consider "Some r \<in> set (m_answer m)" | "Some r \<in> set (m_ns m)" by auto
  then show "recordKey L r \<in> set (dd_seen (addMsg L m d))"
  proof cases
    case 1
    then have "recordKey L r \<in> set (dd_seen ?a)" by (rule fold_seen_all [OF seen_mono(1) add_seen(1)])
    then show ?thesis using n by blast
  next
    case 2
    then show ?thesis unfolding addMsg_def by (rule fold_seen_all [OF seen_mono(2) add_seen(2)])
  qed
qed

lemma addTyped_mono: "set (dd_seen d) \<subseteq> set (dd_seen (addTyped L p d))"
  using addMsg_seen(1) [of "d\<lparr>dd_units := dd_units d @ [snd p]\<rparr>" L "snd p"]
  by (auto simp: addTyped_def addUnit_def Let_def split_beta)

lemma addUnit_mono: "set (dd_seen d) \<subseteq> set (dd_seen (addUnit L m d))"
  using addMsg_seen(1) [of "d\<lparr>dd_units := dd_units d @ [m]\<rparr>" L m] by (simp add: addUnit_def)

lemma collectDNSSEC_represents:
  "distinct (map (recordKey (e_lib E)) (somes (dd_answer (fst (collectDNSSEC E R opt zone m recs us s)))
      @ somes (dd_ns (fst (collectDNSSEC E R opt zone m recs us s))))) \<and>
   recordKey (e_lib E) ` set (somes (m_answer m @ m_ns m @ recs))
     \<subseteq> recordKey (e_lib E) ` (set (somes (dd_answer (fst (collectDNSSEC E R opt zone m recs us s))))
         \<union> set (somes (dd_ns (fst (collectDNSSEC E R opt zone m recs us s)))))"
proof -
  let ?L = "e_lib E"
  let ?d = "fst (collectDNSSEC E R opt zone m recs us s)"
  define d0 where "d0 = \<lparr>dd_units = m # us, dd_keys = [], dd_seen = [], dd_answer = [], dd_ns = [], dd_ds = new_msg\<rparr>"
  define d1 where "d1 = fold (addAnswer ?L) recs (addMsg ?L m d0)"
  define ts where "ts = fst (askAll ?L R opt [(zone, TypeDNSKEY), (zone, TypeDS)] s)"
  define d2 where "d2 = fold (addTyped ?L) ts d1"
  have d: "?d = d2 \<or> (\<exists>u. ?d = addUnit ?L u d2)"
    by (auto simp: collectDNSSEC_def Let_def split_beta d0_def d1_def d2_def ts_def split: option.split sum.split)
  have "union_inv ?L d0" by (simp add: d0_def union_inv_def)
  then have "union_inv ?L d1" unfolding d1_def by (intro fold_inv [of "union_inv ?L"] addAnswer_inv addMsg_inv)
  then have "union_inv ?L d2" unfolding d2_def by (intro fold_inv [of "union_inv ?L"] addTyped_inv)
  then have inv: "union_inv ?L ?d" using d addUnit_inv by metis
  have seen1: "recordKey ?L r \<in> set (dd_seen d1)" if "Some r \<in> set (m_answer m @ m_ns m @ recs)" for r
  proof (cases "Some r \<in> set recs")
    case True
    then show ?thesis unfolding d1_def by (rule fold_seen_all [OF seen_mono(1) add_seen(1)])
  next
    case False
    then have "recordKey ?L r \<in> set (dd_seen (addMsg ?L m d0))" using that by (intro addMsg_seen(2)) auto
    then show ?thesis unfolding d1_def using fold_seen_mono [of "addAnswer ?L", OF seen_mono(1)] by blast
  qed
  have "set (dd_seen d1) \<subseteq> set (dd_seen d2)" unfolding d2_def by (rule fold_seen_mono) (rule addTyped_mono)
  moreover have "set (dd_seen d2) \<subseteq> set (dd_seen ?d)" using d addUnit_mono by fastforce
  ultimately have seen: "recordKey ?L r \<in> set (dd_seen ?d)" if "Some r \<in> set (m_answer m @ m_ns m @ recs)" for r
    using seen1 [OF that] by blast
  have all: "set (dd_seen ?d) = recordKey ?L ` (set (somes (dd_answer ?d)) \<union> set (somes (dd_ns ?d)))"
    and dis: "distinct (map (recordKey ?L) (somes (dd_answer ?d) @ somes (dd_ns ?d)))"
    using inv unfolding union_inv_def by blast+
  show ?thesis
  proof (intro conjI dis subsetI, elim imageE)
    fix k r assume k: "k = recordKey ?L r" and "r \<in> set (somes (m_answer m @ m_ns m @ recs))"
    then have "Some r \<in> set (m_answer m @ m_ns m @ recs)" by (simp only: set_somes)
    from seen [OF this] show "k \<in> recordKey ?L ` (set (somes (dd_answer ?d)) \<union> set (somes (dd_ns ?d)))"
      unfolding all k .
  qed
qed

text \<open>
  C22. The records gathered for the DNSSEC checks form a union without repetition: over the answer and
  authority sections together no two have the same owner, type and data, and every record of the
  initial response and of the apex queries is represented.
\<close>

theorem collectDNSSEC_union:
  "distinct (map (recordKey (e_lib E)) (somes (dd_answer (fst (collectDNSSEC E R opt zone m recs us s)))
      @ somes (dd_ns (fst (collectDNSSEC E R opt zone m recs us s))))) \<and>
   recordKey (e_lib E) ` set (somes (m_answer m @ m_ns m @ recs))
     \<subseteq> recordKey (e_lib E) ` (set (somes (dd_answer (fst (collectDNSSEC E R opt zone m recs us s))))
         \<union> set (somes (dd_ns (fst (collectDNSSEC E R opt zone m recs us s)))))"
  by (intro conjI collectDNSSEC_represents [THEN conjunct1] collectDNSSEC_represents [THEN conjunct2])

section \<open>Failing signatures\<close>

text \<open>
  One verification of a record set: the set, the statistics a first verification starts with,
  and whether it passed. \<^term>\<open>None\<close> for a signature that is skipped.
\<close>

definition sigEvent :: "env \<Rightarrow> string \<Rightarrow> zone_keys \<Rightarrow> string \<times> rrsig_info \<Rightarrow> (string \<times> pair_stat \<times> bool) option" where
  "sigEvent E apex zk = (\<lambda>(name, sig).
     let lname = fqdn (e_lib E) (to_lower name); rtype = si_typecovered sig in
     if (lname = apex \<or> has_suffix lname (CHR ''.'' # apex)) \<and> rtype \<noteq> TypeDS \<and>
        zk_bytype zk lname rtype \<noteq> [] \<and> hasKeyForTag zk (si_keytag sig)
     then Some (lname @ ''/'' @ word_str rtype,
       \<lparr>ps_passes = 0, ps_fails = 0, ps_name = lname, ps_rtype = rtype, ps_keytag = si_keytag sig\<rparr>,
       verifyRRSIGForType (e_lib E) (e_crypto E) zk lname rtype < 0)
     else None)"

definition bump :: "string \<times> pair_stat \<times> bool \<Rightarrow> (string \<times> pair_stat) list \<Rightarrow> (string \<times> pair_stat) list" where
  "bump = (\<lambda>(k, st0, ok) stats.
     let st = (case map_of stats k of Some st \<Rightarrow> st | None \<Rightarrow> st0)
     in put k (if ok then st\<lparr>ps_passes := ps_passes st + 1\<rparr> else st\<lparr>ps_fails := ps_fails st + 1\<rparr>) stats)"

definition sigEvents :: "env \<Rightarrow> string \<Rightarrow> dnssec_data \<Rightarrow> (string \<times> pair_stat \<times> bool) list" where
  "sigEvents E zone d = concat (map (\<lambda>u. let zk = unitKeys E d u in
     List.map_filter (sigEvent E (fqdn (e_lib E) (to_lower zone)) zk)
       (concat (map (\<lambda>(n, ss). map (\<lambda>s. (n, s)) ss) (zk_sigs zk)))) (dd_units d))"

lemma statSig_event:
  "statSig E apex zk x stats = (case sigEvent E apex zk x of None \<Rightarrow> stats | Some e \<Rightarrow> bump e stats)"
  by (cases x) (auto simp: statSig_def sigEvent_def bump_def Let_def not_less split: option.split)

lemma statSig_fun: "statSig E apex zk = (\<lambda>x s. case sigEvent E apex zk x of None \<Rightarrow> s | Some e \<Rightarrow> bump e s)"
  by (intro ext) (rule statSig_event)

lemma fold_map_filter: "fold (\<lambda>x s. case f x of None \<Rightarrow> s | Some e \<Rightarrow> g e s) xs s = fold g (List.map_filter f xs) s"
  by (induction xs arbitrary: s) (auto simp: List.map_filter_def split: option.split)

lemma sigStats_events: "sigStats E zone d = fold bump (sigEvents E zone d) []"
proof -
  have "fold (statUnit E d apex) us s = fold bump (concat (map (\<lambda>u. let zk = unitKeys E d u in
     List.map_filter (sigEvent E apex zk) (concat (map (\<lambda>(n, ss). map (\<lambda>s. (n, s)) ss) (zk_sigs zk)))) us)) s" for apex us s
    by (induction us arbitrary: s) (simp_all add: statUnit_def Let_def statSig_fun fold_map_filter)
  then show ?thesis by (simp add: sigStats_def sigEvents_def)
qed

text \<open>The verifications of one record set among the events.\<close>

definition outcomes :: "string \<Rightarrow> bool \<Rightarrow> (string \<times> pair_stat \<times> bool) list \<Rightarrow> nat" where
  "outcomes k b evs = length (filter (\<lambda>(k', _, ok). k' = k \<and> ok = b) evs)"

definition fresh_events :: "(string \<times> pair_stat \<times> bool) list \<Rightarrow> bool" where
  "fresh_events evs \<longleftrightarrow> (\<forall>(k, st, ok) \<in> set evs. ps_passes st = 0 \<and> ps_fails st = 0)"

lemma fresh_sigEvents: "fresh_events (sigEvents E zone d)"
  by (auto simp: fresh_events_def sigEvents_def Let_def set_map_filter sigEvent_def split: if_splits)

lemma bump_fold:
  "fresh_events evs \<Longrightarrow> distinct (map fst (fold bump evs [])) \<and> fst ` set (fold bump evs []) = fst ` set evs \<and>
     (\<forall>k st. map_of (fold bump evs []) k = Some st \<longrightarrow> ps_passes st = outcomes k True evs \<and> ps_fails st = outcomes k False evs)"
proof (induction evs rule: rev_induct)
  case (snoc e evs)
  obtain k st0 ok where e: "e = (k, st0, ok)" by (cases e)
  let ?s = "fold bump evs []"
  have fr: "fresh_events evs" "ps_passes st0 = 0" "ps_fails st0 = 0" using snoc.prems unfolding e by (auto simp: fresh_events_def)
  note IH = snoc.IH [OF fr(1)]
  have new: "outcomes k b evs = 0" if "map_of ?s k = None" for b
  proof -
    have "k \<notin> fst ` set evs" using IH that by (metis map_of_eq_None_iff)
    then show ?thesis by (force simp: outcomes_def filter_empty_conv)
  qed
  have f: "fold bump (evs @ [e]) [] = put k (let st = (case map_of ?s k of Some st \<Rightarrow> st | None \<Rightarrow> st0)
     in if ok then st\<lparr>ps_passes := ps_passes st + 1\<rparr> else st\<lparr>ps_fails := ps_fails st + 1\<rparr>) ?s"
    unfolding e by (simp add: bump_def Let_def)
  have o: "outcomes j b (evs @ [e]) = outcomes j b evs + (if j = k \<and> b = ok then 1 else 0)" for j b
    unfolding e by (auto simp: outcomes_def)
  have "ps_passes st = outcomes j True (evs @ [e]) \<and> ps_fails st = outcomes j False (evs @ [e])"
    if "map_of (fold bump (evs @ [e]) []) j = Some st" for j st
  proof (cases "j = k")
    case True
    then show ?thesis using that IH new fr(2,3) unfolding f o by (cases "map_of ?s k") (auto simp: Let_def)
  next
    case False
    then show ?thesis using that IH unfolding f o by (auto simp: Let_def)
  qed
  moreover have "distinct (map fst (fold bump (evs @ [e]) []))" unfolding f using IH by (intro distinct_put) simp
  moreover have "fst ` set (fold bump (evs @ [e]) []) = fst ` set (evs @ [e])"
    unfolding f fst_set_put using IH by (simp add: e)
  ultimately show ?case by blast
qed (simp add: outcomes_def)

lemma length_filter_alist:
  "distinct (map fst m) \<Longrightarrow> length (filter P (map snd m)) = card {k. \<exists>v. map_of m k = Some v \<and> P v}"
proof -
  assume d: "distinct (map fst m)"
  have "length (filter P (map snd m)) = length (filter (\<lambda>x. P (snd x)) m)"
    by (simp add: filter_map o_def)
  also have "\<dots> = card (fst ` set (filter (\<lambda>x. P (snd x)) m))"
  proof -
    have "distinct (map fst (filter (\<lambda>x. P (snd x)) m))" by (rule distinct_map_filter [OF d])
    then show ?thesis by (metis distinct_card length_map set_map)
  qed
  also have "fst ` set (filter (\<lambda>x. P (snd x)) m) = {k. \<exists>v. map_of m k = Some v \<and> P v}"
    using d by (force simp: image_iff)
  finally show ?thesis .
qed

lemma outcomes_pos: "0 < outcomes k b evs \<longleftrightarrow> (\<exists>st. (k, st, b) \<in> set evs)"
  by (auto simp: outcomes_def filter_empty_conv)

lemma verifySignatures_events:
  "snd (verifySignatures E zone d) = card {k. \<exists>st. (k, st, True) \<in> set (sigEvents E zone d)} \<and>
   length (fst (verifySignatures E zone d)) =
     card {k. (\<exists>st. (k, st, False) \<in> set (sigEvents E zone d)) \<and> \<not> (\<exists>st. (k, st, True) \<in> set (sigEvents E zone d))}"
proof -
  let ?evs = "sigEvents E zone d" and ?m = "sigStats E zone d"
  have m: "distinct (map fst ?m)" "fst ` set ?m = fst ` set ?evs"
    "\<And>k st. map_of ?m k = Some st \<Longrightarrow> ps_passes st = outcomes k True ?evs \<and> ps_fails st = outcomes k False ?evs"
    using bump_fold [OF fresh_sigEvents [of E zone d]] unfolding sigStats_events by blast+
  have dom: "\<exists>st. map_of ?m k = Some st" if "(k, st0, b) \<in> set ?evs" for k st0 b
  proof -
    have "k \<in> fst ` set ?m" unfolding m(2) using that by (force intro: image_eqI [of _ fst])
    then show ?thesis by (metis weak_map_of_SomeI imageE prod.collapse)
  qed
  have p: "{k. \<exists>v. map_of ?m k = Some v \<and> 0 < ps_passes v} = {k. \<exists>st. (k, st, True) \<in> set ?evs}"
    using m(3) dom outcomes_pos by (auto; metis)
  have q: "{k. \<exists>v. map_of ?m k = Some v \<and> \<not> 0 < ps_passes v \<and> 0 < ps_fails v}
      = {k. (\<exists>st. (k, st, False) \<in> set ?evs) \<and> \<not> (\<exists>st. (k, st, True) \<in> set ?evs)}"
    using m(3) dom outcomes_pos by (auto; metis neq0_conv)
  show ?thesis
    unfolding p [symmetric] q [symmetric] length_filter_alist [OF m(1), symmetric]
    by (simp add: verifySignatures_def Let_def)
qed

text \<open>An entry of the statistics carries the name, type and key tag of a verification of its set.\<close>

lemma bump_origin:
  "map_of (fold bump evs []) k = Some st \<Longrightarrow>
   \<exists>st0 ok. (k, st0, ok) \<in> set evs \<and> ps_name st = ps_name st0 \<and> ps_rtype st = ps_rtype st0 \<and> ps_keytag st = ps_keytag st0"
proof (induction evs arbitrary: k st rule: rev_induct)
  case (snoc e evs)
  obtain j st0 ok where e: "e = (j, st0, ok)" by (cases e)
  show ?case
  proof (cases "k = j")
    case True
    obtain st1 where st1: "st1 = (case map_of (fold bump evs []) j of Some st \<Rightarrow> st | None \<Rightarrow> st0)" by blast
    have same: "ps_name st = ps_name st1 \<and> ps_rtype st = ps_rtype st1 \<and> ps_keytag st = ps_keytag st1"
      using snoc.prems True by (auto simp: e bump_def Let_def st1)
    show ?thesis
    proof (cases "map_of (fold bump evs []) j")
      case None
      with same st1 True show ?thesis by (auto simp: e)
    next
      case (Some st2)
      with snoc.IH [of j st2] same st1 True show ?thesis by auto
    qed
  next
    case False
    then have "map_of (fold bump evs []) k = Some st" using snoc.prems by (simp add: e bump_def Let_def)
    from snoc.IH [OF this] show ?thesis by auto
  qed
qed simp

lemma sigEvents_key:
  "(k, st, ok) \<in> set (sigEvents E zone d) \<Longrightarrow> k = ps_name st @ ''/'' @ word_str (ps_rtype st)"
  by (auto simp: sigEvents_def Let_def set_map_filter sigEvent_def split: if_splits)

text \<open>The finding on a record set, and findings that are one for each of some sets.\<close>

definition names_set :: "env \<Rightarrow> string \<Rightarrow> dnssec_data \<Rightarrow> finding \<Rightarrow> string \<Rightarrow> bool" where
  "names_set E zone d f k \<longleftrightarrow> f_id f = r_id DNSSECInvalidSig \<and> f_subject f = zone \<and>
     (\<exists>st ok. (k, st, ok) \<in> set (sigEvents E zone d) \<and> k = ps_name st @ ''/'' @ word_str (ps_rtype st) \<and>
        f_evidence f = [''name='' @ ps_name st @ '' type='' @ typeToString (e_lib E) (ps_rtype st)
          @ '' keytag='' @ word_str (ps_keytag st)])"

definition one_each :: "env \<Rightarrow> string \<Rightarrow> dnssec_data \<Rightarrow> finding list \<Rightarrow> string set \<Rightarrow> bool" where
  "one_each E zone d fs K \<longleftrightarrow> (\<exists>ks. list_all2 (names_set E zone d) fs ks \<and> distinct ks \<and> set ks = K)"

lemma verifySignatures_each:
  "one_each E zone d (fst (verifySignatures E zone d))
     {k. (\<exists>st. (k, st, False) \<in> set (sigEvents E zone d)) \<and> \<not> (\<exists>st. (k, st, True) \<in> set (sigEvents E zone d))}"
proof -
  let ?evs = "sigEvents E zone d" and ?m = "sigStats E zone d"
  let ?bad = "filter (\<lambda>p. \<not> 0 < ps_passes (snd p) \<and> 0 < ps_fails (snd p)) ?m"
  have m: "distinct (map fst ?m)" "fst ` set ?m = fst ` set ?evs"
    "\<And>k st. map_of ?m k = Some st \<Longrightarrow> ps_passes st = outcomes k True ?evs \<and> ps_fails st = outcomes k False ?evs"
    using bump_fold [OF fresh_sigEvents [of E zone d]] unfolding sigStats_events by blast+
  have entry: "(k, st) \<in> set ?m \<longleftrightarrow> map_of ?m k = Some st" for k st using m(1) by simp
  have fs: "fst (verifySignatures E zone d) = map (\<lambda>p. invalidSig E zone (snd p)) ?bad"
    by (simp add: verifySignatures_def Let_def filter_map o_def)
  have names: "names_set E zone d (invalidSig E zone (snd p)) (fst p)" if "p \<in> set ?bad" for p
  proof -
    have "map_of ?m (fst p) = Some (snd p)" using that by (intro map_of_is_SomeI [OF m(1)]) simp
    from bump_origin [OF this [unfolded sigStats_events]] obtain st0 ok where
      o: "(fst p, st0, ok) \<in> set ?evs" "ps_name (snd p) = ps_name st0" "ps_rtype (snd p) = ps_rtype st0" "ps_keytag (snd p) = ps_keytag st0"
      by blast
    show ?thesis unfolding names_set_def invalidSig_def using o sigEvents_key [OF o(1)]
      by (auto simp: ruleNew_def intro!: exI [of _ st0] exI [of _ ok])
  qed
  have keys: "fst ` set ?bad = {k. (\<exists>st. (k, st, False) \<in> set ?evs) \<and> \<not> (\<exists>st. (k, st, True) \<in> set ?evs)}" (is "_ = ?K")
  proof -
    have "k \<in> fst ` set ?bad \<longleftrightarrow> k \<in> ?K" for k
    proof -
      have "k \<in> fst ` set ?bad \<longleftrightarrow> (\<exists>st. map_of ?m k = Some st \<and> ps_passes st = 0 \<and> 0 < ps_fails st)"
        using entry by (force simp: image_iff)
      also have "\<dots> \<longleftrightarrow> k \<in> fst ` set ?m \<and> outcomes k True ?evs = 0 \<and> 0 < outcomes k False ?evs"
        using m(3) by (metis map_of_eq_None_iff not_None_eq)
      also have "\<dots> \<longleftrightarrow> k \<in> ?K" unfolding m(2) using outcomes_pos [of k _ ?evs] by (force simp: image_iff)
      finally show ?thesis .
    qed
    then show ?thesis by blast
  qed
  have "list_all2 (names_set E zone d) (fst (verifySignatures E zone d)) (map fst ?bad)"
    unfolding fs list_all2_map1 list_all2_map2 by (rule list.rel_refl_strong) (rule names)
  moreover have "distinct (map fst ?bad)" by (rule distinct_map_filter [OF m(1)])
  moreover have "set (map fst ?bad) = ?K" unfolding set_map by (rule keys)
  ultimately show ?thesis unfolding one_each_def by blast
qed

lemma one_eachD:
  assumes "one_each E zone d fs K"
  shows "k \<in> K \<Longrightarrow> \<exists>f \<in> set fs. names_set E zone d f k" "f \<in> set fs \<Longrightarrow> \<exists>k \<in> K. names_set E zone d f k"
    "length fs = card K"
proof -
  obtain ks where ks: "list_all2 (names_set E zone d) fs ks" "distinct ks" "set ks = K"
    using assms unfolding one_each_def by blast
  show "length fs = card K" using list_all2_lengthD [OF ks(1)] distinct_card [OF ks(2)] ks(3) by simp
  show "\<exists>f \<in> set fs. names_set E zone d f k" if "k \<in> K"
    using that ks(1,3) by (metis in_set_conv_nth list_all2_conv_all_nth)
  show "\<exists>k \<in> K. names_set E zone d f k" if "f \<in> set fs"
    using that ks(1,3) by (metis in_set_conv_nth list_all2_conv_all_nth)
qed

text \<open>
  C11. Over all responses of a run, a record set counts as verified exactly when its signatures verify
  in at least one response that carried it. The findings are exactly one for every set whose
  signatures were checked in some response and verified in none: it is an invalid signature of
  the zone, and its evidence names the owner and the type of the set and the key tag of a
  signature over it. Sets of DS records, of names outside the zone, and with unknown keys take no
  part.
\<close>

theorem verifySignatures_counts:
  "snd (verifySignatures E zone d) = card {k. \<exists>st. (k, st, True) \<in> set (sigEvents E zone d)} \<and>
   one_each E zone d (fst (verifySignatures E zone d))
     {k. (\<exists>st. (k, st, False) \<in> set (sigEvents E zone d)) \<and> \<not> (\<exists>st. (k, st, True) \<in> set (sigEvents E zone d))}"
  by (intro conjI verifySignatures_events [THEN conjunct1] verifySignatures_each)

section \<open>The verdict on the chain\<close>

lemma dnssec_ids [simp]:
  "f \<in> set (checkZone L zone zk now) \<Longrightarrow> f_id f \<noteq> r_id DNSSECValid \<and> f_id f \<noteq> r_id DNSSECBrokenChain \<and> f_id f \<noteq> r_id DNSSECNoDS"
  "f \<in> set (nsecCheck zone a) \<Longrightarrow> f_id f \<noteq> r_id DNSSECValid \<and> f_id f \<noteq> r_id DNSSECBrokenChain \<and> f_id f \<noteq> r_id DNSSECNoDS"
  "f \<in> set (fst (verifySignatures E zone dd)) \<Longrightarrow> f_id f \<noteq> r_id DNSSECValid \<and> f_id f \<noteq> r_id DNSSECBrokenChain \<and> f_id f \<noteq> r_id DNSSECNoDS"
  by (auto simp: checkZone_def sigFindings_def nsecCheck_def verifySignatures_def Let_def invalidSig_def
      DNSSECValid_def DNSSECBrokenChain_def DNSSECNoDS_def DNSSECSignExpired_def DNSSECSignNotYet_def
      DNSSECDeprecatedAlgo_def DNSSECNoDNSKEY_def DNSSECNoRRSIG_def DNSSECNoNSEC_def DNSSECMalformedNSEC3_def
      DNSSECInvalidSig_def split: if_splits)

lemma verdict_ids:
  "r_id DNSSECValid \<noteq> r_id DNSSECBrokenChain" "r_id DNSSECValid \<noteq> r_id DNSSECNoDS"
  "r_id DNSSECBrokenChain \<noteq> r_id DNSSECNoDS"
  by (simp_all add: DNSSECValid_def DNSSECBrokenChain_def DNSSECNoDS_def)

lemma dnssecStep_verdict:
  assumes "i \<in> {r_id DNSSECValid, r_id DNSSECBrokenChain, r_id DNSSECNoDS}"
  shows "(\<exists>f \<in> set (dnssecStep E zone dd). f_id f = i) \<longleftrightarrow>
    (hasDNSKEY (zoneKeys E zone dd) \<or> hasRRSIG (zoneKeys E zone dd) \<or> hasDS (anchorKeys E dd)) \<and>
    (\<exists>f \<in> set (chainFindings E zone (anchorKeys E dd) (zoneKeys E zone dd) (fst (verifySignatures E zone dd))
       (snd (verifySignatures E zone dd))). f_id f = i)"
  using assms by (auto simp: dnssecStep_def Let_def split_beta dest: dnssec_ids)

text \<open>
  C12. When a run calls a zone's DNSSEC valid: exactly when the parent gave a DS, the chain validates, at
  least one record set verified and no set failed in every response. It reports a missing DS
  exactly for a zone that looks signed without a DS at the parent, and a broken chain exactly
  when there is a DS and the chain does not validate.
\<close>

theorem dnssec_verdict:
  "(\<exists>f \<in> set (dnssecStep E zone dd). f_id f = r_id DNSSECValid) =
     (hasDS (anchorKeys E dd) \<and>
      cr_valid (validateChain (e_lib E) (e_crypto E) (anchorKeys E dd) (zoneKeys E zone dd) (e_now E)) \<and>
      0 < snd (verifySignatures E zone dd) \<and> fst (verifySignatures E zone dd) = []) \<and>
   (\<exists>f \<in> set (dnssecStep E zone dd). f_id f = r_id DNSSECNoDS) =
     ((hasDNSKEY (zoneKeys E zone dd) \<or> hasRRSIG (zoneKeys E zone dd)) \<and> \<not> hasDS (anchorKeys E dd)) \<and>
   (\<exists>f \<in> set (dnssecStep E zone dd). f_id f = r_id DNSSECBrokenChain) =
     (hasDS (anchorKeys E dd) \<and>
      \<not> cr_valid (validateChain (e_lib E) (e_crypto E) (anchorKeys E dd) (zoneKeys E zone dd) (e_now E)))"
proof (intro conjI)
  show "(\<exists>f \<in> set (dnssecStep E zone dd). f_id f = r_id DNSSECValid) =
     (hasDS (anchorKeys E dd) \<and>
      cr_valid (validateChain (e_lib E) (e_crypto E) (anchorKeys E dd) (zoneKeys E zone dd) (e_now E)) \<and>
      0 < snd (verifySignatures E zone dd) \<and> fst (verifySignatures E zone dd) = [])"
    by (subst dnssecStep_verdict) (auto simp: chainFindings_def Let_def verdict_ids verdict_ids [symmetric] split: if_splits)
  show "(\<exists>f \<in> set (dnssecStep E zone dd). f_id f = r_id DNSSECNoDS) =
     ((hasDNSKEY (zoneKeys E zone dd) \<or> hasRRSIG (zoneKeys E zone dd)) \<and> \<not> hasDS (anchorKeys E dd))"
    by (subst dnssecStep_verdict) (auto simp: chainFindings_def Let_def verdict_ids verdict_ids [symmetric] split: if_splits)
  show "(\<exists>f \<in> set (dnssecStep E zone dd). f_id f = r_id DNSSECBrokenChain) =
     (hasDS (anchorKeys E dd) \<and>
      \<not> cr_valid (validateChain (e_lib E) (e_crypto E) (anchorKeys E dd) (zoneKeys E zone dd) (e_now E)))"
    by (subst dnssecStep_verdict) (auto simp: chainFindings_def Let_def verdict_ids verdict_ids [symmetric] split: if_splits)
qed

end
