(* ===== verification/RunParts.thy ===== *)
theory RunParts
  imports AuditFacts
begin

text \<open>
  The parts of a run (\<^verbatim>\<open>internal/audit/audit.go\<close>): which rules each step can report under, the
  findings of a run as the union of those of its steps, and the one server all its requests go to.
\<close>

section \<open>The rules of the steps\<close>

text \<open>The area of a rule: the first letters of its id, which tell the checks apart.\<close>

definition area :: "string \<Rightarrow> string" where
  "area i = take 7 i"

lemma area_rules [simp]:
  "area (r_id DelegLame) = ''DNS-DEL''" "area (r_id DelegMissingGlue) = ''DNS-DEL''" "area (r_id DelegInconsistentNS) = ''DNS-DEL''"
  "area (r_id DelegNonAuthNS) = ''DNS-DEL''"
  "area (r_id AuthUDPFail) = ''DNS-AUT''" "area (r_id AuthTCPFail) = ''DNS-AUT''" "area (r_id AuthNoAA) = ''DNS-AUT''"
  "area (r_id AuthNoSOA) = ''DNS-AUT''" "area (r_id AuthNoNS) = ''DNS-AUT''" "area (r_id AuthNoEDNS) = ''DNS-AUT''"
  "area (r_id AuthInconsistent) = ''DNS-AUT''"
  "area (r_id SOAInvalidMNAME) = ''DNS-SOA''" "area (r_id SOAInvalidRNAME) = ''DNS-SOA''" "area (r_id SOASerialFormat) = ''DNS-SOA''"
  "area (r_id SOASchedule) = ''DNS-SOA''" "area (r_id SOANegativeTTL) = ''DNS-SOA''"
  "area (r_id TTLShort) = ''DNS-TTL''" "area (r_id TTLExtreme) = ''DNS-TTL''"
  "area (r_id CAACriticalUnknown) = ''DNS-CAA''"
  "area (r_id CNAMELoop) = ''DNS-CNA''" "area (r_id CNAMEChainLong) = ''DNS-CNA''" "area (r_id CNAMEDangling) = ''DNS-CNA''"
  "area (r_id AddrPrivate) = ''DNS-ADD''" "area (r_id AddrLoopback) = ''DNS-ADD''" "area (r_id AddrLocal) = ''DNS-ADD''"
  "area (r_id AddrReserved) = ''DNS-ADD''" "area (r_id AddrDocumentation) = ''DNS-ADD''"
  "area (r_id DNSSECValid) = ''DNS-DNS''" "area (r_id DNSSECInvalidSig) = ''DNS-DNS''" "area (r_id DNSSECBrokenChain) = ''DNS-DNS''"
  "area (r_id DNSSECNoDS) = ''DNS-DNS''" "area (r_id DNSSECSignExpired) = ''DNS-DNS''" "area (r_id DNSSECSignNotYet) = ''DNS-DNS''"
  "area (r_id DNSSECNoDNSKEY) = ''DNS-DNS''" "area (r_id DNSSECNoRRSIG) = ''DNS-DNS''" "area (r_id DNSSECDeprecatedAlgo) = ''DNS-DNS''"
  "area (r_id DNSSECNoNSEC) = ''DNS-DNS''" "area (r_id DNSSECMalformedNSEC3) = ''DNS-DNS''"
  "area (r_id AXFRAllowed) = ''DNS-AXF''" "area (r_id AXFRRefused) = ''DNS-AXF''" "area (r_id AXFRFailed) = ''DNS-AXF''"
  "area (r_id WildcardPresent) = ''DNS-WIL''"
  "area (r_id RecursionOpen) = ''DNS-REC''"
  by (simp_all add: area_def rule_defs)

definition dnssec_failures :: "rule list" where
  "dnssec_failures = [DNSSECInvalidSig, DNSSECBrokenChain, DNSSECNoDS, DNSSECSignExpired, DNSSECSignNotYet,
     DNSSECNoDNSKEY, DNSSECNoRRSIG, DNSSECDeprecatedAlgo]"

lemma area_failures: "r \<in> set dnssec_failures \<Longrightarrow> area (r_id r) = ''DNS-DNS''"
  by (auto simp: dnssec_failures_def)

lemma delegationStep_area: "f \<in> set (fst (delegationStep E R opt zone p s)) \<Longrightarrow> area (f_id f) = ''DNS-DEL''"
  by (auto simp: delegationStep_def delegationCompare_def Let_def split: prod.splits sum.splits if_splits)

lemma checkServer_area: "f \<in> set (checkServer zone server r) \<Longrightarrow> area (f_id f) = ''DNS-AUT''"
  by (cases r) (auto simp: checkServer_def split: if_splits)

lemma probeLoop_area: "f \<in> set (fst (probeLoop E R opt zone hs s)) \<Longrightarrow> area (f_id f) = ''DNS-AUT''"
  by (induction E R opt zone hs s rule: probeLoop.induct)
    (auto simp: probeLoop.simps(2) split: prod.splits sum.splits dest: checkServer_area)

lemma classificationRule_area: "classificationRule c = Some r \<Longrightarrow> area (r_id r) = ''DNS-ADD''"
  by (auto simp: classificationRule_def split: if_splits)

lemma addrs_area: "f \<in> set (checkAddrs zone seen ips) \<Longrightarrow> area (f_id f) = ''DNS-ADD''"
  by (induction zone seen ips rule: checkAddrs.induct)
    (auto simp: Let_def dest: classificationRule_area split: option.splits if_splits)

lemma cnameScan_area: "f \<in> set (cnameScan zone g mx res vis ss) \<Longrightarrow> area (f_id f) = ''DNS-CNA''"
  by (induction zone g mx res vis ss rule: cnameScan.induct)
    (auto simp: longFinding_def danglingFinding_def Let_def split: if_splits)

lemma cname_area: "f \<in> set (cnameCheck zone g mx res) \<Longrightarrow> area (f_id f) = ''DNS-CNA''"
  by (auto simp: cnameCheck_def Let_def loopFinding_def dest: cnameScan_area)

lemma soa_area: "f \<in> set (soaCheck L now zone s) \<Longrightarrow> area (f_id f) = ''DNS-SOA''"
  by (auto simp: soaCheck_def split: if_splits option.splits)

lemma ttl_area: "f \<in> set (ttlCheck L zone profile c) \<Longrightarrow> area (f_id f) = ''DNS-TTL''"
  by (auto simp: ttlCheck_def ttlJudge_def Let_def split: prod.splits option.splits if_splits)

lemma caa_area: "f \<in> set (caaCheck zone records) \<Longrightarrow> area (f_id f) = ''DNS-CAA''"
  by (auto simp: caaCheck_def caaRecord_def Let_def split: if_splits)

lemma recordChecks_area:
  "f \<in> set (recordChecks E opt zone resp recs) \<Longrightarrow>
     area (f_id f) \<in> {''DNS-SOA'', ''DNS-TTL'', ''DNS-CAA'', ''DNS-ADD'', ''DNS-CNA''}"
  by (auto simp: recordChecks_def Let_def addrsCheckAll_def split: option.splits
      dest: soa_area ttl_area caa_area addrs_area cname_area)

lemma checkZone_area: "f \<in> set (checkZone L zone zk now) \<Longrightarrow> area (f_id f) = ''DNS-DNS''"
  by (auto simp: checkZone_def sigFindings_def split: if_splits)

lemma dnssecStep_area: "f \<in> set (dnssecStep E zone dd) \<Longrightarrow> area (f_id f) = ''DNS-DNS''"
  by (auto simp: dnssecStep_def Let_def split_beta verifySignatures_def invalidSig_def chainFindings_def
      nsecCheck_def split: if_splits dest: checkZone_area)

lemma axfrLoop_area: "f \<in> set (fst (axfrLoop E R opt zone hs s)) \<Longrightarrow> area (f_id f) = ''DNS-AXF''"
  by (induction E R opt zone hs s rule: axfrLoop.induct)
    (auto simp: axfrLoop.simps(2) Let_def axfrOne_def axfrEvaluate_def split: prod.splits option.splits if_splits)

lemma wildcardStep_area: "f \<in> set (fst (wildcardStep E R opt zone s)) \<Longrightarrow> area (f_id f) = ''DNS-WIL''"
  by (auto simp: wildcardStep_def wildcardCheck_def split: option.splits prod.splits sum.splits if_splits)

lemma activeCheck_area: "f \<in> set (activeCheck server zone r) \<Longrightarrow> area (f_id f) = ''DNS-REC''"
  by (auto simp: activeCheck_def split: option.splits if_splits)

lemma recursionLoop_area: "f \<in> set (fst (recursionLoop E R opt zone i hs s)) \<Longrightarrow> area (f_id f) = ''DNS-REC''"
proof (induction hs arbitrary: i s)
  case (Cons h hs)
  then show ?case
    by (auto simp: recursionLoop.simps(2) Let_def split_beta split: option.splits sum.splits dest: activeCheck_area)
qed simp

section \<open>The findings of a run\<close>

text \<open>
  After the first two queries: the findings of a run are those of the delegation and authority steps
  and the record checks, those of the DNSSEC step, and those of the three probes, each step
  starting in the state the one before it left.
\<close>

lemma run_parts:
  assumes "runQuery R opt (safeNewMsg (e_lib E) zone TypeNS) s = (Inr m0, s1)"
    and "runQuery R opt (safeNewMsg (e_lib E) zone TypeANY) s1 = (a, s2)"
  defines "resp \<equiv> withAny m0 a"
  defines "ns \<equiv> pv_ns (extractNSFromResponse (e_lib E) resp zone)"
  obtains c d p dd x w r where
    "c = collectApexRecords (e_lib E) R opt zone resp s2"
    "d = delegationStep E R opt zone (extractNSFromResponse (e_lib E) resp zone) (snd (snd c))"
    "p = (if opt_resolver opt \<noteq> ''fake'' \<and> m_authoritative resp then probeLoop E R opt zone ns (snd d) else ([], snd d))"
    "dd = collectDNSSEC E R opt zone resp (fst c) (fst (snd c)) (snd p)"
    "x = (if opt_active opt then axfrLoop E R opt zone ns (snd dd) else ([], snd dd))"
    "w = wildcardStep E R opt zone (snd x)"
    "r = (if opt_active opt then recursionLoop E R opt zone 0 ns (snd w) else ([], snd w))"
    "set (ar_findings (fst (run E R opt zone s))) = (\<lambda>f. f\<lparr>f_zone := zone\<rparr>) `
       (set (fst d) \<union> set (fst p) \<union> set (recordChecks E opt zone resp (fst c)) \<union> set (dnssecStep E zone (fst dd))
        \<union> set (fst x) \<union> set (fst w) \<union> set (fst r))"
    "\<And>f. f \<in> set (fst p) \<Longrightarrow> area (f_id f) = ''DNS-AUT''"
proof -
  define c where "c = collectApexRecords (e_lib E) R opt zone resp s2"
  define d where "d = delegationStep E R opt zone (extractNSFromResponse (e_lib E) resp zone) (snd (snd c))"
  define p where "p = (if opt_resolver opt \<noteq> ''fake'' \<and> m_authoritative resp then probeLoop E R opt zone ns (snd d) else ([], snd d))"
  define dd where "dd = collectDNSSEC E R opt zone resp (fst c) (fst (snd c)) (snd p)"
  define x where "x = (if opt_active opt then axfrLoop E R opt zone ns (snd dd) else ([], snd dd))"
  define w where "w = wildcardStep E R opt zone (snd x)"
  define r where "r = (if opt_active opt then recursionLoop E R opt zone 0 ns (snd w) else ([], snd w))"
  have "ar_findings (fst (run E R opt zone s)) = sortFindings (map (\<lambda>f. f\<lparr>f_zone := zone\<rparr>)
      (fst d @ fst p @ recordChecks E opt zone resp (fst c) @ dnssecStep E zone (fst dd) @ fst x @ fst w @ fst r))"
    unfolding run_def Let_def split_beta assms(1,2) fst_conv snd_conv sum.case resp_def [symmetric] c_def [symmetric]
      ns_def [symmetric] d_def [symmetric] p_def [symmetric] dd_def [symmetric] x_def [symmetric] w_def [symmetric]
      r_def [symmetric] addFindings_eq
    by simp
  then have all: "set (ar_findings (fst (run E R opt zone s))) = (\<lambda>f. f\<lparr>f_zone := zone\<rparr>) `
       (set (fst d) \<union> set (fst p) \<union> set (recordChecks E opt zone resp (fst c)) \<union> set (dnssecStep E zone (fst dd))
        \<union> set (fst x) \<union> set (fst w) \<union> set (fst r))"
    by (simp add: sortFindings_def image_Un Un_assoc)
  show ?thesis
    by (rule that [OF c_def d_def p_def dd_def x_def w_def r_def all])
      (auto simp: p_def dest: probeLoop_area split: if_splits)
qed

text \<open>
  The same with the states between the steps forgotten: what a step starts in is related to the state
  after the first two queries by every relation that the queries and transfers respect.
\<close>

context run_relation
begin

lemma run_steps:
  assumes "runQuery R opt (safeNewMsg (e_lib E) zone TypeNS) s = (Inr m0, s1)"
    and "runQuery R opt (safeNewMsg (e_lib E) zone TypeANY) s1 = (a, s2)"
  defines "resp \<equiv> withAny m0 a"
  defines "view \<equiv> extractNSFromResponse (e_lib E) resp zone"
  defines "c \<equiv> collectApexRecords (e_lib E) R opt zone resp s2"
  obtains s5 s6 s7 s8 probed where "P s2 s5" "P s2 s6" "P s2 s7" "P s2 s8"
    "\<And>f. f \<in> probed \<Longrightarrow> area (f_id f) = ''DNS-AUT''"
    "set (ar_findings (fst (run E R opt zone s))) = (\<lambda>f. f\<lparr>f_zone := zone\<rparr>) `
       (set (fst (delegationStep E R opt zone view (snd (snd c)))) \<union> probed
        \<union> set (recordChecks E opt zone resp (fst c))
        \<union> set (dnssecStep E zone (fst (collectDNSSEC E R opt zone resp (fst c) (fst (snd c)) s5)))
        \<union> (if opt_active opt then set (fst (axfrLoop E R opt zone (pv_ns view) s6)) else {})
        \<union> set (fst (wildcardStep E R opt zone s7))
        \<union> (if opt_active opt then set (fst (recursionLoop E R opt zone 0 (pv_ns view) s8)) else {}))"
proof (rule run_parts [OF assms(1,2), folded resp_def, folded view_def c_def])
  fix c' d p dd x w r
  assume c': "c' = c" and d: "d = delegationStep E R opt zone view (snd (snd c'))"
    and p: "p = (if opt_resolver opt \<noteq> ''fake'' \<and> m_authoritative resp then probeLoop E R opt zone (pv_ns view) (snd d) else ([], snd d))"
    and dd: "dd = collectDNSSEC E R opt zone resp (fst c') (fst (snd c')) (snd p)"
    and x: "x = (if opt_active opt then axfrLoop E R opt zone (pv_ns view) (snd dd) else ([], snd dd))"
    and w: "w = wildcardStep E R opt zone (snd x)"
    and r: "r = (if opt_active opt then recursionLoop E R opt zone 0 (pv_ns view) (snd w) else ([], snd w))"
    and all: "set (ar_findings (fst (run E R opt zone s))) = (\<lambda>f. f\<lparr>f_zone := zone\<rparr>) `
       (set (fst d) \<union> set (fst p) \<union> set (recordChecks E opt zone resp (fst c')) \<union> set (dnssecStep E zone (fst dd))
        \<union> set (fst x) \<union> set (fst w) \<union> set (fst r))"
    and probed: "\<And>f. f \<in> set (fst p) \<Longrightarrow> area (f_id f) = ''DNS-AUT''"
  have 3: "P s2 (snd d)" unfolding d c' c_def by (rule trans [OF collectApex_related delegation_related])
  have 5: "P s2 (snd p)" using trans [OF 3 probe_related] 3 by (simp add: p)
  have 6: "P s2 (snd dd)" unfolding dd by (rule trans [OF 5 collectDNSSEC_related])
  have 7: "P s2 (snd x)" using trans [OF 6 axfr_related] 6 by (simp add: x)
  have 8: "P s2 (snd w)" unfolding w by (rule trans [OF 7 wildcard_related])
  show ?thesis
    by (rule that [OF 5 6 7 8 probed]) (simp_all add: all d c' dd x w r if_distrib [of fst] if_distrib [of set] cong: if_cong)
qed

end

section \<open>The server asked\<close>

lemma runQuery_agree:
  assumes "\<And>t m. rv_query R t (opt_resolver opt) m = rv_query R' t (opt_resolver opt) m"
  shows "runQuery R opt = runQuery R' opt"
  by (simp add: fun_eq_iff runQuery_def assms Let_def)

lemma runTransfer_agree:
  assumes "\<And>t m. rv_transfer R t (opt_resolver opt) m = rv_transfer R' t (opt_resolver opt) m"
  shows "runTransfer R opt = runTransfer R' opt"
  by (simp add: fun_eq_iff runTransfer_def assms Let_def)

text \<open>The steps use a resolver through these two functions alone.\<close>

lemma steps_agree:
  assumes q: "runQuery R opt = runQuery R' opt" and t: "runTransfer R opt = runTransfer R' opt"
  shows "askAll L R opt qs s = askAll L R' opt qs s"
    and "probeLoop E R opt zone hs s = probeLoop E R' opt zone hs s"
    and "axfrLoop E R opt zone hs s = axfrLoop E R' opt zone hs s"
    and "recursionLoop E R opt zone i hs s = recursionLoop E R' opt zone i hs s"
    and "delegationStep E R opt zone p s = delegationStep E R' opt zone p s"
    and "wildcardStep E R opt zone s = wildcardStep E R' opt zone s"
proof -
  show "askAll L R opt qs s = askAll L R' opt qs s"
    by (induction qs arbitrary: s) (auto simp: askAll.simps q split: prod.splits sum.splits)
  show "probeLoop E R opt zone hs s = probeLoop E R' opt zone hs s"
    by (induction hs arbitrary: s) (auto simp: probeLoop.simps(2) q split: prod.splits sum.splits)
  show "axfrLoop E R opt zone hs s = axfrLoop E R' opt zone hs s"
    by (induction hs arbitrary: s) (auto simp: axfrLoop.simps(2) t split: prod.splits)
  show "recursionLoop E R opt zone i hs s = recursionLoop E R' opt zone i hs s"
    by (induction hs arbitrary: s i) (auto simp: recursionLoop.simps(2) q split: prod.splits sum.splits option.splits)
  show "delegationStep E R opt zone p s = delegationStep E R' opt zone p s"
    and "wildcardStep E R opt zone s = wildcardStep E R' opt zone s"
    unfolding delegationStep_def wildcardStep_def q by (rule refl)+
qed

lemma gathering_agree:
  assumes "runQuery R opt = runQuery R' opt" and "runTransfer R opt = runTransfer R' opt"
  shows "collectApexRecords L R opt zone m s = collectApexRecords L R' opt zone m s"
    and "collectDNSSEC E R opt zone m recs us s = collectDNSSEC E R' opt zone m recs us s"
  unfolding collectApexRecords_def collectDNSSEC_def steps_agree(1) [OF assms] assms(1) by (rule refl)+

lemma run_agree:
  assumes "runQuery R opt = runQuery R' opt" and "runTransfer R opt = runTransfer R' opt"
  shows "run E R opt zone s = run E R' opt zone s"
  unfolding run_def assms(1) steps_agree [OF assms] gathering_agree [OF assms] ..

end
