(* ===== verification/SignedZones.thy ===== *)
theory SignedZones
  imports Signing RunParts
begin

text \<open>
  The DNSSEC verdict of a run (\<^verbatim>\<open>internal/audit/audit.go\<close>, \<^verbatim>\<open>internal/dnssec\<close>) on a zone that was
  signed as the test zones are (\<^verbatim>\<open>testdata/testzones.go\<close>): however the responses slice the zone,
  as long as each carries whole record sets, the zone is called valid and none of the DNSSEC
  failures is reported.
\<close>

section \<open>Zones signed by one key\<close>

definition set_of :: "dnslib \<Rightarrow> rr list \<Rightarrow> string \<Rightarrow> u16 \<Rightarrow> rr list" where
  "set_of L recs n t = filter (\<lambda>r. ownerName L (rr_name r) = n \<and> rr_type r = t) recs"

text \<open>The signature \<open>sg\<close> at the name \<open>n\<close> was made by the signer over the zone's record set, and is in its period.\<close>

definition signed_set :: "dnslib \<Rightarrow> (bytes \<Rightarrow> bytes \<Rightarrow> bytes) \<Rightarrow> test_key \<Rightarrow> string \<Rightarrow> int \<Rightarrow> rr list \<Rightarrow> string \<Rightarrow> rrsig \<Rightarrow> bool" where
  "signed_set L sign k zone now recs n sg \<longleftrightarrow>
     (\<exists>h rrs clock. signRRset L sign k clock zone rrs False = Some (h, sg) \<and> signable L rrs \<and>
        n = ownerName L (rr_name (hd rrs)) \<and> same_data L rrs (set_of L recs n (sg_typecovered sg))) \<and>
     uint (sg_inception sg) \<le> now \<and> now \<le> uint (sg_expiration sg)"

definition signed_record :: "dnslib \<Rightarrow> crypto \<Rightarrow> (bytes \<Rightarrow> bytes \<Rightarrow> bytes) \<Rightarrow> test_key \<Rightarrow> string \<Rightarrow> int \<Rightarrow> rr list \<Rightarrow> rr \<Rightarrow> bool" where
  "signed_record L C sign k zone now recs r =
     (case rr_data r of
        DNSKEY_RR d \<Rightarrow> d = snd (dnskeyRR L k zone) \<and> ownerName L (rr_name r) = ownerName L zone
      | DS_RR d \<Rightarrow> DS_RR d = rr_data (dsRR L C k zone (snd (dnskeyRR L k zone))) \<and> ownerName L (rr_name r) = ownerName L zone
      | RRSIG_RR sg \<Rightarrow> signed_set L sign k zone now recs (ownerName L (rr_name r)) sg
      | _ \<Rightarrow> True)"

definition signed_by :: "dnslib \<Rightarrow> crypto \<Rightarrow> (bytes \<Rightarrow> bytes \<Rightarrow> bytes) \<Rightarrow> test_key \<Rightarrow> string \<Rightarrow> int \<Rightarrow> rr list \<Rightarrow> bool" where
  "signed_by L C sign k zone now recs \<longleftrightarrow> list_all (signed_record L C sign k zone now recs) recs"

text \<open>A response carries records of the zone, and with a signature all of the set it covers.\<close>

definition carries :: "dnslib \<Rightarrow> rr list \<Rightarrow> rr list \<Rightarrow> bool" where
  "carries L recs part \<longleftrightarrow> set part \<subseteq> set recs \<and>
     list_all (\<lambda>r. case rr_data r of
        RRSIG_RR sg \<Rightarrow> set (set_of L recs (ownerName L (rr_name r)) (sg_typecovered sg)) \<subseteq> set part | _ \<Rightarrow> True) part"

abbreviation msg_rrs :: "msg \<Rightarrow> rr list" where
  "msg_rrs m \<equiv> somes (m_answer m @ m_ns m)"

section \<open>What is collected\<close>

lemma dnslib_msg_sections: "msg_rrs (new_msg\<lparr>m_answer := a, m_ns := n\<rparr>) = somes (a @ n)"
  by simp

lemma signed_recordD:
  assumes "signed_by L C sign k zone now recs" and "r \<in> set recs"
  shows "rr_data r = DNSKEY_RR d \<Longrightarrow> d = snd (dnskeyRR L k zone) \<and> ownerName L (rr_name r) = ownerName L zone"
    and "rr_data r = DS_RR e \<Longrightarrow> DS_RR e = rr_data (dsRR L C k zone (snd (dnskeyRR L k zone))) \<and> ownerName L (rr_name r) = ownerName L zone"
    and "rr_data r = RRSIG_RR sg \<Longrightarrow> signed_set L sign k zone now recs (ownerName L (rr_name r)) sg"
  using assms by (auto simp: signed_by_def list_all_iff signed_record_def)

lemma key_ofD:
  assumes "signed_by L C sign k zone now recs" and "r \<in> set recs" and "length (tk_pub k) = 32"
    and "key_of C r = Some key"
  shows "key = test_key_info k" "ownerName L (rr_name r) = ownerName L zone"
proof -
  obtain d where d: "rr_data r = DNSKEY_RR d" "parseDNSKEY C d = Inr key"
    using assms(4) by (auto simp: key_of_def split: rdata.splits sum.splits)
  from signed_recordD(1) [OF assms(1,2) d(1)] d(2) parse_dnskeyRR [OF assms(3)]
  show "key = test_key_info k" "ownerName L (rr_name r) = ownerName L zone" by simp_all
qed

lemma distinct_collect_keys: "distinct (map fst (zk_keys (collect L C m)))"
  unfolding collect_def
  by (rule distinct_collect_fold [where fld = zk_keys and sel = "key_of C", OF collectRR_fields(3)])
    (simp add: empty_keys_def)

lemma distinct_collect_dss: "distinct (map fst (zk_dss (collect L C m)))"
  unfolding collect_def
  by (rule distinct_collect_fold [where fld = zk_dss and sel = ds_of, OF collectRR_fields(2)])
    (simp add: empty_keys_def)

lemma slot_member: "distinct (map fst m) \<Longrightarrow> (n, xs) \<in> set m \<Longrightarrow> slot m n = xs"
  by (simp add: slot_def)

lemma key_collected:
  assumes "signed_by L C sign k zone now recs" and "set (msg_rrs m) \<subseteq> set recs" and "length (tk_pub k) = 32"
    and "(n, ks) \<in> set (zk_keys (collect L C m))" and "key \<in> set ks"
  shows "key = test_key_info k" "n = ownerName L zone"
proof -
  have "key \<in> set (slot (zk_keys (collect L C m)) n)"
    using slot_member [OF distinct_collect_keys assms(4)] assms(5) by simp
  then obtain r where r: "r \<in> set (msg_rrs m)" "ownerName L (rr_name r) = n" "key_of C r = Some key"
    unfolding slot_collect_keys set_map_filter by (auto split: if_splits)
  then have "r \<in> set recs" using assms(2) by blast
  from key_ofD [OF assms(1) this assms(3) r(3)] r(2) show "key = test_key_info k" "n = ownerName L zone" by simp_all
qed

lemma keyForKeyTag_signed:
  assumes "signed_by L C sign k zone now recs" and "set (msg_rrs m) \<subseteq> set recs" and "length (tk_pub k) = 32"
    and "keyForKeyTag (collect L C m) tag = Some key"
  shows "key = test_key_info k"
proof -
  from assms(4) have "key \<in> set (concat (map snd (zk_keys (collect L C m))))"
    unfolding keyForKeyTag_def find_Some_iff by (metis nth_mem)
  then obtain n ks where "(n, ks) \<in> set (zk_keys (collect L C m))" "key \<in> set ks" by auto
  from key_collected(1) [OF assms(1-3) this] show ?thesis .
qed

section \<open>No signature fails\<close>

lemma sig_of_iff: "sig_of L r = Some s \<longleftrightarrow> (\<exists>sg. rr_data r = RRSIG_RR sg \<and> s = parseRRSIG L sg)"
  by (cases "rr_data r") (auto simp: sig_of_def)

lemma ds_of_iff: "ds_of r = Some d \<longleftrightarrow> (\<exists>e. rr_data r = DS_RR e \<and> d = parseDS e)"
  by (cases "rr_data r") (auto simp: ds_of_def)

lemma sig_collected:
  assumes "sig \<in> set (slot (zk_sigs (collect L C m)) n)"
  obtains r sg where "r \<in> set (msg_rrs m)" "ownerName L (rr_name r) = n" "rr_data r = RRSIG_RR sg" "sig = parseRRSIG L sg"
  using assms unfolding slot_collect_sigs set_map_filter by (auto simp: sig_of_iff split: if_splits)

text \<open>An entry of the collected signatures is under the lowered, fully qualified name of a record.\<close>

lemma sig_entry:
  assumes "dns_names_ok L" and "(n, ss) \<in> set (zk_sigs (collect L C m))" and "s \<in> set ss"
  shows "fqdn L (to_lower n) = n" and "s \<in> set (slot (zk_sigs (collect L C m)) n)"
proof -
  show s: "s \<in> set (slot (zk_sigs (collect L C m)) n)"
    using slot_member [OF distinct_collect_sigs assms(2)] assms(3) by simp
  then obtain r where "n = ownerName L r" by (rule sig_collected) auto
  then show "fqdn L (to_lower n) = n" using assms(1) by (simp add: ownerName_def fqdn_to_lower)
qed

lemma no_bad_sig:
  assumes L: "dns_names_ok L" and pair: "ed25519_pair C sign k" and signed: "signed_by L C sign k zone now recs"
    and part: "carries L recs (msg_rrs m)" and sig: "sig \<in> set (slot (zk_sigs (collect L C m)) n)"
  shows "\<not> bad_sig L C (collect L C m) n t sig"
proof
  assume bad: "bad_sig L C (collect L C m) n t sig"
  from sig obtain r sg where r: "r \<in> set (msg_rrs m)" "ownerName L (rr_name r) = n" "rr_data r = RRSIG_RR sg"
    and sg: "sig = parseRRSIG L sg" by (rule sig_collected)
  have sub: "set (msg_rrs m) \<subseteq> set recs" using part by (simp add: carries_def)
  have len: "length (tk_pub k) = 32" using pair by (simp add: ed25519_pair_def)
  have t: "t = sg_typecovered sg" using bad by (simp add: bad_sig_def sg parseRRSIG_def)
  obtain key where key: "keyForKeyTag (collect L C m) (si_keytag sig) = Some key"
    and fails: "verifySig C sig key [signedData L sig n (zk_bytype (collect L C m) n t)] \<noteq> None"
    using bad by (auto simp: bad_sig_def)
  from keyForKeyTag_signed [OF signed sub len key] have key_eq: "key = test_key_info k" .
  have "signed_set L sign k zone now recs n sg"
    using signed_recordD(3) [OF signed _ r(3)] r sub by auto
  then obtain h rrs clock where made: "signRRset L sign k clock zone rrs False = Some (h, sg)" "signable L rrs"
    and n: "n = ownerName L (rr_name (hd rrs))" and data: "same_data L rrs (set_of L recs n (sg_typecovered sg))"
    by (auto simp: signed_set_def)
  have "set (set_of L recs n t) \<subseteq> set (msg_rrs m)"
    using part r t unfolding carries_def list_all_iff by fastforce
  then have "set (zk_bytype (collect L C m) n t) = set (set_of L recs n t)"
    unfolding bytype_collect using sub by (auto simp: set_of_def)
  then have "same_data L rrs (zk_bytype (collect L C m) n t)"
    using data unfolding same_data_def t by simp
  from signature_accepted [OF L pair made(2) this made(1)] parse_dnskeyRR [OF len, of C L zone]
  have "verifySig C sig (test_key_info k) [signedData L sig n (zk_bytype (collect L C m) n t)] = None"
    unfolding sg n by simp
  with fails key_eq show False by simp
qed

section \<open>The verifications of a run\<close>

abbreviation unit_msg :: "dnssec_data \<Rightarrow> msg \<Rightarrow> msg" where
  "unit_msg d u \<equiv> new_msg\<lparr>m_answer := m_answer u @ dd_keys d, m_ns := m_ns u\<rparr>"

lemma verify_passes:
  "(\<And>sig. sig \<in> set (slot (zk_sigs zk) n) \<Longrightarrow> \<not> bad_sig L C zk n t sig) \<Longrightarrow> verifyRRSIGForType L C zk n t = -1"
proof -
  assume "\<And>sig. sig \<in> set (slot (zk_sigs zk) n) \<Longrightarrow> \<not> bad_sig L C zk n t sig"
  then have "find (\<lambda>(i, sig). sigFails L C zk n t sig) (enumerate 0 (slot (zk_sigs zk) n)) = None"
    using in_enumerate [of 0 "slot (zk_sigs zk) n" "\<lambda>s. \<not> bad_sig L C zk n t s"]
    by (auto simp: find_None_iff sigFails_iff)
  then show ?thesis by (simp add: verifyRRSIGForType_def)
qed

lemma verify_rejects:
  assumes "sig \<in> set (slot (zk_sigs zk) n)" and "bad_sig L C zk n t sig"
  shows "0 \<le> verifyRRSIGForType L C zk n t"
proof -
  have "find (\<lambda>(i, sig). sigFails L C zk n t sig) (enumerate 0 (slot (zk_sigs zk) n)) \<noteq> None"
    using in_enumerate [of 0 "slot (zk_sigs zk) n" "\<lambda>s. \<not> bad_sig L C zk n t s"] assms
    by (auto simp: find_None_iff sigFails_iff)
  then show ?thesis by (auto simp: verifyRRSIGForType_def split: option.split)
qed

lemma all_events_pass:
  assumes "dns_names_ok (e_lib E)" and "ed25519_pair (e_crypto E) sign k"
    and "signed_by (e_lib E) (e_crypto E) sign k zone now recs"
    and "\<And>u. u \<in> set (dd_units d) \<Longrightarrow> carries (e_lib E) recs (msg_rrs (unit_msg d u))"
    and "(key, st, ok) \<in> set (sigEvents E z d)"
  shows ok
proof -
  obtain u n sig where u: "u \<in> set (dd_units d)"
    and ev: "sigEvent E (fqdn (e_lib E) (to_lower z)) (unitKeys E d u) (n, sig) = Some (key, st, ok)"
    using assms(5) by (auto simp: sigEvents_def Let_def set_map_filter)
  note nb = no_bad_sig [OF assms(1-3) assms(4) [OF u]]
  show ok using ev verify_passes [OF nb]
    by (auto simp: sigEvent_def Let_def unitKeys_def split: if_splits)
qed

lemma key_of_dnskeyRR:
  "rr_data r = DNSKEY_RR (snd (dnskeyRR L k zone)) \<Longrightarrow> length (tk_pub k) = 32 \<Longrightarrow> key_of C r = Some (test_key_info k)"
  by (simp add: key_of_def parse_dnskeyRR)

lemma slot_nonempty: "x \<in> set (slot m n) \<Longrightarrow> \<exists>xs. (n, xs) \<in> set m \<and> x \<in> set xs"
  by (cases "map_of m n") (auto simp: slot_def dest: map_of_SomeD)

lemma parseRRSIG_fields [simp]:
  "si_typecovered (parseRRSIG L sg) = sg_typecovered sg" "si_keytag (parseRRSIG L sg) = sg_keytag sg"
  "si_expiration (parseRRSIG L sg) = sg_expiration sg" "si_inception (parseRRSIG L sg) = sg_inception sg"
  "si_algorithm (parseRRSIG L sg) = sg_algorithm sg" "si_signer (parseRRSIG L sg) = fqdn L (sg_signername sg)"
  by (simp_all add: parseRRSIG_def)

lemma has_signer_key:
  assumes pair: "ed25519_pair C sign k" and r: "r \<in> set (msg_rrs m)" and d: "rr_data r = DNSKEY_RR (snd (dnskeyRR L k zone))"
  shows "hasKeyForTag (collect L C m) (tk_tag k)"
proof -
  have len: "length (tk_pub k) = 32" and tag: "ki_tag (test_key_info k) = tk_tag k"
    using pair by (simp_all add: ed25519_pair_def test_key_info_def)
  have "test_key_info k \<in> set (slot (zk_keys (collect L C m)) (ownerName L (rr_name r)))"
    unfolding slot_collect_keys set_map_filter using r key_of_dnskeyRR [OF d len, of C] by (auto intro!: bexI [of _ r])
  from slot_nonempty [OF this] obtain n ks where "(n, ks) \<in> set (zk_keys (collect L C m))" "test_key_info k \<in> set ks"
    by blast
  then have "test_key_info k \<in> set (concat (map snd (zk_keys (collect L C m))))" by force
  then show ?thesis using tag by (auto simp: hasKeyForTag_def keyForKeyTag_def find_None_iff)
qed

lemma signed_keytag: "signRRset L sign k clock zone rrs t = Some (h, sg) \<Longrightarrow> sg_keytag sg = tk_tag k \<and> sg_signername sg = fqdn L zone"
  by (auto simp: signRRset_def Let_def tz_name_def split: list.splits option.splits if_splits)

lemma sigEvent_made:
  "fqdn (e_lib E) (to_lower n) = n \<Longrightarrow> inZoneName n apex \<Longrightarrow> si_typecovered s \<noteq> TypeDS \<Longrightarrow>
   zk_bytype zk n (si_typecovered s) \<noteq> [] \<Longrightarrow> hasKeyForTag zk (si_keytag s) \<Longrightarrow> sigEvent E apex zk (n, s) \<noteq> None"
  by (simp add: sigEvent_def Let_def inZoneName_def)

lemma in_sigEvents:
  "u \<in> set (dd_units d) \<Longrightarrow> (n, ss) \<in> set (zk_sigs (unitKeys E d u)) \<Longrightarrow> s \<in> set ss \<Longrightarrow>
   sigEvent E (fqdn (e_lib E) (to_lower z)) (unitKeys E d u) (n, s) = Some e \<Longrightarrow> e \<in> set (sigEvents E z d)"
  unfolding sigEvents_def Let_def
  by (auto simp: set_map_filter intro!: bexI [of _ u] bexI [of _ "(n, ss)"] exI [of _ n] exI [of _ s])

lemma signed_algorithm: "signRRset L sign k clock zone rrs t = Some (h, sg) \<Longrightarrow> sg_algorithm sg = 15"
  by (auto simp: signRRset_def Let_def split: list.splits option.splits if_splits)

lemma event_exists:
  assumes L: "dns_names_ok (e_lib E)" and pair: "ed25519_pair (e_crypto E) sign k"
    and signed: "signed_by (e_lib E) (e_crypto E) sign k zone now recs"
    and u: "u \<in> set (dd_units d)" and part: "carries (e_lib E) recs (msg_rrs (unit_msg d u))"
    and r: "r \<in> set (msg_rrs (unit_msg d u))" "rr_data r = RRSIG_RR sg" "sg_typecovered sg \<noteq> TypeDS"
    and zone: "inZoneName (ownerName (e_lib E) (rr_name r)) (fqdn (e_lib E) (to_lower z))"
    and key: "q \<in> set (msg_rrs (unit_msg d u))" "rr_data q = DNSKEY_RR dk"
  shows "\<exists>key st ok. (key, st, ok) \<in> set (sigEvents E z d)"
proof -
  let ?L = "e_lib E" and ?m = "unit_msg d u"
  let ?zk = "collect ?L (e_crypto E) ?m" and ?n = "ownerName ?L (rr_name r)"
  have sub: "set (msg_rrs ?m) \<subseteq> set recs" using part by (simp add: carries_def)
  have rr: "r \<in> set recs" "q \<in> set recs" using sub r(1) key(1) by auto
  have "signed_set ?L sign k zone now recs ?n sg" by (rule signed_recordD(3) [OF signed rr(1) r(2)])
  then obtain h rrs clock where made: "signRRset ?L sign k clock zone rrs False = Some (h, sg)" "signable ?L rrs"
    and data: "same_data ?L rrs (set_of ?L recs ?n (sg_typecovered sg))"
    by (auto simp: signed_set_def)
  obtain x rd where "x \<in> set rrs" "rrData ?L x = Some rd" using made(2) by (cases rrs) (auto simp: signable_def)
  then obtain y where y: "y \<in> set (set_of ?L recs ?n (sg_typecovered sg))" using data by (auto simp: same_data_def)
  have whole: "set (set_of ?L recs ?n (sg_typecovered sg)) \<subseteq> set (msg_rrs ?m)"
    using part r(1,2) unfolding carries_def list_all_iff by fastforce
  then have bt: "y \<in> set (zk_bytype ?zk ?n (sg_typecovered sg))"
    using y unfolding bytype_collect by (auto simp: set_of_def)
  have "dk = snd (dnskeyRR ?L k zone)" using signed_recordD(1) [OF signed rr(2) key(2)] by blast
  then have "hasKeyForTag ?zk (sg_keytag sg)"
    using has_signer_key [OF pair key(1), of ?L zone] key(2) signed_keytag [OF made(1)] by simp
  moreover have "fqdn ?L (to_lower ?n) = ?n" using L by (simp add: ownerName_def fqdn_to_lower)
  moreover have "zk_bytype ?zk ?n (sg_typecovered sg) \<noteq> []" using bt by (metis empty_iff empty_set)
  ultimately have "sigEvent E (fqdn ?L (to_lower z)) ?zk (?n, parseRRSIG ?L sg) \<noteq> None"
    using zone r(3) by (intro sigEvent_made) simp_all
  then obtain e where e: "sigEvent E (fqdn ?L (to_lower z)) ?zk (?n, parseRRSIG ?L sg) = Some e" by blast
  have "parseRRSIG ?L sg \<in> set (slot (zk_sigs ?zk) ?n)"
    unfolding slot_collect_sigs set_map_filter using r(1,2) by (auto simp: sig_of_iff intro!: bexI [of _ r])
  from slot_nonempty [OF this] obtain ss where "(?n, ss) \<in> set (zk_sigs ?zk)" "parseRRSIG ?L sg \<in> set ss" by blast
  then have "e \<in> set (sigEvents E z d)"
    using e by (intro in_sigEvents [OF u]) (simp_all add: unitKeys_def)
  then show ?thesis by (metis prod_cases3)
qed

section \<open>The verdict\<close>

text \<open>
  The records gathered in a run come from the zone: every response carries whole sets, one holds
  the key and a signature that counts, and the key, a signature and the DS reached the union.
\<close>

definition gathered :: "dnslib \<Rightarrow> string \<Rightarrow> rr list \<Rightarrow> dnssec_data \<Rightarrow> bool" where
  "gathered L zone recs d \<longleftrightarrow>
     list_all (\<lambda>u. carries L recs (msg_rrs (unit_msg d u))) (dd_units d) \<and>
     set (somes (dd_answer d @ dd_ns d)) \<subseteq> set recs \<and> set (msg_rrs (dd_ds d)) \<subseteq> set recs \<and>
     list_ex (\<lambda>r. case rr_data r of DNSKEY_RR _ \<Rightarrow> True | _ \<Rightarrow> False) (somes (dd_answer d @ dd_ns d)) \<and>
     list_ex (\<lambda>r. case rr_data r of RRSIG_RR _ \<Rightarrow> True | _ \<Rightarrow> False) (somes (dd_answer d @ dd_ns d)) \<and>
     list_ex (\<lambda>r. case rr_data r of DS_RR _ \<Rightarrow> True | _ \<Rightarrow> False) (msg_rrs (dd_ds d)) \<and>
     list_ex (\<lambda>u. list_ex (\<lambda>r. case rr_data r of DNSKEY_RR _ \<Rightarrow> True | _ \<Rightarrow> False) (msg_rrs (unit_msg d u)) \<and>
       list_ex (\<lambda>r. case rr_data r of
          RRSIG_RR sg \<Rightarrow> sg_typecovered sg \<noteq> TypeDS \<and> inZoneName (ownerName L (rr_name r)) (ownerName L zone)
        | _ \<Rightarrow> False) (msg_rrs (unit_msg d u))) (dd_units d)"

lemma case_rrsig: "(case rr_data r of RRSIG_RR sg \<Rightarrow> P sg | _ \<Rightarrow> False) \<longleftrightarrow> (\<exists>sg. rr_data r = RRSIG_RR sg \<and> P sg)"
  by (cases "rr_data r") auto

lemma case_dnskey: "(case rr_data r of DNSKEY_RR d \<Rightarrow> P d | _ \<Rightarrow> False) \<longleftrightarrow> (\<exists>d. rr_data r = DNSKEY_RR d \<and> P d)"
  by (cases "rr_data r") auto

lemma case_ds: "(case rr_data r of DS_RR d \<Rightarrow> P d | _ \<Rightarrow> False) \<longleftrightarrow> (\<exists>d. rr_data r = DS_RR d \<and> P d)"
  by (cases "rr_data r") auto

lemmas case_record = case_rrsig case_dnskey case_ds

text \<open>The signatures of the zone that are kept.\<close>

lemma merged_sig:
  assumes "sig \<in> set (mergeSigs (zk_sigs (inZone L z (collect L C m))))"
  obtains r sg where "r \<in> set (msg_rrs m)" "rr_data r = RRSIG_RR sg" "sig = parseRRSIG L sg"
proof -
  obtain n ss where n: "(n, ss) \<in> set (zk_sigs (collect L C m))" "sig \<in> set ss"
    using assms by (auto simp: mergeSigs_def inZone_def Let_def)
  have "sig \<in> set (slot (zk_sigs (collect L C m)) n)"
    using slot_member [OF distinct_collect_sigs n(1)] n(2) by simp
  then show ?thesis using that by (rule sig_collected)
qed

lemma inZone_keeps:
  assumes L: "dns_names_ok L" and r: "r \<in> set (msg_rrs m)" "rr_data r = RRSIG_RR sg" and s: "sg_signername sg = fqdn L zone"
  shows "hasRRSIG (inZone L zone (collect L C m))"
proof -
  let ?n = "ownerName L (rr_name r)"
  have "parseRRSIG L sg \<in> set (slot (zk_sigs (collect L C m)) ?n)"
    unfolding slot_collect_sigs set_map_filter using r by (auto simp: sig_of_iff intro!: bexI [of _ r])
  moreover have "equal_fold (si_signer (parseRRSIG L sg)) (fqdn L (to_lower zone))"
    using L by (simp add: s equal_fold_def fqdn_to_lower)
  ultimately have "parseRRSIG L sg \<in> set (slot (zk_sigs (inZone L zone (collect L C m))) ?n)"
    by (simp add: slot_inZone distinct_collect_sigs)
  from slot_nonempty [OF this] show ?thesis by (auto simp: hasRRSIG_def)
qed

lemma apexName_one:
  assumes "\<And>n ds. (n, ds) \<in> set (zk_dss z) \<Longrightarrow> n = a" and "zk_dss z \<noteq> []"
  shows "apexName z = a"
proof (cases "find (\<lambda>n. n \<in> fst ` set (zk_keys z)) (map fst (zk_dss z))")
  case None
  obtain n ds rest where z: "zk_dss z = (n, ds) # rest" using assms(2) by (cases "zk_dss z") auto
  then have "n = a" using assms(1) [of n ds] by simp
  then show ?thesis using None z by (simp add: apexName_def)
next
  case (Some n)
  then have "n \<in> set (map fst (zk_dss z))" unfolding find_Some_iff by (metis nth_mem)
  then show ?thesis using Some assms(1) by (auto simp: apexName_def)
qed

lemma add_to_nonempty: "(\<And>n xs. (n, xs) \<in> set m \<Longrightarrow> xs \<noteq> []) \<Longrightarrow> (n, xs) \<in> set (add_to k v m) \<Longrightarrow> xs \<noteq> []"
  by (induction k v m rule: add_to.induct) (auto split: if_splits)

lemma dss_nonempty: "(n, ds) \<in> set (zk_dss (collect L C m)) \<Longrightarrow> ds \<noteq> []"
proof -
  have step: "(n, ds) \<in> set (zk_dss (fold (collectRR L C) xs zk)) \<Longrightarrow> ds \<noteq> []"
    if "\<And>n ds. (n, ds) \<in> set (zk_dss zk) \<Longrightarrow> ds \<noteq> []" for xs zk n ds
    using that
  proof (induction xs arbitrary: zk)
    case (Cons x xs)
    have "ds \<noteq> []" if "(n, ds) \<in> set (zk_dss (collectRR L C x zk))" for n ds
    proof (cases x)
      case None
      then show ?thesis using that Cons.prems(2) by (simp add: collectRR_def)
    next
      case (Some r)
      then show ?thesis using that Cons.prems(2) add_to_nonempty [of "zk_dss zk"]
        by (cases "ds_of r") (auto simp: collectRR_fields)
    qed
    from Cons.IH [OF _ this] Cons.prems(1) show ?case by simp
  qed simp
  show "(n, ds) \<in> set (zk_dss (collect L C m)) \<Longrightarrow> ds \<noteq> []"
    unfolding collect_def by (rule step [of empty_keys]) (simp add: empty_keys_def)
qed

lemma ds_collected:
  assumes "signed_by L C sign k zone now recs" and "set (msg_rrs m) \<subseteq> set recs" and "(n, ds) \<in> set (zk_dss (collect L C m))"
  shows "n = ownerName L zone"
proof -
  obtain d where "d \<in> set (slot (zk_dss (collect L C m)) n)"
    using slot_member [OF distinct_collect_dss assms(3)] dss_nonempty [OF assms(3)] by (cases ds) auto
  then obtain r e where "r \<in> set (msg_rrs m)" "ownerName L (rr_name r) = n" "rr_data r = DS_RR e"
    unfolding slot_collect_dss set_map_filter by (auto simp: ds_of_iff split: if_splits)
  with signed_recordD(2) [OF assms(1)] assms(2) show ?thesis by blast
qed

lemma zone_sig_ok:
  assumes signed: "signed_by (e_lib E) (e_crypto E) sign k zone now recs"
    and sub: "set (somes (dd_answer dd @ dd_ns dd)) \<subseteq> set recs"
    and sig: "sig \<in> set (mergeSigs (zk_sigs (zoneKeys E zone dd)))"
  shows "\<not> signatureExpired now sig" "\<not> signatureNotYetValid now sig" "si_algorithm sig \<notin> deprecatedAlgorithms"
proof -
  obtain r sg where r: "r \<in> set (somes (dd_answer dd @ dd_ns dd))" "rr_data r = RRSIG_RR sg"
    and s: "sig = parseRRSIG (e_lib E) sg"
    using merged_sig [OF sig [unfolded zoneKeys_def]] by (metis dnslib_msg_sections)
  then have "signed_set (e_lib E) sign k zone now recs (ownerName (e_lib E) (rr_name r)) sg"
    using signed_recordD(3) [OF signed _ r(2)] sub by blast
  then show "\<not> signatureExpired now sig" "\<not> signatureNotYetValid now sig" "si_algorithm sig \<notin> deprecatedAlgorithms"
    by (auto simp: signed_set_def s signatureExpired_def signatureNotYetValid_def deprecatedAlgorithms_def alg_defs
        dest!: signed_algorithm)
qed

text \<open>The chain of a gathered zone.\<close>

lemma anchor_ds:
  assumes "signed_by L C sign k zone now recs" and "set (msg_rrs m) \<subseteq> set recs"
    and "r \<in> set (msg_rrs m)" "rr_data r = DS_RR e"
  shows "hasDS (collect L C m)" "parseDS e \<in> set (slot (zk_dss (collect L C m)) (ownerName L zone))"
    "DS_RR e = rr_data (dsRR L C k zone (snd (dnskeyRR L k zone)))"
proof -
  have d: "DS_RR e = rr_data (dsRR L C k zone (snd (dnskeyRR L k zone)))" "ownerName L (rr_name r) = ownerName L zone"
    using signed_recordD(2) [OF assms(1) _ assms(4)] assms(2,3) by blast+
  show "DS_RR e = rr_data (dsRR L C k zone (snd (dnskeyRR L k zone)))" by (rule d(1))
  show in_slot: "parseDS e \<in> set (slot (zk_dss (collect L C m)) (ownerName L zone))"
    unfolding slot_collect_dss set_map_filter using d(2) assms(3,4) by (auto simp: ds_of_iff intro!: bexI [of _ r])
  from slot_nonempty [OF in_slot] show "hasDS (collect L C m)" by (auto simp: hasDS_def)
qed

lemma zone_key:
  assumes "ed25519_pair C sign k" and "signed_by L C sign k zone now recs" and "set (msg_rrs m) \<subseteq> set recs"
    and "r \<in> set (msg_rrs m)" "rr_data r = DNSKEY_RR e"
  shows "test_key_info k \<in> set (slot (zk_keys (collect L C m)) (ownerName L zone))" "hasDNSKEY (collect L C m)"
proof -
  have d: "e = snd (dnskeyRR L k zone)" "ownerName L (rr_name r) = ownerName L zone"
    using signed_recordD(1) [OF assms(2) _ assms(5)] assms(3,4) by blast+
  have "key_of C r = Some (test_key_info k)"
    using key_of_dnskeyRR [of r L k zone C] assms(1,5) d(1) by (simp add: ed25519_pair_def)
  then show in_slot: "test_key_info k \<in> set (slot (zk_keys (collect L C m)) (ownerName L zone))"
    unfolding slot_collect_keys set_map_filter using d(2) assms(4) by (auto intro!: bexI [of _ r])
  from slot_nonempty [OF in_slot] show "hasDNSKEY (collect L C m)" by (auto simp: hasDNSKEY_def)
qed

lemma signed_chain_valid:
  assumes L: "dns_names_ok (e_lib E)" and pair: "ed25519_pair (e_crypto E) sign k"
    and signed: "signed_by (e_lib E) (e_crypto E) sign k zone (e_now E) recs" and g: "gathered (e_lib E) zone recs dd"
  shows "cr_valid (validateChain (e_lib E) (e_crypto E) (anchorKeys E dd) (zoneKeys E zone dd) (e_now E))"
    and "hasDS (anchorKeys E dd)" "hasDNSKEY (zoneKeys E zone dd)" "hasRRSIG (zoneKeys E zone dd)"
proof -
  let ?L = "e_lib E" and ?C = "e_crypto E" and ?m = "new_msg\<lparr>m_answer := dd_answer dd, m_ns := dd_ns dd\<rparr>"
  let ?zk = "zoneKeys E zone dd" and ?a = "ownerName ?L zone"
  have sub: "set (msg_rrs ?m) \<subseteq> set recs" "set (msg_rrs (dd_ds dd)) \<subseteq> set recs"
    using g by (simp_all add: gathered_def)
  obtain rd e where ds: "rd \<in> set (msg_rrs (dd_ds dd))" "rr_data rd = DS_RR e"
    using g unfolding gathered_def list_ex_iff case_record by blast
  note anchor = anchor_ds [OF signed sub(2) ds, folded anchorKeys_def]
  show "hasDS (anchorKeys E dd)" by (rule anchor(1))
  obtain rk dk where rk: "rk \<in> set (msg_rrs ?m)" "rr_data rk = DNSKEY_RR dk"
    using g unfolding gathered_def list_ex_iff case_record dnslib_msg_sections by blast
  note key = zone_key [OF pair signed sub(1) rk]
  have keys: "zk_keys ?zk = zk_keys (collect ?L ?C ?m)" "zk_dss ?zk = zk_dss (collect ?L ?C ?m)"
    by (simp_all add: zoneKeys_def inZone_def Let_def)
  show "hasDNSKEY ?zk" using key(2) by (simp add: hasDNSKEY_def keys)
  obtain rs sg where rs: "rs \<in> set (msg_rrs ?m)" "rr_data rs = RRSIG_RR sg"
    using g unfolding gathered_def list_ex_iff case_record dnslib_msg_sections by blast
  have "signed_set ?L sign k zone (e_now E) recs (ownerName ?L (rr_name rs)) sg"
    using signed_recordD(3) [OF signed _ rs(2)] rs(1) sub(1) by blast
  then have "sg_signername sg = fqdn ?L zone" by (auto simp: signed_set_def dest: signed_keytag)
  from inZone_keeps [OF L rs this] show "hasRRSIG ?zk" by (simp add: zoneKeys_def)
  have ds_match: "verifyDSMatchesDNSKEY ?L ?C (anchorKeys E dd) ?zk" if "hasDS ?zk"
  proof -
    have "apexName ?zk = ?a"
      using that ds_collected [OF signed sub(1)] by (intro apexName_one) (auto simp: keys hasDS_def)
    moreover have "dsMatchesKey ?L ?C ?a (parseDS e) (test_key_info k)"
      by (rule dsRR_matches [OF L anchor(3) [symmetric]])
    ultimately show ?thesis unfolding verifyDS_iff keys using anchor(2) key(1) by auto
  qed
  have "\<forall>sig \<in> set (mergeSigs (zk_sigs ?zk)). \<not> signatureExpired (e_now E) sig \<and> \<not> signatureNotYetValid (e_now E) sig"
    using zone_sig_ok(1,2) [OF signed] sub(1) unfolding dnslib_msg_sections by blast
  then show "cr_valid (validateChain ?L ?C (anchorKeys E dd) ?zk (e_now E))"
    using ds_match by (auto simp: validateChain_def Let_def chainSig_fold
      in_enumerate [of 0 _ "\<lambda>sig. \<not> signatureExpired (e_now E) sig \<and> \<not> signatureNotYetValid (e_now E) sig"])
qed

lemma signed_all_verify:
  assumes L: "dns_names_ok (e_lib E)" and pair: "ed25519_pair (e_crypto E) sign k"
    and signed: "signed_by (e_lib E) (e_crypto E) sign k zone (e_now E) recs" and g: "gathered (e_lib E) zone recs dd"
  shows "fst (verifySignatures E zone dd) = []" "0 < snd (verifySignatures E zone dd)"
proof -
  have part: "carries (e_lib E) recs (msg_rrs (unit_msg dd u))" if "u \<in> set (dd_units dd)" for u
    using g that unfolding gathered_def list_all_iff by blast
  note pass = all_events_pass [OF L pair signed part]
  have "{key. (\<exists>st. (key, st, False) \<in> set (sigEvents E zone dd)) \<and> \<not> (\<exists>st. (key, st, True) \<in> set (sigEvents E zone dd))} = {}"
    using pass by blast
  with conjunct2 [OF verifySignatures_events [of E zone dd]] show "fst (verifySignatures E zone dd) = []"
    by (metis card.empty length_0_conv)
  obtain u q dk r sg where u: "u \<in> set (dd_units dd)" and q: "q \<in> set (msg_rrs (unit_msg dd u))" "rr_data q = DNSKEY_RR dk"
    and r: "r \<in> set (msg_rrs (unit_msg dd u))" "rr_data r = RRSIG_RR sg" "sg_typecovered sg \<noteq> TypeDS"
    and z: "inZoneName (ownerName (e_lib E) (rr_name r)) (ownerName (e_lib E) zone)"
    using g unfolding gathered_def list_ex_iff case_record by blast
  from event_exists [OF L pair signed u part [OF u] r z [unfolded ownerName_def [of _ zone]] q]
  obtain key st ok where "(key, st, ok) \<in> set (sigEvents E zone dd)" by blast
  with pass [OF _ this] have "(key, st, True) \<in> set (sigEvents E zone dd)" by simp
  then have "key \<in> {k. \<exists>st. (k, st, True) \<in> set (sigEvents E zone dd)}" by blast
  moreover have "finite {k. \<exists>st. (k, st, True) \<in> set (sigEvents E zone dd)}"
    by (rule finite_subset [of _ "fst ` set (sigEvents E zone dd)"]) force+
  ultimately show "0 < snd (verifySignatures E zone dd)"
    unfolding conjunct1 [OF verifySignatures_events] by (auto simp: card_gt_0_iff)
qed

section \<open>A signed zone is called valid\<close>

lemma nsec_no_failure: "f \<in> set (nsecCheck zone a) \<Longrightarrow> f_id f \<notin> r_id ` set dnssec_failures"
  by (auto simp: nsecCheck_def dnssec_failures_def DNSSECInvalidSig_def DNSSECBrokenChain_def DNSSECNoDS_def
      DNSSECSignExpired_def DNSSECSignNotYet_def DNSSECNoDNSKEY_def DNSSECNoRRSIG_def DNSSECDeprecatedAlgo_def
      DNSSECNoNSEC_def DNSSECMalformedNSEC3_def split: if_splits)

lemma valid_no_failure: "r_id DNSSECValid \<notin> r_id ` set dnssec_failures"
  by (simp add: dnssec_failures_def DNSSECInvalidSig_def DNSSECBrokenChain_def DNSSECNoDS_def
      DNSSECSignExpired_def DNSSECSignNotYet_def DNSSECNoDNSKEY_def DNSSECNoRRSIG_def DNSSECDeprecatedAlgo_def
      DNSSECValid_def)

lemma signed_step:
  assumes "dns_names_ok (e_lib E)" and "ed25519_pair (e_crypto E) sign k"
    and "signed_by (e_lib E) (e_crypto E) sign k zone (e_now E) recs" and "gathered (e_lib E) zone recs dd"
  shows "dnssecStep E zone dd = [ruleNew DNSSECValid zone
      ''The DNSSEC chain of trust validates and all in-zone RRSIGs verify against the zone DNSKEY.''
      [''verified_rrsets='' @ nat_str (snd (verifySignatures E zone dd))]]
    @ nsecCheck zone (nsecAnalyze (denialRecords dd))"
proof -
  note chain = signed_chain_valid [OF assms] and sigs = signed_all_verify [OF assms]
  have sub: "set (somes (dd_answer dd @ dd_ns dd)) \<subseteq> set recs" using assms(4) by (simp add: gathered_def)
  have zone: "checkZone (e_lib E) zone (zoneKeys E zone dd) (e_now E) = []"
    using chain(3,4) zone_sig_ok [OF assms(3) sub] by (auto simp: checkZone_def sigFindings_def)
  show ?thesis using chain sigs by (simp add: dnssecStep_def Let_def split_beta zone chainFindings_def)
qed

lemma signed_verdict:
  assumes "dns_names_ok (e_lib E)" and "ed25519_pair (e_crypto E) sign k"
    and "signed_by (e_lib E) (e_crypto E) sign k zone (e_now E) recs" and "gathered (e_lib E) zone recs dd"
  shows "(\<exists>f \<in> set (dnssecStep E zone dd). f_id f = r_id DNSSECValid) \<and>
    (\<forall>f \<in> set (dnssecStep E zone dd). f_id f \<notin> r_id ` set dnssec_failures)"
  unfolding signed_step [OF assms] using nsec_no_failure valid_no_failure by auto

text \<open>The kinds of denial records, for records whose data is of their type.\<close>

lemma denial_data: "nsec3_of (Some r) = Some n \<longleftrightarrow> rr_data r = NSEC3_RR n"
  by (cases "rr_data r") (simp_all add: nsec3_of_def)

lemma denial_kind:
  assumes "(rr_type r = TypeNSEC) = (case rr_data r of NSEC_RR _ _ \<Rightarrow> True | _ \<Rightarrow> False) \<and>
    (rr_type r = TypeNSEC3) = (case rr_data r of NSEC3_RR _ \<Rightarrow> True | _ \<Rightarrow> False)"
  shows "has_nsec (Some r) \<longleftrightarrow> rr_type r = TypeNSEC" "nsec3_of (Some r) \<noteq> None \<longleftrightarrow> rr_type r = TypeNSEC3"
proof -
  show "has_nsec (Some r) \<longleftrightarrow> rr_type r = TypeNSEC" using assms by (simp add: has_nsec_def)
  have "nsec3_of (Some r) \<noteq> None \<longleftrightarrow> (case rr_data r of NSEC3_RR _ \<Rightarrow> True | _ \<Rightarrow> False)"
    by (cases "rr_data r") (simp_all add: nsec3_of_def)
  then show "nsec3_of (Some r) \<noteq> None \<longleftrightarrow> rr_type r = TypeNSEC3" using assms by blast
qed

text \<open>The findings on denial of existence, for records whose data is of their type.\<close>

lemma signed_denial:
  assumes "dns_names_ok (e_lib E)" and "ed25519_pair (e_crypto E) sign k"
    and "signed_by (e_lib E) (e_crypto E) sign k zone (e_now E) recs" and "gathered (e_lib E) zone recs dd"
    and typed: "\<And>r. r \<in> set (somes (dd_answer dd @ dd_ns dd)) \<Longrightarrow>
      (rr_type r = TypeNSEC) = (case rr_data r of NSEC_RR _ _ \<Rightarrow> True | _ \<Rightarrow> False) \<and>
      (rr_type r = TypeNSEC3) = (case rr_data r of NSEC3_RR _ \<Rightarrow> True | _ \<Rightarrow> False)"
  shows "r_id DNSSECNoNSEC \<in> f_id ` set (dnssecStep E zone dd) \<longleftrightarrow>
      \<not> (\<exists>r \<in> set (somes (dd_answer dd @ dd_ns dd)). rr_type r = TypeNSEC \<or> rr_type r = TypeNSEC3)"
    and "r_id DNSSECMalformedNSEC3 \<in> f_id ` set (dnssecStep E zone dd) \<longleftrightarrow>
      (\<exists>r \<in> set (somes (dd_answer dd @ dd_ns dd)). \<exists>n. rr_data r = NSEC3_RR n \<and> bad_nsec3 n)"
proof -
  let ?u = "somes (dd_answer dd @ dd_ns dd)" and ?a = "nsecAnalyze (denialRecords dd)"
  have mem: "set (denialRecords dd) = Some ` {r \<in> set ?u. rr_type r = TypeNSEC \<or> rr_type r = TypeNSEC3}"
    by (auto simp: denialRecords_def rrsOfType_def)
  note kind = denial_kind [OF typed]
  have n1: "(\<exists>x \<in> set (denialRecords dd). has_nsec x) \<longleftrightarrow> (\<exists>r \<in> set ?u. rr_type r = TypeNSEC)"
    unfolding mem bex_simps using kind(1) by blast
  have n3: "(\<exists>x \<in> set (denialRecords dd). nsec3_of x \<noteq> None) \<longleftrightarrow> (\<exists>r \<in> set ?u. rr_type r = TypeNSEC3)"
    unfolding mem bex_simps using kind(2) by blast
  have bad: "(\<exists>x \<in> set (denialRecords dd). \<exists>n. nsec3_of x = Some n \<and> bad_nsec3 n)
      \<longleftrightarrow> (\<exists>r \<in> set ?u. \<exists>n. rr_data r = NSEC3_RR n \<and> bad_nsec3 n)"
    unfolding mem bex_simps using kind(2) denial_data by (metis (no_types, lifting) mem_Collect_eq option.distinct(1))
  have ids: "r_id DNSSECNoNSEC \<noteq> r_id DNSSECMalformedNSEC3" "r_id DNSSECNoNSEC \<noteq> r_id DNSSECValid"
    "r_id DNSSECMalformedNSEC3 \<noteq> r_id DNSSECValid"
    by (simp_all add: DNSSECNoNSEC_def DNSSECMalformedNSEC3_def DNSSECValid_def)
  have "r_id DNSSECNoNSEC \<in> f_id ` set (dnssecStep E zone dd) \<longleftrightarrow> \<not> as_nsec ?a \<and> \<not> as_nsec3 ?a"
    "r_id DNSSECMalformedNSEC3 \<in> f_id ` set (dnssecStep E zone dd) \<longleftrightarrow> as_malformed ?a"
    unfolding signed_step [OF assms(1-4)] using ids by (auto simp: nsecCheck_def)
  then show "r_id DNSSECNoNSEC \<in> f_id ` set (dnssecStep E zone dd) \<longleftrightarrow>
      \<not> (\<exists>r \<in> set ?u. rr_type r = TypeNSEC \<or> rr_type r = TypeNSEC3)"
    "r_id DNSSECMalformedNSEC3 \<in> f_id ` set (dnssecStep E zone dd) \<longleftrightarrow>
      (\<exists>r \<in> set ?u. \<exists>n. rr_data r = NSEC3_RR n \<and> bad_nsec3 n)"
    unfolding nsecAnalyze_fields n1 n3 bad by blast+
qed

text \<open>
  A zone signed with one Ed25519 key, as the test zones are, whose signatures are all in their period
  and whose DS the parent hands out: whatever slices of it the responses carry, in any order and
  with repetitions, as long as each carries whole the sets whose signatures it carries, the run
  calls the zone valid and reports none of the DNSSEC failures.
\<close>

theorem signed_zone_valid:
  assumes "dns_names_ok (e_lib E)" and "ed25519_pair (e_crypto E) sign k"
    and "signed_by (e_lib E) (e_crypto E) sign k zone (e_now E) recs" and "gathered (e_lib E) zone recs dd"
  shows "(\<exists>f \<in> set (dnssecStep E zone dd). f_id f = r_id DNSSECValid) \<and>
    (\<forall>f \<in> set (dnssecStep E zone dd). f_id f \<notin> r_id ` set dnssec_failures)"
  by (rule signed_verdict [OF assms])

end
