(* ===== verification/Fixtures.thy ===== *)
theory Fixtures
  imports SignedZones
begin

text \<open>
  The test zones of \<^verbatim>\<open>testdata/testzones.go\<close> as values: their constructors do not panic, and the
  signed one is a zone signed by one key.
\<close>

section \<open>The constructors\<close>

lemma all_some_map_Some [simp]: "all_some (map Some xs) = Some xs"
  by (induction xs) auto

lemma tz_a_Some: "mustIP ip = Some a \<Longrightarrow>
   tz_a L n ip ttl = Some \<lparr>rr_hdr = tz_hdr (tz_name L n) TypeA ttl, rr_data = A_RR (Some a)\<rparr>"
  by (simp add: tz_a_def)

lemma mustIP_v4:
  assumes "split_on CHR ''.'' s = [a, b, c, d]" and "v4_field a = Some w" "v4_field b = Some x" "v4_field c = Some y" "v4_field d = Some z"
    and "find (\<lambda>c. c = CHR ''.'' \<or> c = CHR '':'' \<or> c = CHR ''%'') s = Some CHR ''.''"
  shows "mustIP s = Some (mapped_prefix @ [w, x, y, z])"
  using assms by (simp add: mustIP_def parseIP_def parseIPv4_def Let_def)

lemma fixture_addresses:
  "mustIP ''198.51.100.10'' = Some (mapped_prefix @ [198, 51, 100, 10])"
  "mustIP ''93.184.216.34'' = Some (mapped_prefix @ [93, 184, 216, 34])"
  "mustIP ''1.1.1.1'' = Some (mapped_prefix @ [1, 1, 1, 1])"
  "mustIP ''1.0.0.1'' = Some (mapped_prefix @ [1, 0, 0, 1])"
  "mustIP ''10.0.0.5'' = Some (mapped_prefix @ [10, 0, 0, 5])"
  by (simp_all add: mustIP_def parseIP_def parseIPv4_def Let_def v4_field_def dec_digit_def)

section \<open>Zones the server answers from\<close>

text \<open>
  The zone is stored by owner, under canonical names, without wildcards, and the type in the header
  of a DNSSEC record is that of its data.
\<close>

definition typed_record :: "rr \<Rightarrow> bool" where
  "typed_record r \<longleftrightarrow>
     (rr_type r = TypeRRSIG) = (case rr_data r of RRSIG_RR _ \<Rightarrow> True | _ \<Rightarrow> False) \<and>
     (rr_type r = TypeDNSKEY) = (case rr_data r of DNSKEY_RR _ \<Rightarrow> True | _ \<Rightarrow> False) \<and>
     (rr_type r = TypeDS) = (case rr_data r of DS_RR _ \<Rightarrow> True | _ \<Rightarrow> False) \<and>
     (rr_type r = TypeNSEC) = (case rr_data r of NSEC_RR _ _ \<Rightarrow> True | _ \<Rightarrow> False) \<and>
     (rr_type r = TypeNSEC3) = (case rr_data r of NSEC3_RR _ \<Rightarrow> True | _ \<Rightarrow> False)"

definition tidy_zone :: "dnslib \<Rightarrow> zone \<Rightarrow> bool" where
  "tidy_zone L z \<longleftrightarrow> \<not> z_recursive z \<and> z_soa z = None \<and> distinct (map fst (z_records z)) \<and>
     list_all (\<lambda>(k, rs). \<not> has_prefix k ''*.'' \<and>
       list_all (\<lambda>r. rr_name r = k \<and> ownerName L k = k \<and> CHR ''|'' \<notin> set k \<and> typed_record r) rs) (z_records z)"

text \<open>The zone's own name holds a key, a DS and a signature over another type.\<close>

definition signed_apex :: "dnslib \<Rightarrow> zone \<Rightarrow> bool" where
  "signed_apex L z \<longleftrightarrow>
     list_ex (\<lambda>r. case rr_data r of DNSKEY_RR _ \<Rightarrow> True | _ \<Rightarrow> False) (zoneRecords z (zoneKey L z)) \<and>
     list_ex (\<lambda>r. case rr_data r of DS_RR _ \<Rightarrow> True | _ \<Rightarrow> False) (zoneRecords z (zoneKey L z)) \<and>
     list_ex (\<lambda>r. case rr_data r of RRSIG_RR sg \<Rightarrow> sg_typecovered sg \<noteq> TypeDS | _ \<Rightarrow> False) (zoneRecords z (zoneKey L z))"

section \<open>The signed zone\<close>

lemma signRRset_ok:
  assumes "rrs \<noteq> []"
  obtains h sg where "signRRset L sign k clock zone rrs False = Some (h, sg)"
  using assms by (cases rrs) (auto simp: signRRset_def Let_def)

lemma signRRset_hdr:
  "signRRset L sign k clock zone rrs t = Some (h, sg) \<Longrightarrow>
     h = tz_hdr (fqdn L (rr_name (hd rrs))) TypeRRSIG (rr_ttl (hd rrs)) \<and> sg_typecovered sg = rr_type (hd rrs) \<and>
     sg_inception sg = word_of_int (fst clock - 3600) \<and> sg_expiration sg = word_of_int (snd clock + 48 * 3600)"
  by (auto simp: signRRset_def Let_def split: list.splits option.splits if_splits)

text \<open>The clock advances while the zone is built; at the time \<open>now\<close> every signature is in its period.\<close>

definition signing_time :: "(nat \<Rightarrow> int) \<Rightarrow> int \<Rightarrow> bool" where
  "signing_time clock now \<longleftrightarrow> (\<forall>i < 12. 3600 \<le> clock i \<and> clock i + 172800 < 2 ^ 32 \<and> clock i \<le> now \<and> now \<le> clock i + 172800)"

lemma in_period:
  assumes "signing_time clock now" and "i < 12" "j < 12"
    and "signRRset L sign k (clock i, clock j) zone rrs t = Some (h, sg)"
  shows "uint (sg_inception sg) \<le> now" "now \<le> uint (sg_expiration sg)"
proof -
  have u: "uint (word_of_int x :: u32) = x" if "0 \<le> x" "x < 2 ^ 32" for x
    using that by (simp add: unsigned_of_int take_bit_int_eq_self)
  have "3600 \<le> clock i" "clock i + 172800 < 2 ^ 32" "clock i \<le> now" "3600 \<le> clock j" "clock j + 172800 < 2 ^ 32" "now \<le> clock j + 172800"
    using assms(1-3) by (auto simp: signing_time_def)
  then show "uint (sg_inception sg) \<le> now" "now \<le> uint (sg_expiration sg)"
    using signRRset_hdr [OF assms(4)] u [of "clock i - 3600"] u [of "clock j + 172800"] by simp_all
qed

lemma signed_setI:
  assumes "signing_time clock now" and "i < 6" and "signRRset L sign k (clock (2 * i), clock (2 * i + 1)) zone rrs False = Some (h, sg)"
    and "signable L rrs" and "n = ownerName L (rr_name (hd rrs))" and "set_of L recs n (rr_type (hd rrs)) = rrs"
  shows "signed_set L sign k zone now recs n sg"
  unfolding signed_set_def
  using assms in_period [OF assms(1) _ _ assms(3)] signRRset_hdr [OF assms(3)]
  by (auto simp: same_data_def intro!: exI [of _ rrs])

text \<open>What is used of the library for this zone: the names are fully qualified and packed, the servers' differently.\<close>

definition signed_names_ok :: "dnslib \<Rightarrow> bool" where
  "signed_names_ok L \<longleftrightarrow> dns_names_ok L \<and>
     list_all (isFqdn L) [''signed.test.'', ''ns1.signed.test.'', ''ns2.signed.test.''] \<and>
     canonicalName L ''signed.test.'' \<noteq> None \<and> canonicalName L ''ns1.signed.test.'' \<noteq> None \<and>
     canonicalName L ''ns2.signed.test.'' \<noteq> None \<and>
     canonicalName L ''ns1.signed.test.'' \<noteq> canonicalName L ''ns2.signed.test.''"

lemma signed_names:
  assumes "signed_names_ok L" and "s \<in> {''signed.test.'', ''ns1.signed.test.'', ''ns2.signed.test.''}"
  shows "fqdn L s = s" "ownerName L s = s"
proof -
  show f: "fqdn L s = s" using assms by (auto simp: signed_names_ok_def intro: fqdn_isFqdn)
  have "to_lower s = s" using assms(2) by (auto simp: lower_char_def)
  then show "ownerName L s = s" using f by (simp add: ownerName_def)
qed

lemma signed_names_lib: "signed_names_ok L \<Longrightarrow> dns_names_ok L"
  by (simp add: signed_names_ok_def)

text \<open>The records of the zone: at its name, and the addresses of its servers.\<close>

abbreviation sz_name :: string where
  "sz_name \<equiv> ''signed.test.''"

definition sz_soa :: "dnslib \<Rightarrow> rr" where
  "sz_soa L = tz_soa L sz_name ''ns1.signed.test.'' ''admin.signed.test.'' 2024010101 7200 1800 1209600 3600 3600"

definition sz_ns :: "dnslib \<Rightarrow> string \<Rightarrow> rr" where
  "sz_ns L server = tz_ns L sz_name server 3600"

definition sz_addr :: "dnslib \<Rightarrow> string \<Rightarrow> bytes \<Rightarrow> u32 \<Rightarrow> rr" where
  "sz_addr L n ip ttl = \<lparr>rr_hdr = tz_hdr (tz_name L n) TypeA ttl, rr_data = A_RR (Some (mapped_prefix @ ip))\<rparr>"

definition sz_a :: "dnslib \<Rightarrow> rr" where
  "sz_a L = sz_addr L sz_name [93, 184, 216, 34] 300"

definition sz_txt :: "dnslib \<Rightarrow> rr" where
  "sz_txt L = tz_txt L sz_name ''v=spf1 -all'' 300"

definition sz_key :: "dnslib \<Rightarrow> test_key \<Rightarrow> rr" where
  "sz_key L k = \<lparr>rr_hdr = fst (dnskeyRR L k sz_name), rr_data = DNSKEY_RR (snd (dnskeyRR L k sz_name))\<rparr>"

definition sz_ds :: "dnslib \<Rightarrow> crypto \<Rightarrow> test_key \<Rightarrow> rr" where
  "sz_ds L C k = dsRR L C k sz_name (snd (dnskeyRR L k sz_name))"

definition sz_nsec :: "dnslib \<Rightarrow> rr" where
  "sz_nsec L = \<lparr>rr_hdr = tz_hdr (tz_name L sz_name) TypeNSEC 3600,
     rr_data = NSEC_RR (tz_name L sz_name) [TypeA, TypeNS, TypeSOA, TypeTXT, TypeRRSIG, TypeNSEC, TypeDNSKEY]\<rparr>"

lemmas sz_defs = sz_soa_def tz_soa_def sz_ns_def tz_ns_def sz_a_def sz_addr_def sz_txt_def tz_txt_def sz_key_def
  dnskeyRR_def sz_ds_def dsRR_def sz_nsec_def tz_name_def

definition sz_ns1 :: "dnslib \<Rightarrow> rr" where "sz_ns1 L = sz_ns L ''ns1.signed.test.''"
definition sz_ns2 :: "dnslib \<Rightarrow> rr" where "sz_ns2 L = sz_ns L ''ns2.signed.test.''"
definition sz_a1 :: "dnslib \<Rightarrow> rr" where "sz_a1 L = sz_addr L ''ns1.signed.test.'' [1, 1, 1, 1] 3600"
definition sz_a2 :: "dnslib \<Rightarrow> rr" where "sz_a2 L = sz_addr L ''ns2.signed.test.'' [1, 0, 0, 1] 3600"

lemmas sz_defs2 = sz_ns1_def sz_ns2_def sz_a1_def sz_a2_def sz_defs

text \<open>The record sets that are signed, in the order of their signatures.\<close>

definition sz_sets :: "dnslib \<Rightarrow> test_key \<Rightarrow> rr list list" where
  "sz_sets L k = [[sz_soa L], [sz_ns1 L, sz_ns2 L], [sz_a L], [sz_txt L], [sz_key L k], [sz_nsec L]]"

definition sz_apex :: "dnslib \<Rightarrow> crypto \<Rightarrow> test_key \<Rightarrow> rr list" where
  "sz_apex L C k = [sz_soa L, sz_ns1 L, sz_ns2 L, sz_a L, sz_txt L, sz_key L k, sz_ds L C k, sz_nsec L]"

definition sz_recs :: "dnslib \<Rightarrow> crypto \<Rightarrow> test_key \<Rightarrow> (rr_header \<times> rrsig) list \<Rightarrow> rr list" where
  "sz_recs L C k sigs = sz_apex L C k @ map sig_rr sigs @ [sz_a1 L, sz_a2 L]"

definition sz_zone :: "dnslib \<Rightarrow> crypto \<Rightarrow> test_key \<Rightarrow> (rr_header \<times> rrsig) list \<Rightarrow> zone" where
  "sz_zone L C k sigs = \<lparr>z_name = sz_name,
     z_records = [(sz_name, sz_apex L C k @ map sig_rr sigs), (''ns1.signed.test.'', [sz_a1 L]), (''ns2.signed.test.'', [sz_a2 L])],
     z_transfer = False, z_recursive = False, z_soa = None\<rparr>"

lemma sz_all: "allRecords (sz_zone L C k sigs) = sz_recs L C k sigs"
  by (simp add: allRecords_def sz_zone_def sz_recs_def)

text \<open>The signature of the \<open>i\<close>-th set; the third is the one that is tampered with.\<close>

definition sz_sign :: "dnslib \<Rightarrow> (bytes \<Rightarrow> bytes \<Rightarrow> bytes) \<Rightarrow> test_key \<Rightarrow> (nat \<Rightarrow> int) \<Rightarrow> bool \<Rightarrow> nat \<Rightarrow> (rr_header \<times> rrsig) option" where
  "sz_sign L sign k clock tamper i = signRRset L sign k (clock (2 * i), clock (2 * i + 1)) sz_name (sz_sets L k ! i) (tamper \<and> i = 2)"

definition sz_made :: "dnslib \<Rightarrow> (bytes \<Rightarrow> bytes \<Rightarrow> bytes) \<Rightarrow> test_key \<Rightarrow> (nat \<Rightarrow> int) \<Rightarrow> bool \<Rightarrow> (rr_header \<times> rrsig) list \<Rightarrow> bool" where
  "sz_made L sign k clock tamper sigs \<longleftrightarrow> length sigs = 6 \<and> (\<forall>i < 6. sz_sign L sign k clock tamper i = Some (sigs ! i))"

lemma signedZone_shape:
  assumes "newTestKey g = Some k" and "\<And>m. sign (tk_priv k) m \<noteq> []"
  obtains sigs where "signedZone L C sign g clock tamper = Some (sz_zone L C k sigs)" and "sz_made L sign k clock tamper sigs"
proof -
  have "\<exists>x. sz_sign L sign k clock tamper i = Some x" if "i < 6" for i
  proof -
    have "sz_sets L k ! i \<in> set (sz_sets L k)" using that by (intro nth_mem) (simp add: sz_sets_def)
    then have "sz_sets L k ! i \<noteq> []" by (auto simp: sz_sets_def)
    then show ?thesis using assms(2) unfolding sz_sign_def by (auto simp: signRRset_def Let_def split: list.split)
  qed
  then obtain f where f: "\<And>i. i < 6 \<Longrightarrow> sz_sign L sign k clock tamper i = Some (f i)" by metis
  have sg: "signRRset L sign k (clock (2 * i), clock (2 * i + 1)) sz_name (sz_sets L k ! i) (tamper \<and> i = 2) = Some (f i)" if "i < 6" for i
    using f [OF that] by (simp add: sz_sign_def)
  have a: "tz_a L sz_name ''93.184.216.34'' 300 = Some (sz_a L)" "tz_a L ''ns1.signed.test.'' ''1.1.1.1'' 3600 = Some (sz_a1 L)"
    "tz_a L ''ns2.signed.test.'' ''1.0.0.1'' 3600 = Some (sz_a2 L)"
    by (simp_all add: tz_a_Some fixture_addresses sz_a_def sz_a1_def sz_a2_def sz_addr_def)
  have s: "signRRset L sign k (clock 0, clock 1) sz_name [sz_soa L] False = Some (f 0)"
    "signRRset L sign k (clock 2, clock 3) sz_name [sz_ns1 L, sz_ns2 L] False = Some (f 1)"
    "signRRset L sign k (clock 4, clock 5) sz_name [sz_a L] tamper = Some (f 2)"
    "signRRset L sign k (clock 6, clock 7) sz_name [sz_txt L] False = Some (f 3)"
    "signRRset L sign k (clock 8, clock 9) sz_name [sz_key L k] False = Some (f 4)"
    "signRRset L sign k (clock 10, clock 11) sz_name [sz_nsec L] False = Some (f 5)"
    using sg [of 0] sg [of 1] sg [of 2] sg [of 3] sg [of 4] sg [of 5] by (simp_all add: sz_sets_def)
  have six: "map f [0..<6] = [f 0, f 1, f 2, f 3, f 4, f 5]" by (simp add: upt_rec eval_nat_numeral)
  have "signedZone L C sign g clock tamper = Some (sz_zone L C k (map f [0..<6]))"
    unfolding signedZone_def assms(1) a Let_def bind.bind_lunit sz_soa_def [symmetric]
        sz_ns_def [symmetric] sz_ns1_def [symmetric] sz_ns2_def [symmetric] sz_txt_def [symmetric] sz_key_def [symmetric]
        sz_ds_def [symmetric] sz_nsec_def [symmetric]
    by (simp add: six s zone_literal_def sz_zone_def sz_apex_def del: One_nat_def)
  then show ?thesis
    by (rule that) (simp_all add: sz_made_def f)
qed

text \<open>The headers and the data of the records.\<close>

lemma sz_hdrs:
  "rr_hdr (sz_soa L) = tz_hdr (fqdn L sz_name) TypeSOA 3600" "rr_hdr (sz_ns1 L) = tz_hdr (fqdn L sz_name) TypeNS 3600"
  "rr_hdr (sz_ns2 L) = tz_hdr (fqdn L sz_name) TypeNS 3600" "rr_hdr (sz_a L) = tz_hdr (fqdn L sz_name) TypeA 300"
  "rr_hdr (sz_txt L) = tz_hdr (fqdn L sz_name) TypeTXT 300" "rr_hdr (sz_key L k) = tz_hdr (fqdn L sz_name) TypeDNSKEY 3600"
  "rr_hdr (sz_ds L C k) = tz_hdr (fqdn L sz_name) TypeDS 3600" "rr_hdr (sz_nsec L) = tz_hdr (fqdn L sz_name) TypeNSEC 3600"
  "rr_hdr (sz_a1 L) = tz_hdr (fqdn L ''ns1.signed.test.'') TypeA 3600" "rr_hdr (sz_a2 L) = tz_hdr (fqdn L ''ns2.signed.test.'') TypeA 3600"
  "rr_hdr (sig_rr x) = fst x"
  by (simp_all add: sz_defs2 Let_def sig_rr_def split: prod.split)

lemma sz_data:
  "rr_data (sz_soa L) = SOA_RR \<lparr>soa_ns = fqdn L ''ns1.signed.test.'', soa_mbox = fqdn L ''admin.signed.test.'',
     soa_serial = 2024010101, soa_refresh = 7200, soa_retry = 1800, soa_expire = 1209600, soa_minttl = 3600\<rparr>"
  "rr_data (sz_ns1 L) = NS_RR (fqdn L ''ns1.signed.test.'')" "rr_data (sz_ns2 L) = NS_RR (fqdn L ''ns2.signed.test.'')"
  "rr_data (sz_a L) = A_RR (Some (mapped_prefix @ [93, 184, 216, 34]))" "rr_data (sz_txt L) = TXT_RR [''v=spf1 -all'']"
  "rr_data (sz_key L k) = DNSKEY_RR (snd (dnskeyRR L k sz_name))"
  "rr_data (sz_ds L C k) = DS_RR \<lparr>ds_keytag = tk_tag k, ds_algorithm = 15, ds_digesttype = 2,
     ds_digest = hex_encode (digest C SHA256 (raw (canonicalName L sz_name) @ be16 257 @ [3, 15] @ tk_pub k))\<rparr>"
  "rr_data (sz_nsec L) = NSEC_RR (fqdn L sz_name) [TypeA, TypeNS, TypeSOA, TypeTXT, TypeRRSIG, TypeNSEC, TypeDNSKEY]"
  "rr_data (sz_a1 L) = A_RR (Some (mapped_prefix @ [1, 1, 1, 1]))" "rr_data (sz_a2 L) = A_RR (Some (mapped_prefix @ [1, 0, 0, 1]))"
  "rr_data (sig_rr x) = RRSIG_RR (snd x)"
  by (simp_all add: sz_defs2 Let_def sig_rr_def split: prod.split)

lemma sz_sig:
  assumes "dns_names_ok L" and "sz_made L sign k clock tamper sigs" and "i < 6"
  shows "fst (sigs ! i) = tz_hdr (fqdn L sz_name) TypeRRSIG (rr_ttl (hd (sz_sets L k ! i)))"
    and "sg_typecovered (snd (sigs ! i)) = rr_type (hd (sz_sets L k ! i))"
proof -
  have "sz_sets L k ! i \<in> set (sz_sets L k)" using assms(3) by (intro nth_mem) (simp add: sz_sets_def)
  then have "rr_name (hd (sz_sets L k ! i)) = fqdn L sz_name" by (auto simp: sz_sets_def sz_hdrs tz_hdr_def)
  moreover obtain h sg where "sigs ! i = (h, sg)" "sz_sign L sign k clock tamper i = Some (h, sg)"
    using assms(2,3) by (cases "sigs ! i") (auto simp: sz_made_def)
  ultimately show "fst (sigs ! i) = tz_hdr (fqdn L sz_name) TypeRRSIG (rr_ttl (hd (sz_sets L k ! i)))"
    "sg_typecovered (snd (sigs ! i)) = rr_type (hd (sz_sets L k ! i))"
    using assms(1) unfolding sz_sign_def by (auto dest: signRRset_hdr)
qed

lemma sz_sig_hdr:
  assumes "dns_names_ok L" and "sz_made L sign k clock tamper sigs" and "x \<in> set sigs"
  shows "h_name (fst x) = fqdn L sz_name" "h_rrtype (fst x) = TypeRRSIG"
proof -
  obtain i where "i < 6" "x = sigs ! i" using assms(2,3) by (metis in_set_conv_nth sz_made_def)
  with sz_sig(1) [OF assms(1,2)] show "h_name (fst x) = fqdn L sz_name" "h_rrtype (fst x) = TypeRRSIG"
    by (simp_all add: tz_hdr_def)
qed

text \<open>The zone that is built, tampered with or not, can be served, and its apex is signed.\<close>

lemma sz_key_name: "signed_names_ok L \<Longrightarrow> zoneKey L (sz_zone L C k sigs) = sz_name"
  using signed_names(2) [of L sz_name] by (simp add: zoneKey_def ownerName_def sz_zone_def)

lemma sz_tidy:
  assumes L: "signed_names_ok L" and made: "sz_made L sign k clock tamper sigs"
  shows "tidy_zone L (sz_zone L C k sigs)"
proof -
  note names = signed_names [OF L] and ok = signed_names_lib [OF L]
  have "list_all typed_record (sz_apex L C k @ [sz_a1 L, sz_a2 L])"
    by (simp add: sz_data sz_apex_def typed_record_def sz_hdrs tz_hdr_def type_defs)
  moreover have "typed_record (sig_rr x)" if "x \<in> set sigs" for x
    using sz_sig_hdr(2) [OF ok made that] by (simp add: typed_record_def sz_hdrs sz_data type_defs)
  moreover have "list_all (\<lambda>r. rr_name r = sz_name) (sz_apex L C k)"
    "rr_name (sz_a1 L) = ''ns1.signed.test.''" "rr_name (sz_a2 L) = ''ns2.signed.test.''"
    using names(1) by (simp_all add: sz_apex_def sz_hdrs tz_hdr_def)
  moreover have "rr_name (sig_rr x) = sz_name" if "x \<in> set sigs" for x
    using sz_sig_hdr(1) [OF ok made that] names(1) by (simp add: sz_hdrs)
  ultimately show ?thesis
    using names(2) by (auto simp: tidy_zone_def has_prefix_def sz_zone_def list_all_iff)
qed

lemma sz_signed_apex:
  assumes L: "signed_names_ok L" and made: "sz_made L sign k clock tamper sigs"
  shows "signed_apex L (sz_zone L C k sigs)"
proof -
  have "zoneRecords (sz_zone L C k sigs) sz_name = sz_apex L C k @ map sig_rr sigs"
    by (simp add: zoneRecords_def slot_def sz_zone_def)
  moreover have "sg_typecovered (snd (sigs ! 0)) = TypeSOA" "sigs ! 0 \<in> set sigs"
    using sz_sig(2) [OF signed_names_lib [OF L] made, of 0] made by (auto simp: sz_sets_def sz_hdrs tz_hdr_def sz_made_def)
  ultimately show ?thesis
    unfolding signed_apex_def sz_key_name [OF L]
    by (auto simp: sz_apex_def sz_data type_defs list_ex_iff intro!: bexI [of _ "sigs ! 0"])
qed

text \<open>The record sets of the zone are the sets that were signed, and each can be signed.\<close>

lemma sz_set_of:
  assumes L: "signed_names_ok L" and made: "sz_made L sign k clock tamper sigs" and i: "i < 6"
  shows "set_of L (sz_recs L C k sigs) sz_name (rr_type (hd (sz_sets L k ! i))) = sz_sets L k ! i"
proof -
  note names = signed_names [OF L] and ok = signed_names_lib [OF L]
  have none: "filter (\<lambda>r. ownerName L (rr_name r) = sz_name \<and> rr_type r = t) (map sig_rr sigs) = []" if "t \<noteq> TypeRRSIG" for t
    using sz_sig_hdr(2) [OF ok made] that by (auto simp: filter_empty_conv sz_hdrs)
  have "list_all (\<lambda>rrs. set_of L (sz_recs L C k sigs) sz_name (rr_type (hd rrs)) = rrs) (sz_sets L k)"
    using names by (simp add: sz_sets_def set_of_def sz_recs_def sz_apex_def none sz_hdrs tz_hdr_def type_defs)
  then show ?thesis using i by (simp add: list_all_length sz_sets_def)
qed

lemma sz_signable:
  assumes L: "signed_names_ok L" and i: "i < 6"
  shows "signable L (sz_sets L k ! i)" "rr_name (hd (sz_sets L k ! i)) = sz_name"
proof -
  note names = signed_names [OF L] and ok = signed_names_lib [OF L]
  have labels: "length (split_on CHR ''.'' (trim_suffix (fqdn L sz_name) ''.'')) < 256"
    using names(1) [of sz_name] by (simp add: trim_suffix_def has_suffix_def)
  have un: "uncompressedName L (fqdn L n) = canonicalName L n" for n
    using canonicalName_fqdn [OF ok, of n] by (simp add: canonicalName_def)
  have data: "rrData L (sz_soa L) \<noteq> None" "rrData L (sz_ns1 L) = canonicalName L ''ns1.signed.test.''"
    "rrData L (sz_ns2 L) = canonicalName L ''ns2.signed.test.''" "rrData L (sz_a L) \<noteq> None" "rrData L (sz_txt L) \<noteq> None"
    "rrData L (sz_key L k) \<noteq> None"
    "rrData L (sz_nsec L) = go_append (canonicalName L sz_name) (typeBitmap [TypeA, TypeNS, TypeSOA, TypeTXT, TypeRRSIG, TypeNSEC, TypeDNSKEY])"
    by (simp_all add: rrData_def sz_data txtRdata_def go_append_def txt_piece_def Let_def un)
  have "signable L rrs" if "rrs \<in> set (sz_sets L k)" for rrs
    using that L labels data
    by (auto simp: sz_sets_def signable_def sz_hdrs tz_hdr_def signed_names_ok_def go_append_def)
  moreover have "rr_name (hd rrs) = sz_name" if "rrs \<in> set (sz_sets L k)" for rrs
    using that names(1) [of sz_name] by (auto simp: sz_sets_def sz_hdrs tz_hdr_def)
  moreover have "sz_sets L k ! i \<in> set (sz_sets L k)" using i by (intro nth_mem) (simp add: sz_sets_def)
  ultimately show "signable L (sz_sets L k ! i)" "rr_name (hd (sz_sets L k ! i)) = sz_name" by blast+
qed

lemma sz_signed_by:
  assumes L: "signed_names_ok L" and time: "signing_time clock now" and made: "sz_made L sign k clock False sigs"
  shows "signed_by L C sign k sz_name now (allRecords (sz_zone L C k sigs))"
proof -
  let ?ok = "signed_record L C sign k sz_name now (sz_recs L C k sigs)"
  note names = signed_names [OF L] and ok = signed_names_lib [OF L]
  have "list_all ?ok (sz_apex L C k @ [sz_a1 L, sz_a2 L])"
    using ok by (simp add: sz_apex_def signed_record_def sz_data sz_hdrs tz_hdr_def)
      (simp add: dsRR_def dnskeyRR_def Let_def)
  moreover have "?ok (sig_rr (sigs ! i))" if i: "i < 6" for i
  proof -
    obtain h sg where sg: "sigs ! i = (h, sg)" by (cases "sigs ! i")
    then have "signRRset L sign k (clock (2 * i), clock (2 * i + 1)) sz_name (sz_sets L k ! i) False = Some (h, sg)"
      using made i by (simp add: sz_made_def sz_sign_def)
    from signed_setI [OF time i this sz_signable(1) [OF L i], of sz_name "sz_recs L C k sigs"]
    have "signed_set L sign k sz_name now (sz_recs L C k sigs) sz_name sg"
      using sz_set_of [OF L made i, of C] sz_signable(2) [OF L i] names(2) by simp
    moreover have "ownerName L (rr_name (sig_rr (sigs ! i))) = sz_name"
      using sz_sig_hdr(1) [OF ok made, of "sigs ! i"] made i names by (simp add: sz_hdrs sz_made_def)
    ultimately show ?thesis by (simp add: signed_record_def sz_data sg)
  qed
  then have "?ok (sig_rr x)" if "x \<in> set sigs" for x
    using that made by (auto simp: sz_made_def in_set_conv_nth)
  ultimately show ?thesis
    unfolding signed_by_def sz_all by (simp add: sz_recs_def list_all_iff) blast
qed

lemma signedZone_signed:
  assumes L: "signed_names_ok L" and time: "signing_time clock now"
    and k: "newTestKey g = Some k" and sign: "\<And>m. sign (tk_priv k) m \<noteq> []"
  obtains z where "DNSSECSigned_zone L C sign g clock = Some z"
    and "signed_by L C sign k ''signed.test.'' now (allRecords z)" "tidy_zone L z" "signed_apex L z"
    and "zoneKey L z = ''signed.test.''"
proof -
  obtain sigs where "signedZone L C sign g clock False = Some (sz_zone L C k sigs)" and made: "sz_made L sign k clock False sigs"
    by (rule signedZone_shape [where sign = sign, OF k sign])
  then show ?thesis
    using that sz_signed_by [OF L time made] sz_tidy [OF L made] sz_signed_apex [OF L made] sz_key_name [OF L]
    unfolding DNSSECSigned_zone_def by metis
qed

text \<open>The zone denies existence with an NSEC record and holds no NSEC3 record.\<close>

lemma signedZone_denies:
  assumes "DNSSECSigned_zone L C sign g clock = Some z" and "newTestKey g = Some k" and "\<And>m. sign (tk_priv k) m \<noteq> []"
  shows "\<exists>r \<in> set (allRecords z). rr_type r = TypeNSEC" "r \<in> set (allRecords z) \<Longrightarrow> rr_data r \<noteq> NSEC3_RR n"
proof -
  obtain sigs where "signedZone L C sign g clock False = Some (sz_zone L C k sigs)"
    by (rule signedZone_shape [where sign = sign, OF assms(2,3)])
  then have "z = sz_zone L C k sigs" using assms(1) by (simp add: DNSSECSigned_zone_def)
  then have z: "allRecords z = sz_recs L C k sigs" by (simp only: sz_all)
  have "sz_nsec L \<in> set (allRecords z)" "rr_type (sz_nsec L) = TypeNSEC"
    by (simp_all add: z sz_recs_def sz_apex_def sz_hdrs tz_hdr_def)
  then show "\<exists>r \<in> set (allRecords z). rr_type r = TypeNSEC" by blast
  show "rr_data r \<noteq> NSEC3_RR n" if "r \<in> set (allRecords z)"
    using that by (auto simp: z sz_recs_def sz_apex_def sz_data)
qed

text \<open>The library of the examples knows these names.\<close>

lemma plain_names: "signed_names_ok plain_lib"
proof -
  have "split_on CHR ''.'' ''signed.test'' = [''signed'', ''test'']" "split_on CHR ''.'' ''ns1.signed.test'' = [''ns1'', ''signed'', ''test'']"
    "split_on CHR ''.'' ''ns2.signed.test'' = [''ns2'', ''signed'', ''test'']"
    by simp_all
  then show ?thesis
    by (simp add: signed_names_ok_def plain_lib_ok)
      (simp add: plain_lib_def has_suffix_def canonicalName_def uncompressedName_def lower_char_def plain_pack_def trim_suffix_def
        bytes_of_def byte_of_char_def)
qed

definition ex_env :: env where
  "ex_env = \<lparr>e_lib = plain_lib, e_crypto = ex_crypto, e_now = 1000000, e_date = \<lparr>d_year = 2024, d_month = 1, d_day = 1\<rparr>, e_probe1 = Some [1],
     e_probe2 = None, e_rec = (\<lambda>_. None)\<rparr>"

lemma ex_signed_zone:
  obtains z where "DNSSECSigned_zone plain_lib ex_crypto ex_sign (Some (replicate 32 0, [])) (\<lambda>_. 1000000) = Some z"
    and "signed_by plain_lib ex_crypto ex_sign ex_pair ''signed.test.'' 1000000 (allRecords z)" "tidy_zone plain_lib z"
    and "signed_apex plain_lib z" "zoneKey plain_lib z = ''signed.test.''"
proof -
  have "newTestKey (Some (replicate 32 0, [])) = Some ex_pair" by (simp add: newTestKey_def ex_pair_def)
  moreover have "signing_time (\<lambda>_. 1000000) 1000000" by (simp add: signing_time_def)
  ultimately show ?thesis
    using signedZone_signed [OF plain_names, of "\<lambda>_. 1000000" 1000000 "Some (replicate 32 0, [])" ex_pair ex_sign ex_crypto] that
    by (auto simp: ex_sign_def)
qed

text \<open>The records of one response that holds the whole zone.\<close>

definition whole_data :: "rr list \<Rightarrow> dnssec_data" where
  "whole_data recs = (let m = new_msg\<lparr>m_answer := map Some recs\<rparr> in
     \<lparr>dd_units = [m], dd_keys = [], dd_seen = [], dd_answer = map Some recs, dd_ns = [], dd_ds = m\<rparr>)"

lemma whole_gathered:
  assumes "dns_names_ok L" and "tidy_zone L z" and "signed_apex L z" and "ownerName L zone = zoneKey L z"
  shows "gathered L zone (allRecords z) (whole_data (allRecords z))"
proof -
  have sub: "set (zoneRecords z (zoneKey L z)) \<subseteq> set (allRecords z)"
    by (force simp: zoneRecords_def allRecords_def dest!: slot_nonempty)
  have name: "inZoneName (ownerName L (rr_name r)) (ownerName L zone)" if r: "r \<in> set (zoneRecords z (zoneKey L z))" for r
  proof -
    obtain rs where "(zoneKey L z, rs) \<in> set (z_records z)" "r \<in> set rs"
      using slot_nonempty [OF r [unfolded zoneRecords_def]] by blast
    then show ?thesis using assms(2,4) by (auto simp: tidy_zone_def list_all_iff inZoneName_def)
  qed
  have c: "carries L (allRecords z) (allRecords z)"
    by (auto simp: carries_def list_all_iff set_of_def split: rdata.split)
  show ?thesis
    using assms(3) sub name c
    unfolding gathered_def whole_data_def signed_apex_def Let_def list_ex_iff case_record
    by (simp add: list_all_iff new_msg_def) (meson subsetD)
qed

theorem signed_zone_valid_witness:
  "\<exists>z. DNSSECSigned_zone plain_lib ex_crypto ex_sign (Some (replicate 32 0, [])) (\<lambda>_. 1000000) = Some z \<and>
     (\<exists>f \<in> set (dnssecStep ex_env ''signed.test.'' (whole_data (allRecords z))). f_id f = r_id DNSSECValid)"
proof (rule ex_signed_zone)
  fix z
  assume z: "DNSSECSigned_zone plain_lib ex_crypto ex_sign (Some (replicate 32 0, [])) (\<lambda>_. 1000000) = Some z"
    and signed: "signed_by plain_lib ex_crypto ex_sign ex_pair ''signed.test.'' 1000000 (allRecords z)"
    and tidy: "tidy_zone plain_lib z" and apex: "signed_apex plain_lib z" and key: "zoneKey plain_lib z = ''signed.test.''"
  have e: "e_lib ex_env = plain_lib" "e_crypto ex_env = ex_crypto" "e_now ex_env = 1000000" by (simp_all add: ex_env_def)
  have "ownerName plain_lib ''signed.test.'' = zoneKey plain_lib z"
    unfolding key using signed_names(2) [OF plain_names] by simp
  from whole_gathered [OF plain_lib_ok tidy apex this]
  have g: "gathered (e_lib ex_env) ''signed.test.'' (allRecords z) (whole_data (allRecords z))" by (simp only: e)
  have "\<exists>f \<in> set (dnssecStep ex_env ''signed.test.'' (whole_data (allRecords z))). f_id f = r_id DNSSECValid"
    using signed_zone_valid [of ex_env, unfolded e, OF plain_lib_ok ex_pair_ok signed g [unfolded e]] by blast
  with z show ?thesis by blast
qed

end
