(* ===== verification/SignedRun.thy ===== *)
theory SignedRun
  imports Fixtures
begin

text \<open>
  A whole run (\<^verbatim>\<open>internal/audit/audit.go\<close>) on the in-memory server (\<^verbatim>\<open>internal/resolver/fake.go\<close>) with
  a zone that one key signed: what the server answers, what is gathered from its answers, and the
  verdict.
\<close>

section \<open>Tidy zones\<close>

lemma tidyD:
  assumes "tidy_zone L z" and "(k, rs) \<in> set (z_records z)"
  shows "\<not> has_prefix k ''*.''" and "r \<in> set rs \<Longrightarrow> rr_name r = k \<and> ownerName L k = k \<and> CHR ''|'' \<notin> set k \<and> typed_record r"
  using assms by (auto simp: tidy_zone_def list_all_iff)

lemma tidy_record:
  assumes "tidy_zone L z" and "r \<in> set (allRecords z)"
  shows "ownerName L (rr_name r) = rr_name r" "CHR ''|'' \<notin> set (rr_name r)" "typed_record r" "r \<in> set (zoneRecords z (rr_name r))"
proof -
  obtain k rs where k: "(k, rs) \<in> set (z_records z)" "r \<in> set rs" using assms(2) by (auto simp: allRecords_def)
  note t = tidyD(2) [OF assms(1) k]
  show "ownerName L (rr_name r) = rr_name r" "CHR ''|'' \<notin> set (rr_name r)" "typed_record r" using t by simp_all
  have "slot (z_records z) k = rs" using assms(1) k(1) by (intro slot_member) (simp_all add: tidy_zone_def)
  then show "r \<in> set (zoneRecords z (rr_name r))" using t k(2) by (simp add: zoneRecords_def)
qed

lemma zoneRecords_all: "set (zoneRecords z n) \<subseteq> set (allRecords z)"
  by (force simp: zoneRecords_def allRecords_def dest!: slot_nonempty)

lemma no_wildcards: "tidy_zone L z \<Longrightarrow> wildcardAnswers z q n = []"
  using tidyD(1) [of L z] by (auto simp: wildcardAnswers_def concat_eq_Nil_conv)

section \<open>What the server answers\<close>

text \<open>A message that carries the zone, and whose answer section alone does.\<close>

definition good :: "dnslib \<Rightarrow> rr list \<Rightarrow> msg \<Rightarrow> bool" where
  "good L recs m \<longleftrightarrow> carries L recs (msg_rrs m) \<and> carries L recs (somes (m_answer m))"

lemma carries_Nil [simp]: "carries L recs []"
  by (simp add: carries_def)

lemma carries_all: "set part = set recs \<Longrightarrow> carries L recs part"
  by (auto simp: carries_def list_all_iff set_of_def split: rdata.split)

lemma carries_no_sig:
  "set part \<subseteq> set recs \<Longrightarrow> (\<And>r sg. r \<in> set part \<Longrightarrow> rr_data r \<noteq> RRSIG_RR sg) \<Longrightarrow> carries L recs part"
  by (auto simp: carries_def list_all_iff split: rdata.split)

lemma carries_union:
  assumes "carries L recs a" and "carries L recs b" and "set c = set a \<union> set b"
  shows "carries L recs c"
  using assms unfolding carries_def list_all_iff by (auto split: rdata.splits) blast+

lemma typed_sig: "typed_record r \<Longrightarrow> rr_type r \<noteq> TypeRRSIG \<Longrightarrow> rr_data r \<noteq> RRSIG_RR sg"
  by (auto simp: typed_record_def)

lemma carries_denial:
  assumes "tidy_zone L z" and "set extra \<subseteq> set (allRecords z)" and "\<And>r sg. r \<in> set extra \<Longrightarrow> rr_data r \<noteq> RRSIG_RR sg"
  shows "carries L (allRecords z) (extra @ filter denialRecord (allRecords z))"
proof -
  have whole: "set (set_of L (allRecords z) n (sg_typecovered sg)) \<subseteq> set (filter denialRecord (allRecords z))"
    if "denialRecord r" "rr_data r = RRSIG_RR sg" for r sg n
  proof -
    have "sg_typecovered sg = TypeNSEC \<or> sg_typecovered sg = TypeNSEC3" using that by (simp add: denialRecord_def)
    moreover have "denialRecord x" if "x \<in> set (allRecords z)" "rr_type x = TypeNSEC \<or> rr_type x = TypeNSEC3" for x
      using tidy_record(3) [OF assms(1) that(1)] that(2) by (cases "rr_data x") (auto simp: typed_record_def denialRecord_def)
    ultimately show ?thesis by (auto simp: set_of_def)
  qed
  show ?thesis unfolding carries_def list_all_iff
  proof (intro conjI ballI)
    show "set (extra @ filter denialRecord (allRecords z)) \<subseteq> set (allRecords z)" using assms(2) by auto
    fix r assume "r \<in> set (extra @ filter denialRecord (allRecords z))"
    then show "case rr_data r of RRSIG_RR sg \<Rightarrow> set (set_of L (allRecords z) (ownerName L (rr_name r)) (sg_typecovered sg))
        \<subseteq> set (extra @ filter denialRecord (allRecords z)) | _ \<Rightarrow> True"
      using assms(3) [of r] whole [of r] by (cases "rr_data r") auto
  qed
qed

lemma zoneSOA_plain:
  assumes "tidy_zone L z" and "zoneSOA L z = Some r"
  shows "r \<in> set (allRecords z)" "rr_data r \<noteq> RRSIG_RR sg"
proof -
  have f: "find is_soa_rr (zoneRecords z (zoneKey L z)) = Some r" using assms by (simp add: zoneSOA_def tidy_zone_def)
  then have "r \<in> set (zoneRecords z (zoneKey L z))" "is_soa_rr r" unfolding find_Some_iff by (metis nth_mem, metis)
  then show "r \<in> set (allRecords z)" "rr_data r \<noteq> RRSIG_RR sg"
    using zoneRecords_all by (auto simp: is_soa_rr_def)
qed

text \<open>The sections of a reply.\<close>

lemma zoneReply_tidy:
  assumes "dns_reply_ok L" and "tidy_zone L z" and "q_type q \<noteq> TypeANY \<or> fqdn L (to_lower (q_name q)) = zoneKey L z"
  obtains ans extra where "m_answer (zoneReply L f z m q) = map Some ans"
    and "m_ns (zoneReply L f z m q) = (if ans = [] then map Some (extra @ filter denialRecord (allRecords z)) else [])"
    and "set extra \<subseteq> set (allRecords z)" "\<And>r sg. r \<in> set extra \<Longrightarrow> rr_data r \<noteq> RRSIG_RR sg"
    and "if q_type q = TypeANY then set ans = set (allRecords z)
         else ans = filter (\<lambda>r. rr_type r = q_type q) (zoneRecords z (fqdn L (to_lower (q_name q))))"
proof -
  let ?n = "fqdn L (to_lower (q_name q))"
  let ?ans = "filter (typeMatches q) (zoneRecords z ?n)
      @ (if q_type q = TypeANY then filter (\<lambda>r. rr_name r \<noteq> zoneKey L z) (allRecords z) else [])"
  let ?extra = "case zoneSOA L z of None \<Rightarrow> [] | Some s \<Rightarrow> [s]"
  have nr: "\<not> z_recursive z" using assms(2) by (simp add: tidy_zone_def)
  have a: "m_answer (zoneReply L f z m q) = map Some ?ans"
    "m_ns (zoneReply L f z m q) = (if ?ans = [] then map Some (?extra @ filter denialRecord (allRecords z)) else [])"
    using assms(1) nr by (simp_all add: zoneReply_def Let_def no_wildcards [OF assms(2)])
  have e: "set ?extra \<subseteq> set (allRecords z)" "\<And>r sg. r \<in> set ?extra \<Longrightarrow> rr_data r \<noteq> RRSIG_RR sg"
    using zoneSOA_plain [OF assms(2)] by (auto split: option.splits)
  have t: "if q_type q = TypeANY then set ?ans = set (allRecords z)
      else ?ans = filter (\<lambda>r. rr_type r = q_type q) (zoneRecords z ?n)"
  proof (cases "q_type q = TypeANY")
    case True
    then have "?n = zoneKey L z" using assms(3) by simp
    with True show ?thesis
      using zoneRecords_all [of z ?n] tidy_record(4) [OF assms(2)] by (auto simp: typeMatches_def) metis
  next
    case False
    then have "typeMatches q = (\<lambda>r. rr_type r = q_type q)" by (simp add: fun_eq_iff typeMatches_def)
    with False show ?thesis by simp
  qed
  show ?thesis by (rule that [OF a e t])
qed

lemma zoneReply_good:
  assumes "dns_reply_ok L" and "tidy_zone L z" and "q_type q \<noteq> TypeANY \<or> fqdn L (to_lower (q_name q)) = zoneKey L z"
    and "q_type q \<noteq> TypeRRSIG"
  shows "good L (allRecords z) (zoneReply L f z m q)"
proof (rule zoneReply_tidy [OF assms(1-3), of f m])
  fix ans extra
  assume a: "m_answer (zoneReply L f z m q) = map Some ans"
      "m_ns (zoneReply L f z m q) = (if ans = [] then map Some (extra @ filter denialRecord (allRecords z)) else [])"
    and e: "set extra \<subseteq> set (allRecords z)" "\<And>r sg. r \<in> set extra \<Longrightarrow> rr_data r \<noteq> RRSIG_RR sg"
    and t: "if q_type q = TypeANY then set ans = set (allRecords z)
         else ans = filter (\<lambda>r. rr_type r = q_type q) (zoneRecords z (fqdn L (to_lower (q_name q))))"
  have "carries L (allRecords z) ans"
  proof (cases "q_type q = TypeANY")
    case True
    then show ?thesis using t by (intro carries_all) simp
  next
    case False
    then have ans: "ans = filter (\<lambda>r. rr_type r = q_type q) (zoneRecords z (fqdn L (to_lower (q_name q))))" using t by simp
    show ?thesis
    proof (rule carries_no_sig)
      show sub: "set ans \<subseteq> set (allRecords z)" using zoneRecords_all [of z] by (auto simp: ans)
      show "rr_data r \<noteq> RRSIG_RR sg" if "r \<in> set ans" for r sg
        using that sub tidy_record(3) [OF assms(2), of r] assms(4) by (intro typed_sig) (auto simp: ans)
    qed
  qed
  then show ?thesis using a carries_denial [OF assms(2) e] by (cases "ans = []") (simp_all add: good_def)
qed

text \<open>A server with that zone alone.\<close>

definition serves_zone :: "dnslib \<Rightarrow> zone \<Rightarrow> fake \<Rightarrow> bool" where
  "serves_zone L z f \<longleftrightarrow> fk_zones f = [(zoneKey L z, z)]"

lemma findZone_serves:
  "serves_zone L z f \<Longrightarrow> findZone L f n = (if inZoneName n (zoneKey L z) then Some z else None)"
  by (simp add: serves_zone_def findZone_def)

lemma serves_record [simp]: "serves_zone L z (recordQuery q f) = serves_zone L z f"
  by (simp add: serves_zone_def recordQuery_def)

lemma fakeQuery_serves:
  assumes "serves_zone L z f" and "m_question m = [q]"
  shows "fakeQuery L (Some m) f =
    (Inr (if inZoneName (fqdn L (to_lower (q_name q))) (zoneKey L z) then zoneReply L (recordQuery q f) z m q
          else setRcode L m RcodeNameError), recordQuery q f)"
  using assms by (simp add: fakeQuery_def Let_def findZone_serves)

text \<open>One query of a run: it is answered, the answer carries the zone, and the server keeps it.\<close>

lemma runQuery_good:
  assumes L: "dns_names_ok L" "dns_reply_ok L" and z: "tidy_zone L z" and s: "serves_zone L z (rn_res s)"
    and t: "t \<noteq> TypeRRSIG" "t \<noteq> TypeANY \<or> ownerName L n = zoneKey L z"
  obtains r s' where "runQuery (fakeResolver L) opt (safeNewMsg L n t) s = (Inr r, s')"
    and "good L (allRecords z) r" "serves_zone L z (rn_res s')"
    and "ownerName L n = zoneKey L z \<Longrightarrow> t \<noteq> TypeANY \<Longrightarrow>
      somes (m_answer r) = filter (\<lambda>r. rr_type r = t) (zoneRecords z (zoneKey L z))"
    and "ownerName L n = zoneKey L z \<Longrightarrow> t = TypeANY \<Longrightarrow> set (somes (m_answer r)) = set (allRecords z)"
proof -
  let ?q = "\<lparr>q_name = fqdn L n, q_type = t\<rparr>"
  let ?m = "(safeNewMsg L n t)\<lparr>m_edns := Some (1232, True)\<rparr>"
  have name: "fqdn L (to_lower (q_name ?q)) = ownerName L n" using L(1) by (simp add: ownerName_def fqdn_to_lower)
  have cond: "q_type ?q \<noteq> TypeANY \<or> fqdn L (to_lower (q_name ?q)) = zoneKey L z" using t(2) unfolding name by simp
  have e: "m_edns (safeNewMsg L n t) = None" "m_question ?m = [?q]" by (simp_all add: safeNewMsg_def new_msg_def)
  let ?r = "if inZoneName (ownerName L n) (zoneKey L z) then zoneReply L (recordQuery ?q (rn_res s)) z ?m ?q
      else setRcode L ?m RcodeNameError"
  have run: "runQuery (fakeResolver L) opt (safeNewMsg L n t) s
      = (Inr ?r, \<lparr>rn_queries = rn_queries s + 1, rn_res = recordQuery ?q (rn_res s)\<rparr>)"
    using fakeQuery_serves [OF s e(2)] e(1) unfolding name by (simp add: runQuery_def fakeResolver_def)
  have g: "good L (allRecords z) ?r"
    using zoneReply_good [OF L(2) z cond] t(1) L(2) by (simp add: good_def)
  have apex: "inZoneName (ownerName L n) (zoneKey L z)" if "ownerName L n = zoneKey L z"
    using that by (simp add: inZoneName_def)
  obtain ans where ans: "m_answer (zoneReply L (recordQuery ?q (rn_res s)) z ?m ?q) = map Some ans"
    "if q_type ?q = TypeANY then set ans = set (allRecords z)
         else ans = filter (\<lambda>r. rr_type r = q_type ?q) (zoneRecords z (fqdn L (to_lower (q_name ?q))))"
    using zoneReply_tidy [OF L(2) z cond] by metis
  show ?thesis
  proof (rule that [OF run g])
    show "serves_zone L z (rn_res \<lparr>rn_queries = rn_queries s + 1, rn_res = recordQuery ?q (rn_res s)\<rparr>)" using s by simp
  qed (use ans apex name in auto)
qed

section \<open>What a run gathers\<close>

lemma askAll_good:
  assumes L: "dns_names_ok L" "dns_reply_ok L" and z: "tidy_zone L z" and s: "serves_zone L z (rn_res s)"
    and t: "\<forall>t \<in> snd ` set qs. t \<noteq> TypeRRSIG \<and> t \<noteq> TypeANY"
  shows "(\<forall>m \<in> snd ` set (fst (askAll L (fakeResolver L) opt qs s)). good L (allRecords z) m) \<and>
    serves_zone L z (rn_res (snd (askAll L (fakeResolver L) opt qs s)))"
  using s t
proof (induction qs arbitrary: s)
  case (Cons q qs)
  obtain n t where q: "q = (n, t)" by fastforce
  have "t \<noteq> TypeRRSIG" "t \<noteq> TypeANY \<or> ownerName L n = zoneKey L z" using Cons.prems(2) q by auto
  then obtain r s' where r: "runQuery (fakeResolver L) opt (safeNewMsg L n t) s = (Inr r, s')"
    and g: "good L (allRecords z) r" "serves_zone L z (rn_res s')"
    using runQuery_good [OF L z Cons.prems(1), of t n opt] by metis
  have "\<forall>t \<in> snd ` set qs. t \<noteq> TypeRRSIG \<and> t \<noteq> TypeANY" using Cons.prems(2) by simp
  from Cons.IH [OF g(2) this] g(1) show ?case
    unfolding q by (simp add: askAll.simps(2) r split_beta Let_def)
qed simp

lemma good_sub: "good L recs m \<Longrightarrow> set (somes (m_answer m)) \<union> set (somes (m_ns m)) \<subseteq> set recs"
  by (auto simp: good_def carries_def)

lemma collectApex_good:
  assumes L: "dns_names_ok L" "dns_reply_ok L" and z: "tidy_zone L z" and s: "serves_zone L z (rn_res s)"
    and m: "set (msg_rrs m) \<subseteq> set (allRecords z)"
    and c_def: "c = collectApexRecords L (fakeResolver L) opt zone m s"
  shows "set (somes (fst c)) \<subseteq> set (allRecords z)" "\<And>u. u \<in> set (fst (snd c)) \<Longrightarrow> good L (allRecords z) u"
    "serves_zone L z (rn_res (snd (snd c)))"
proof -
  let ?q1 = "map (\<lambda>t. (zone, t)) apexTypes"
  let ?q2 = "concat (map (\<lambda>n. [(n, TypeA), (n, TypeAAAA)]) (nsHosts L (m_answer m)))"
  define r1 where "r1 = askAll L (fakeResolver L) opt ?q1 s"
  define r2 where "r2 = askAll L (fakeResolver L) opt ?q2 (snd r1)"
  have t1: "\<forall>t \<in> snd ` set ?q1. t \<noteq> TypeRRSIG \<and> t \<noteq> TypeANY" by (simp add: apexTypes_def type_defs)
  have t2: "\<forall>t \<in> snd ` set ?q2. t \<noteq> TypeRRSIG \<and> t \<noteq> TypeANY" by (auto simp: type_defs)
  have g1: "\<forall>m \<in> snd ` set (fst r1). good L (allRecords z) m" "serves_zone L z (rn_res (snd r1))"
    using askAll_good [OF L z s t1] unfolding r1_def by blast+
  have g2: "\<forall>m \<in> snd ` set (fst r2). good L (allRecords z) m" "serves_zone L z (rn_res (snd r2))"
    using askAll_good [OF L z g1(2) t2] unfolding r2_def by blast+
  have c: "c = (m_answer m @ m_ns m @ concat (map (\<lambda>(_, m). m_answer m @ m_ns m) (fst r1))
      @ concat (map (\<lambda>(_, m). m_answer m) (fst r2)), map snd (fst r1) @ map snd (fst r2), snd r2)"
    by (simp add: c_def collectApexRecords_def Let_def split_beta r1_def r2_def)
  show "serves_zone L z (rn_res (snd (snd c)))" using g2(2) by (simp add: c)
  show "good L (allRecords z) u" if "u \<in> set (fst (snd c))" for u using that g1(1) g2(1) by (auto simp: c)
  have "set (somes (m_answer u)) \<union> set (somes (m_ns u)) \<subseteq> set (allRecords z)"
    if "(t, u) \<in> set (fst r1) \<union> set (fst r2)" for t u
    using that g1(1) g2(1) good_sub by (metis (no_types, lifting) UnE image_eqI snd_conv)
  then show "set (somes (fst c)) \<subseteq> set (allRecords z)"
    using m by (fastforce simp: c somes_concat)
qed

text \<open>Adding records to the union keeps it within the zone.\<close>

abbreviation union_rrs :: "dnssec_data \<Rightarrow> rr list" where
  "union_rrs d \<equiv> somes (dd_answer d @ dd_ns d)"

lemma addAnswer_sub: "set (union_rrs (addAnswer L x d)) \<subseteq> set (union_rrs d) \<union> set_option x"
  by (cases x) (auto simp: addAnswer_def)

lemma addNs_sub: "set (union_rrs (addNs L x d)) \<subseteq> set (union_rrs d) \<union> set_option x"
  by (cases x) (auto simp: addNs_def)

lemma fold_add_sub:
  assumes "\<And>x d. set (union_rrs (f x d)) \<subseteq> set (union_rrs d) \<union> set_option x"
  shows "set (union_rrs (fold f xs d)) \<subseteq> set (union_rrs d) \<union> set (somes xs)"
proof (induction xs arbitrary: d)
  case (Cons x xs)
  have "set (somes (x # xs)) = set_option x \<union> set (somes xs)" by (cases x) auto
  then show ?case using Cons [of "f x d"] assms [of x d] by (simp only: fold_Cons_rev fold_simps) blast
qed simp

lemma addMsg_sub: "set (union_rrs (addMsg L m d)) \<subseteq> set (union_rrs d) \<union> set (msg_rrs m)"
  using fold_add_sub [of "addNs L" "m_ns m" "fold (addAnswer L) (m_answer m) d", OF addNs_sub]
    fold_add_sub [of "addAnswer L" "m_answer m" d, OF addAnswer_sub]
  by (auto simp: addMsg_def)

lemma addAnswer_fields [simp]:
  "dd_units (addAnswer L x d) = dd_units d" "dd_keys (addAnswer L x d) = dd_keys d" "dd_ds (addAnswer L x d) = dd_ds d"
  by (simp_all add: addAnswer_def split: option.split)

lemma addNs_fields [simp]:
  "dd_units (addNs L x d) = dd_units d" "dd_keys (addNs L x d) = dd_keys d" "dd_ds (addNs L x d) = dd_ds d"
  by (simp_all add: addNs_def split: option.split)

lemma fold_field: "(\<And>x d. g (f x d) = g d) \<Longrightarrow> g (fold f xs d) = g d"
  by (induction xs arbitrary: d) auto

lemma addMsg_fields [simp]:
  "dd_units (addMsg L m d) = dd_units d" "dd_keys (addMsg L m d) = dd_keys d" "dd_ds (addMsg L m d) = dd_ds d"
  by (simp_all add: addMsg_def fold_field [of dd_units] fold_field [of dd_keys] fold_field [of dd_ds])

lemma addUnit_fields [simp]:
  "dd_units (addUnit L m d) = dd_units d @ [m]" "dd_keys (addUnit L m d) = dd_keys d" "dd_ds (addUnit L m d) = dd_ds d"
  by (simp_all add: addUnit_def)

lemma addUnit_sub: "set (union_rrs (addUnit L m d)) \<subseteq> set (union_rrs d) \<union> set (msg_rrs m)"
  using addMsg_sub [of L m "d\<lparr>dd_units := dd_units d @ [m]\<rparr>"] by (simp add: addUnit_def)

lemma addTyped_fields [simp]:
  "dd_units (addTyped L (t, m) d) = dd_units d @ [m]"
  "dd_keys (addTyped L (t, m) d) = (if t = TypeDNSKEY then dd_keys d @ m_answer m else dd_keys d)"
  "m_answer (dd_ds (addTyped L (t, m) d)) = (if t = TypeDNSKEY then m_answer (dd_ds d) else m_answer (dd_ds d) @ m_answer m)"
  "m_ns (dd_ds (addTyped L (t, m) d)) = (if t = TypeDNSKEY then m_ns (dd_ds d) else m_ns (dd_ds d) @ m_ns m)"
  "dd_answer (addTyped L (t, m) d) = dd_answer (addUnit L m d)" "dd_ns (addTyped L (t, m) d) = dd_ns (addUnit L m d)"
  by (simp_all add: addTyped_def Let_def)

text \<open>Records that the union cannot tell apart have one type.\<close>

lemma recordKey_type:
  assumes "tidy_zone L z" and "x \<in> set (allRecords z)" "y \<in> set (allRecords z)" and "recordKey L x = recordKey L y"
  shows "rr_type x = rr_type y"
proof -
  have n: "fqdn L (to_lower (rr_name r)) = rr_name r" "CHR ''|'' \<notin> set (rr_name r)" if "r \<in> set (allRecords z)" for r
    using tidy_record(1,2) [OF assms(1) that] by (simp_all add: ownerName_def)
  have t: "CHR ''|'' \<notin> set (word_str (w :: u16))" for w
    using nat_str_digits [of "CHR ''|''" "unat w"] by (auto simp: word_str_def)
  have "rr_name x @ CHR ''|'' # word_str (rr_type x) @ CHR ''|'' # rrKey L x
      = rr_name y @ CHR ''|'' # word_str (rr_type y) @ CHR ''|'' # rrKey L y"
    using assms(4) n(1) [OF assms(2)] n(1) [OF assms(3)] by (simp add: recordKey_def)
  from split_first [OF this n(2) [OF assms(2)] n(2) [OF assms(3)]]
  have "word_str (rr_type x) @ CHR ''|'' # rrKey L x = word_str (rr_type y) @ CHR ''|'' # rrKey L y" by blast
  from split_first [OF this t t] show ?thesis by simp
qed

lemma unit_good:
  assumes "good L recs u" and "carries L recs (somes (dd_keys d))"
  shows "carries L recs (msg_rrs (unit_msg d u))"
proof (rule carries_union)
  show "carries L recs (msg_rrs u)" using assms(1) by (simp add: good_def)
  show "carries L recs (somes (dd_keys d))" by (rule assms(2))
qed auto

lemma addUnit_within:
  "set (union_rrs d) \<subseteq> set recs \<Longrightarrow> good L recs m \<Longrightarrow> set (union_rrs (addUnit L m d)) \<subseteq> set recs"
  by (rule order.trans [OF addUnit_sub]) (simp add: good_def carries_def)

lemma addTyped_within:
  "set (union_rrs d) \<subseteq> set recs \<Longrightarrow> good L recs m \<Longrightarrow> set (union_rrs (addTyped L (t, m) d)) \<subseteq> set recs"
  using addUnit_within [of d recs L m] by simp

lemma collectDNSSEC_shape:
  assumes L: "dns_names_ok (e_lib E)" "dns_reply_ok (e_lib E)" and z: "tidy_zone (e_lib E) z"
    and s: "serves_zone (e_lib E) z (rn_res s)" and apex: "ownerName (e_lib E) zone = zoneKey (e_lib E) z"
    and m: "good (e_lib E) (allRecords z) m" and recs: "set (somes recs) \<subseteq> set (allRecords z)"
    and us: "\<And>u. u \<in> set us \<Longrightarrow> good (e_lib E) (allRecords z) u"
    and d_def: "d = fst (collectDNSSEC E (fakeResolver (e_lib E)) opt zone m recs us s)"
  obtains mk md us' where "dd_units d = m # us @ [mk, md] @ us'" "\<And>u. u \<in> set (dd_units d) \<Longrightarrow> good (e_lib E) (allRecords z) u"
    "dd_keys d = m_answer mk" "m_answer (dd_ds d) = m_answer md" "m_ns (dd_ds d) = m_ns md"
    "set (union_rrs d) \<subseteq> set (allRecords z)"
    "somes (m_answer mk) = filter (\<lambda>r. rr_type r = TypeDNSKEY) (zoneRecords z (zoneKey (e_lib E) z))"
    "somes (m_answer md) = filter (\<lambda>r. rr_type r = TypeDS) (zoneRecords z (zoneKey (e_lib E) z))"
proof -
  let ?L = "e_lib E" and ?R = "fakeResolver (e_lib E)"
  obtain mk s1 where mk: "runQuery ?R opt (safeNewMsg ?L zone TypeDNSKEY) s = (Inr mk, s1)" "good ?L (allRecords z) mk"
      "serves_zone ?L z (rn_res s1)"
      "somes (m_answer mk) = filter (\<lambda>r. rr_type r = TypeDNSKEY) (zoneRecords z (zoneKey ?L z))"
    by (rule runQuery_good [OF L z s, of TypeDNSKEY zone opt]) (use apex in \<open>auto simp: type_defs\<close>)
  obtain md s2 where md: "runQuery ?R opt (safeNewMsg ?L zone TypeDS) s1 = (Inr md, s2)" "good ?L (allRecords z) md"
      "serves_zone ?L z (rn_res s2)"
      "somes (m_answer md) = filter (\<lambda>r. rr_type r = TypeDS) (zoneRecords z (zoneKey ?L z))"
    by (rule runQuery_good [OF L z mk(3), of TypeDS zone opt]) (use apex in \<open>auto simp: type_defs\<close>)
  define d0 where "d0 = \<lparr>dd_units = m # us, dd_keys = [], dd_seen = [], dd_answer = [], dd_ns = [], dd_ds = new_msg\<rparr>"
  define d1 where "d1 = fold (addAnswer ?L) recs (addMsg ?L m d0)"
  define d2 where "d2 = addTyped ?L (TypeDS, md) (addTyped ?L (TypeDNSKEY, mk) d1)"
  have ask: "askAll ?L ?R opt [(zone, TypeDNSKEY), (zone, TypeDS)] s = ([(TypeDNSKEY, mk), (TypeDS, md)], s2)"
    by (simp add: askAll.simps(2) mk(1) md(1))
  obtain us' where d: "d = fold (addUnit ?L) us' d2" and us': "\<And>u. u \<in> set us' \<Longrightarrow> good ?L (allRecords z) u"
  proof (cases "probeName (e_probe1 E) zone")
    case None
    then have "d = d2" by (simp add: d_def collectDNSSEC_def Let_def ask d0_def d1_def d2_def)
    then show ?thesis using that [of "[]"] by simp
  next
    case (Some n)
    obtain mp s3 where mp: "runQuery ?R opt (safeNewMsg ?L n TypeA) s2 = (Inr mp, s3)" "good ?L (allRecords z) mp"
      by (rule runQuery_good [OF L z md(3), of TypeA n opt]) (auto simp: type_defs)
    have "d = addUnit ?L mp d2" by (simp add: d_def collectDNSSEC_def Let_def ask d0_def d1_def d2_def Some mp(1))
    then show ?thesis using that [of "[mp]"] mp(2) by simp
  qed
  have f1: "dd_units d1 = m # us" "dd_keys d1 = []" "dd_ds d1 = new_msg"
    by (simp_all add: d1_def d0_def fold_field [of dd_units] fold_field [of dd_keys] fold_field [of dd_ds])
  have f2: "dd_units d2 = m # us @ [mk, md]" "dd_keys d2 = m_answer mk" "m_answer (dd_ds d2) = m_answer md" "m_ns (dd_ds d2) = m_ns md"
    by (simp_all add: d2_def f1 type_defs new_msg_def)
  have fold_units: "dd_units (fold (addUnit ?L) us' x) = dd_units x @ us'" "dd_keys (fold (addUnit ?L) us' x) = dd_keys x"
    "dd_ds (fold (addUnit ?L) us' x) = dd_ds x" for x
    by (induction us' arbitrary: x) simp_all
  note sub = good_sub [of ?L "allRecords z"]
  have "set (union_rrs d0) = {}" by (simp add: d0_def)
  moreover have "set (msg_rrs m) \<subseteq> set (allRecords z)" using sub [OF m] by simp
  ultimately have u0: "set (union_rrs (addMsg ?L m d0)) \<subseteq> set (allRecords z)"
    by (intro order.trans [OF addMsg_sub]) (simp only: Un_empty_left)
  have u1: "set (union_rrs d1) \<subseteq> set (allRecords z)"
    unfolding d1_def by (intro order.trans [OF fold_add_sub [OF addAnswer_sub]] Un_least u0 recs)
  have u2: "set (union_rrs d2) \<subseteq> set (allRecords z)"
    unfolding d2_def by (intro addTyped_within u1 mk(2) md(2))
  have u3: "set (union_rrs (fold (addUnit ?L) us' x)) \<subseteq> set (allRecords z)" if "set (union_rrs x) \<subseteq> set (allRecords z)" for x
    using that us'
  proof (induction us' arbitrary: x)
    case (Cons u us')
    have "set (union_rrs (addUnit ?L u x)) \<subseteq> set (allRecords z)"
      using Cons.prems(2) by (intro addUnit_within [OF Cons.prems(1)]) simp
    from Cons.IH [OF this] Cons.prems(2) show ?case by simp
  qed simp
  show ?thesis
  proof (rule that)
    show "dd_units d = m # us @ [mk, md] @ us'" by (simp add: d fold_units f2)
    then show "good ?L (allRecords z) u" if "u \<in> set (dd_units d)" for u
      using that m us mk(2) md(2) us' by auto
    show "dd_keys d = m_answer mk" "m_answer (dd_ds d) = m_answer md" "m_ns (dd_ds d) = m_ns md"
      by (simp_all add: d fold_units f2)
    show "set (union_rrs d) \<subseteq> set (allRecords z)" unfolding d by (rule u3 [OF u2])
  qed (rule mk(4), rule md(4))
qed

lemma apex_record:
  assumes "tidy_zone L z" and "r \<in> set (zoneRecords z (zoneKey L z))"
  shows "r \<in> set (allRecords z)" "rr_name r = zoneKey L z" "typed_record r"
proof -
  show r: "r \<in> set (allRecords z)" using assms(2) zoneRecords_all by blast
  obtain rs where "(zoneKey L z, rs) \<in> set (z_records z)" "r \<in> set rs"
    using slot_nonempty [OF assms(2) [unfolded zoneRecords_def]] by blast
  from tidyD(2) [OF assms(1) this] show "rr_name r = zoneKey L z" "typed_record r" by simp_all
qed

lemma collectDNSSEC_gathered:
  assumes L: "dns_names_ok (e_lib E)" "dns_reply_ok (e_lib E)" and z: "tidy_zone (e_lib E) z" "signed_apex (e_lib E) z"
    and s: "serves_zone (e_lib E) z (rn_res s)" and apex: "ownerName (e_lib E) zone = zoneKey (e_lib E) z"
    and m: "good (e_lib E) (allRecords z) m" "set (allRecords z) \<subseteq> set (somes (m_answer m))"
    and recs: "set (somes recs) \<subseteq> set (allRecords z)" and us: "\<And>u. u \<in> set us \<Longrightarrow> good (e_lib E) (allRecords z) u"
  shows "gathered (e_lib E) zone (allRecords z) (fst (collectDNSSEC E (fakeResolver (e_lib E)) opt zone m recs us s))"
    and "x \<in> set (allRecords z) \<Longrightarrow>
      \<exists>y \<in> set (union_rrs (fst (collectDNSSEC E (fakeResolver (e_lib E)) opt zone m recs us s))). rr_type y = rr_type x"
proof -
  let ?L = "e_lib E"
  define d where "d = fst (collectDNSSEC E (fakeResolver ?L) opt zone m recs us s)"
  obtain mk md us' where d: "dd_units d = m # us @ [mk, md] @ us'" "\<And>u. u \<in> set (dd_units d) \<Longrightarrow> good ?L (allRecords z) u"
    "dd_keys d = m_answer mk" "m_answer (dd_ds d) = m_answer md" "m_ns (dd_ds d) = m_ns md"
    "set (union_rrs d) \<subseteq> set (allRecords z)"
    "somes (m_answer mk) = filter (\<lambda>r. rr_type r = TypeDNSKEY) (zoneRecords z (zoneKey ?L z))"
    "somes (m_answer md) = filter (\<lambda>r. rr_type r = TypeDS) (zoneRecords z (zoneKey ?L z))"
    using collectDNSSEC_shape [OF L z(1) s apex m(1) recs us d_def] by metis
  obtain rk dk where rk: "rk \<in> set (zoneRecords z (zoneKey ?L z))" "rr_data rk = DNSKEY_RR dk"
    using z(2) unfolding signed_apex_def list_ex_iff case_record by blast
  obtain rd de where rd: "rd \<in> set (zoneRecords z (zoneKey ?L z))" "rr_data rd = DS_RR de"
    using z(2) unfolding signed_apex_def list_ex_iff case_record by blast
  obtain rs sg where rs: "rs \<in> set (zoneRecords z (zoneKey ?L z))" "rr_data rs = RRSIG_RR sg" "sg_typecovered sg \<noteq> TypeDS"
    using z(2) unfolding signed_apex_def list_ex_iff case_record by blast
  note kr = apex_record [OF z(1) rk(1)] and dr = apex_record [OF z(1) rd(1)] and sr = apex_record [OF z(1) rs(1)]
  have kt: "rr_type rk = TypeDNSKEY" and dt: "rr_type rd = TypeDS" and st: "rr_type rs = TypeRRSIG"
    using kr(3) dr(3) sr(3) rk(2) rd(2) rs(2) by (simp_all add: typed_record_def)
  have seen: "\<exists>y \<in> set (union_rrs d). rr_type y = rr_type x" if x: "x \<in> set (allRecords z)" for x
  proof -
    have "recordKey ?L x \<in> recordKey ?L ` set (somes (m_answer m @ m_ns m @ recs))" using m(2) x by auto
    then have "recordKey ?L x \<in> recordKey ?L ` (set (somes (dd_answer d)) \<union> set (somes (dd_ns d)))"
      using conjunct2 [OF collectDNSSEC_represents [of E "fakeResolver ?L" opt zone m recs us s]] unfolding d_def by blast
    then obtain y where "y \<in> set (union_rrs d)" "recordKey ?L x = recordKey ?L y" by auto
    then show ?thesis using recordKey_type [OF z(1) x, of y] d(6) by (metis subsetD)
  qed
  then show "x \<in> set (allRecords z) \<Longrightarrow>
      \<exists>y \<in> set (union_rrs (fst (collectDNSSEC E (fakeResolver (e_lib E)) opt zone m recs us s))). rr_type y = rr_type x"
    unfolding d_def by blast
  have typed: "typed_record y" if "y \<in> set (union_rrs d)" for y
    using tidy_record(3) [OF z(1)] d(6) that by blast
  have "\<exists>y \<in> set (union_rrs d). \<exists>e. rr_data y = DNSKEY_RR e"
    using seen [OF kr(1)] typed unfolding kt typed_record_def case_dnskey by metis
  moreover have "\<exists>y \<in> set (union_rrs d). \<exists>e. rr_data y = RRSIG_RR e"
    using seen [OF sr(1)] typed unfolding st typed_record_def case_rrsig by metis
  moreover have "rd \<in> set (msg_rrs (dd_ds d))" using rd(1) dt by (simp add: d(4,5,8))
  moreover have "carries ?L (allRecords z) (msg_rrs (unit_msg d u))" if "u \<in> set (dd_units d)" for u
  proof (rule unit_good [OF d(2) [OF that]])
    have "good ?L (allRecords z) mk" using d(1) d(2) [of mk] by simp
    then show "carries ?L (allRecords z) (somes (dd_keys d))" by (simp add: d(3) good_def)
  qed
  moreover have "set (msg_rrs (dd_ds d)) \<subseteq> set (allRecords z)"
    using d(1) d(2) [of md] by (simp add: d(4,5) good_def carries_def)
  moreover have "rk \<in> set (msg_rrs (unit_msg d m))" "rs \<in> set (msg_rrs (unit_msg d m))" "m \<in> set (dd_units d)"
    using m(2) kr(1) sr(1) by (auto simp: d(1))
  moreover have "inZoneName (ownerName ?L (rr_name rs)) (ownerName ?L zone)"
    using sr(2) tidy_record(1) [OF z(1) sr(1)] by (simp add: apex inZoneName_def)
  ultimately show "gathered ?L zone (allRecords z) (fst (collectDNSSEC E (fakeResolver ?L) opt zone m recs us s))"
    unfolding gathered_def d_def [symmetric] list_all_iff list_ex_iff case_record
    using d(6) rk(2) rd(2) rs(2,3) by blast
qed

section \<open>The whole run\<close>

lemma withAny_good:
  assumes "good L recs a" and "good L recs b"
  shows "good L recs (withAny a (Inr b))"
proof -
  have "carries L recs (msg_rrs (withAny a (Inr b)))"
    by (rule carries_union [of L recs "msg_rrs a" "msg_rrs b"]) (use assms in \<open>auto simp: good_def withAny_def\<close>)
  moreover have "carries L recs (somes (m_answer (withAny a (Inr b))))"
    by (rule carries_union [of L recs "somes (m_answer a)" "somes (m_answer b)"])
      (use assms in \<open>auto simp: good_def withAny_def\<close>)
  ultimately show ?thesis by (simp add: good_def)
qed

text \<open>A step that talks to the server leaves its zones.\<close>

lemma serves_logged: "logged s t \<Longrightarrow> serves_zone L z (rn_res s) \<Longrightarrow> serves_zone L z (rn_res t)"
  by (simp add: logged_def serves_zone_def)

text \<open>The first response of a run is among those that are verified.\<close>

lemma initial_unit: "m \<in> set (dd_units (fst (collectDNSSEC E R opt zone m recs us s)))"
proof -
  have typed: "m \<in> set (dd_units (fold (addTyped L) xs d))" if "m \<in> set (dd_units d)" for L xs and d :: dnssec_data
    using that by (induction xs arbitrary: d) auto
  show ?thesis
    by (auto simp: collectDNSSEC_def Let_def split_beta typed fold_field [of dd_units] split: option.split prod.split sum.split)
qed

text \<open>What the DNSSEC step of a run on such a server works on, and what the other steps report.\<close>

lemma run_gathers:
  assumes L: "dns_names_ok (e_lib E)" "dns_reply_ok (e_lib E)" and z: "tidy_zone (e_lib E) z" "signed_apex (e_lib E) z"
    and s: "serves_zone (e_lib E) z (rn_res s)" and apex: "ownerName (e_lib E) zone = zoneKey (e_lib E) z"
  obtains dd others where "gathered (e_lib E) zone (allRecords z) dd"
    "f_id ` set (ar_findings (fst (run E (fakeResolver (e_lib E)) opt zone s))) = f_id ` (set (dnssecStep E zone dd) \<union> others)"
    "\<And>f. f \<in> others \<Longrightarrow> area (f_id f) \<noteq> ''DNS-DNS''"
    "\<exists>u \<in> set (dd_units dd). set (allRecords z) \<subseteq> set (msg_rrs (unit_msg dd u))"
    "\<And>x. x \<in> set (allRecords z) \<Longrightarrow> \<exists>y \<in> set (union_rrs dd). rr_type y = rr_type x"
proof -
  let ?L = "e_lib E" and ?R = "fakeResolver (e_lib E)" and ?recs = "allRecords z"
  obtain m0 s1 where q1: "runQuery ?R opt (safeNewMsg ?L zone TypeNS) s = (Inr m0, s1)" "good ?L ?recs m0" "serves_zone ?L z (rn_res s1)"
    by (rule runQuery_good [OF L z(1) s, of TypeNS zone opt]) (auto simp: type_defs)
  obtain ma s2 where q2: "runQuery ?R opt (safeNewMsg ?L zone TypeANY) s1 = (Inr ma, s2)" "good ?L ?recs ma"
      "serves_zone ?L z (rn_res s2)" "set (somes (m_answer ma)) = set ?recs"
    by (rule runQuery_good [OF L z(1) q1(3), of TypeANY zone opt]) (use apex in \<open>auto simp: type_defs\<close>)
  define resp where "resp = withAny m0 (Inr ma)"
  have resp: "good ?L ?recs resp" "set ?recs \<subseteq> set (somes (m_answer resp))"
    using withAny_good [OF q1(2) q2(2)] q2(4) by (simp_all add: resp_def withAny_def)
  have sub: "set (msg_rrs resp) \<subseteq> set ?recs" using resp(1) by (simp add: good_def carries_def)
  define view where "view = extractNSFromResponse ?L resp zone"
  define c where "c = collectApexRecords ?L ?R opt zone resp s2"
  obtain s5 s6 s7 s8 probed where st: "logged s2 s5" "logged s2 s6" "logged s2 s7" "logged s2 s8"
    and probed: "\<And>f. f \<in> probed \<Longrightarrow> area (f_id f) = ''DNS-AUT''"
    and all: "set (ar_findings (fst (run E ?R opt zone s))) = (\<lambda>f. f\<lparr>f_zone := zone\<rparr>) `
       (set (fst (delegationStep E ?R opt zone view (snd (snd c)))) \<union> probed \<union> set (recordChecks E opt zone resp (fst c))
        \<union> set (dnssecStep E zone (fst (collectDNSSEC E ?R opt zone resp (fst c) (fst (snd c)) s5)))
        \<union> (if opt_active opt then set (fst (axfrLoop E ?R opt zone (pv_ns view) s6)) else {})
        \<union> set (fst (wildcardStep E ?R opt zone s7))
        \<union> (if opt_active opt then set (fst (recursionLoop E ?R opt zone 0 (pv_ns view) s8)) else {}))"
    by (rule fake_run.run_steps [OF q1(1) q2(1), folded resp_def, folded view_def c_def]) (rule that)
  define dd where "dd = fst (collectDNSSEC E ?R opt zone resp (fst c) (fst (snd c)) s5)"
  define others where "others = set (fst (delegationStep E ?R opt zone view (snd (snd c)))) \<union> probed
    \<union> set (recordChecks E opt zone resp (fst c))
    \<union> (if opt_active opt then set (fst (axfrLoop E ?R opt zone (pv_ns view) s6)) else {})
    \<union> set (fst (wildcardStep E ?R opt zone s7))
    \<union> (if opt_active opt then set (fst (recursionLoop E ?R opt zone 0 (pv_ns view) s8)) else {})"
  note apexG = collectApex_good [OF L z(1) q2(3) _ c_def]
  have "f_id ` set (ar_findings (fst (run E ?R opt zone s))) = f_id ` (set (dnssecStep E zone dd) \<union> others)"
    unfolding all dd_def others_def by (simp add: image_Un image_image) blast
  moreover have "area (f_id f) \<noteq> ''DNS-DNS''" if "f \<in> others" for f
    using that unfolding others_def
    by (auto dest!: probed delegationStep_area wildcardStep_area recordChecks_area axfrLoop_area recursionLoop_area split: if_splits)
  moreover have "gathered ?L zone ?recs dd"
    unfolding dd_def
    by (rule collectDNSSEC_gathered(1) [OF L z serves_logged [OF st(1) q2(3)] apex resp apexG(1,2)]) (use sub in auto)
  moreover have "\<exists>y \<in> set (union_rrs dd). rr_type y = rr_type x" if "x \<in> set (allRecords z)" for x
    unfolding dd_def
    by (rule collectDNSSEC_gathered(2) [OF L z serves_logged [OF st(1) q2(3)] apex resp apexG(1,2)]) (use sub that in auto)
  moreover have "\<exists>u \<in> set (dd_units dd). set ?recs \<subseteq> set (msg_rrs (unit_msg dd u))"
    using resp(2) by (intro bexI [of _ resp]) (auto simp: dd_def initial_unit)
  ultimately show ?thesis using that by blast
qed

text \<open>
  C1. A run on the in-memory server that serves one zone, signed with one key as the test zones are.
  The zone is tidy: not recursive, without wildcards or an answer that replaces its SOA, every record under
  its canonical name, which has no vertical bar, and of the type of its data; its apex holds the
  key, its DS and a signature; and every signature is in its period. Whatever the
  options and the random probe names, the run reports the zone as valid and none of the failures
  DNSSECInvalidSig, DNSSECBrokenChain, DNSSECNoDS, DNSSECSignExpired, DNSSECSignNotYet,
  DNSSECNoDNSKEY, DNSSECNoRRSIG and DNSSECDeprecatedAlgo. It reports DNSSECNoNSEC exactly when
  the zone has neither an NSEC nor an NSEC3 record, and DNSSECMalformedNSEC3 only when one of its
  NSEC3 records has no iterations and no salt, or more than 10000 iterations.
\<close>

theorem run_signed_zone:
  assumes "dns_names_ok (e_lib E)" and "dns_reply_ok (e_lib E)" and "ed25519_pair (e_crypto E) sign k"
    and "tidy_zone (e_lib E) z" and "signed_apex (e_lib E) z" and "ownerName (e_lib E) zone = zoneKey (e_lib E) z"
    and "signed_by (e_lib E) (e_crypto E) sign k zone (e_now E) (allRecords z)"
    and "serves_zone (e_lib E) z (rn_res s)"
  shows "r_id DNSSECValid \<in> f_id ` set (ar_findings (fst (run E (fakeResolver (e_lib E)) opt zone s))) \<and>
    (\<forall>r \<in> {DNSSECInvalidSig, DNSSECBrokenChain, DNSSECNoDS, DNSSECSignExpired, DNSSECSignNotYet, DNSSECNoDNSKEY,
        DNSSECNoRRSIG, DNSSECDeprecatedAlgo}.
       r_id r \<notin> f_id ` set (ar_findings (fst (run E (fakeResolver (e_lib E)) opt zone s)))) \<and>
    (r_id DNSSECNoNSEC \<in> f_id ` set (ar_findings (fst (run E (fakeResolver (e_lib E)) opt zone s)))) =
      (\<not> (\<exists>r \<in> set (allRecords z). rr_type r = TypeNSEC \<or> rr_type r = TypeNSEC3)) \<and>
    (r_id DNSSECMalformedNSEC3 \<in> f_id ` set (ar_findings (fst (run E (fakeResolver (e_lib E)) opt zone s))) \<longrightarrow>
      (\<exists>r \<in> set (allRecords z). \<exists>n. rr_data r = NSEC3_RR n \<and>
         (n3_iterations n = 0 \<and> n3_saltlength n = 0 \<or> 10000 < n3_iterations n)))"
proof (rule run_gathers [OF assms(1,2,4,5,8,6), of opt])
  fix dd others
  assume g: "gathered (e_lib E) zone (allRecords z) dd"
    and ids: "f_id ` set (ar_findings (fst (run E (fakeResolver (e_lib E)) opt zone s))) = f_id ` (set (dnssecStep E zone dd) \<union> others)"
    and other: "\<And>f. f \<in> others \<Longrightarrow> area (f_id f) \<noteq> ''DNS-DNS''"
    and whole: "\<And>x. x \<in> set (allRecords z) \<Longrightarrow> \<exists>y \<in> set (union_rrs dd). rr_type y = rr_type x"
  have sub: "set (union_rrs dd) \<subseteq> set (allRecords z)" using g by (simp add: gathered_def)
  have typed: "typed_record r" if "r \<in> set (union_rrs dd)" for r using tidy_record(3) [OF assms(4)] sub that by blast
  have step: "i \<in> f_id ` (set (dnssecStep E zone dd) \<union> others) \<longleftrightarrow> i \<in> f_id ` set (dnssecStep E zone dd)"
    if "area i = ''DNS-DNS''" for i using other that by auto
  have areas: "area (r_id DNSSECNoNSEC) = ''DNS-DNS''" "area (r_id DNSSECMalformedNSEC3) = ''DNS-DNS''"
    "area (r_id DNSSECValid) = ''DNS-DNS''" by simp_all
  note v = signed_verdict [OF assms(1,3,7) g]
  have valid: "r_id DNSSECValid \<in> f_id ` set (dnssecStep E zone dd)" using v by (metis image_eqI)
  have fine: "r_id r \<notin> f_id ` (set (dnssecStep E zone dd) \<union> others)" if r: "r \<in> set dnssec_failures" for r
    unfolding step [OF area_failures [OF r]] using v r by (metis imageE imageI)
  have same: "(\<exists>r \<in> set (union_rrs dd). rr_type r = TypeNSEC \<or> rr_type r = TypeNSEC3) \<longleftrightarrow>
      (\<exists>r \<in> set (allRecords z). rr_type r = TypeNSEC \<or> rr_type r = TypeNSEC3)"
    using sub whole by (metis subsetD)
  have nsec_typed: "(rr_type r = TypeNSEC) = (case rr_data r of NSEC_RR _ _ \<Rightarrow> True | _ \<Rightarrow> False) \<and>
      (rr_type r = TypeNSEC3) = (case rr_data r of NSEC3_RR _ \<Rightarrow> True | _ \<Rightarrow> False)" if "r \<in> set (union_rrs dd)" for r
    using typed [OF that] unfolding typed_record_def by blast
  note denial = signed_denial [OF assms(1,3,7) g nsec_typed]
  have none: "r_id DNSSECNoNSEC \<in> f_id ` set (dnssecStep E zone dd) \<longleftrightarrow>
      \<not> (\<exists>r \<in> set (allRecords z). rr_type r = TypeNSEC \<or> rr_type r = TypeNSEC3)"
    unfolding same [symmetric] by (rule denial(1))
  have bad: "r_id DNSSECMalformedNSEC3 \<in> f_id ` set (dnssecStep E zone dd) \<longrightarrow>
      (\<exists>r \<in> set (allRecords z). \<exists>n. rr_data r = NSEC3_RR n \<and>
         (n3_iterations n = 0 \<and> n3_saltlength n = 0 \<or> 10000 < n3_iterations n))"
  proof
    assume "r_id DNSSECMalformedNSEC3 \<in> f_id ` set (dnssecStep E zone dd)"
    then obtain r n where "r \<in> set (union_rrs dd)" "rr_data r = NSEC3_RR n" "bad_nsec3 n" using denial(2) by metis
    then show "\<exists>r \<in> set (allRecords z). \<exists>n. rr_data r = NSEC3_RR n \<and>
         (n3_iterations n = 0 \<and> n3_saltlength n = 0 \<or> 10000 < n3_iterations n)"
      using sub unfolding bad_nsec3_def by (metis subsetD)
  qed
  show ?thesis unfolding ids step [OF areas(1)] step [OF areas(2)] step [OF areas(3)]
  proof (intro conjI)
    show "\<forall>r \<in> {DNSSECInvalidSig, DNSSECBrokenChain, DNSSECNoDS, DNSSECSignExpired, DNSSECSignNotYet, DNSSECNoDNSKEY,
        DNSSECNoRRSIG, DNSSECDeprecatedAlgo}. r_id r \<notin> f_id ` (set (dnssecStep E zone dd) \<union> others)"
      using fine unfolding dnssec_failures_def list.set by (rule ballI)
  qed (rule valid none bad)+
qed

theorem run_signed_zone_witness:
  "\<exists>z. DNSSECSigned_zone plain_lib ex_crypto ex_sign (Some (replicate 32 0, [])) (\<lambda>_. 1000000) = Some z \<and>
     r_id DNSSECValid \<in> f_id ` set (ar_findings (fst (run ex_env (fakeResolver plain_lib) ex_opt ''signed.test.''
       \<lparr>rn_queries = 0, rn_res = addZone plain_lib z newFake\<rparr>))) \<and>
     r_id DNSSECNoNSEC \<notin> f_id ` set (ar_findings (fst (run ex_env (fakeResolver plain_lib) ex_opt ''signed.test.''
       \<lparr>rn_queries = 0, rn_res = addZone plain_lib z newFake\<rparr>))) \<and>
     r_id DNSSECMalformedNSEC3 \<notin> f_id ` set (ar_findings (fst (run ex_env (fakeResolver plain_lib) ex_opt ''signed.test.''
       \<lparr>rn_queries = 0, rn_res = addZone plain_lib z newFake\<rparr>)))"
proof (rule ex_signed_zone)
  fix z
  assume z: "DNSSECSigned_zone plain_lib ex_crypto ex_sign (Some (replicate 32 0, [])) (\<lambda>_. 1000000) = Some z"
    and signed: "signed_by plain_lib ex_crypto ex_sign ex_pair ''signed.test.'' 1000000 (allRecords z)"
    and tidy: "tidy_zone plain_lib z" and apex: "signed_apex plain_lib z" and key: "zoneKey plain_lib z = ''signed.test.''"
  have e: "e_lib ex_env = plain_lib" "e_crypto ex_env = ex_crypto" "e_now ex_env = 1000000" by (simp_all add: ex_env_def)
  have own: "ownerName plain_lib ''signed.test.'' = zoneKey plain_lib z"
    unfolding key using signed_names(2) [OF plain_names] by simp
  have s: "serves_zone plain_lib z (rn_res \<lparr>rn_queries = 0, rn_res = addZone plain_lib z newFake\<rparr>)"
    by (simp add: serves_zone_def addZone_def newFake_def)
  have "newTestKey (Some (replicate 32 0, [])) = Some ex_pair" "\<And>m. ex_sign (tk_priv ex_pair) m \<noteq> []"
    by (simp_all add: newTestKey_def ex_pair_def ex_sign_def)
  note denies = signedZone_denies [OF z this]
  show ?thesis
    using run_signed_zone [of ex_env, unfolded e, OF plain_lib_ok plain_lib_reply ex_pair_ok tidy apex own signed s, of ex_opt] z denies
    by blast
qed

end
