(* ===== verification/ForgedZones.thy ===== *)
theory ForgedZones
  imports SignedRun
begin

text \<open>
  A zone with a record set whose signatures do not verify, such as the tampered one of
  \<^verbatim>\<open>testdata/testzones.go\<close>, in a whole run on the in-memory server: the run says so, and does not
  call the zone valid.
\<close>

section \<open>Forged record sets\<close>









section \<open>The verifications\<close>




section \<open>The verdict\<close>





section \<open>The tampered zone of the tests\<close>











end
