(* ===== verification/ZoneRun.thy ===== *)
theory ZoneRun
  imports SignedRun
begin

text \<open>
  What the record checks of a whole run (\<^verbatim>\<open>internal/audit/audit.go\<close>, steps 5 to 7) report of a zone on the
  in-memory server: the conditions of the checks, read on the records of the zone.
\<close>

section \<open>The child asked for\<close>

text \<open>The child's view is asked for under a name of its own; when nobody serves it, nothing is compared.\<close>

lemma delegation_quiet:
  assumes L: "dns_names_ok (e_lib E)" "dns_reply_ok (e_lib E)" and z: "tidy_zone (e_lib E) z"
    and s: "serves_zone (e_lib E) z (rn_res s)"
    and none: "\<forall>r \<in> set (zoneRecords z (ownerName (e_lib E) (childZone zone))). rr_type r \<noteq> TypeNS"
  shows "fst (delegationStep E (fakeResolver (e_lib E)) opt zone p s) = []"
proof -
  let ?L = "e_lib E" and ?q = "\<lparr>q_name = fqdn (e_lib E) (childZone zone), q_type = TypeNS\<rparr>"
  let ?m = "(safeNewMsg ?L (childZone zone) TypeNS)\<lparr>m_edns := Some (1232, True)\<rparr>"
  have e: "m_edns (safeNewMsg ?L (childZone zone) TypeNS) = None" "m_question ?m = [?q]"
    by (simp_all add: safeNewMsg_def new_msg_def)
  have name: "fqdn ?L (to_lower (q_name ?q)) = ownerName ?L (childZone zone)" using L(1) by (simp add: ownerName_def fqdn_to_lower)
  have "m_answer (zoneReply ?L f z ?m ?q) = []" for f
  proof (rule zoneReply_tidy [OF L(2) z, of ?q f ?m])
    show "q_type ?q \<noteq> TypeANY \<or> fqdn ?L (to_lower (q_name ?q)) = zoneKey ?L z" by (simp add: type_defs)
    fix ans
    assume a: "m_answer (zoneReply ?L f z ?m ?q) = map Some ans"
      and t: "if q_type ?q = TypeANY then set ans = set (allRecords z)
         else ans = filter (\<lambda>r. rr_type r = q_type ?q) (zoneRecords z (fqdn ?L (to_lower (q_name ?q))))"
    have "ans = filter (\<lambda>r. rr_type r = TypeNS) (zoneRecords z (ownerName ?L (childZone zone)))"
      using t unfolding name by (simp add: type_defs)
    then show "m_answer (zoneReply ?L f z ?m ?q) = []" using none by (simp add: a filter_empty_conv)
  qed
  then obtain m s1 where "runQuery (fakeResolver ?L) opt (safeNewMsg ?L (childZone zone) TypeNS) s = (Inr m, s1)" "m_answer m = []"
    using fakeQuery_serves [OF s e(2)] e(1) L(2) by (simp add: runQuery_def fakeResolver_def split: if_splits)
  then show ?thesis by (simp add: delegationStep_def Let_def)
qed

section \<open>The records collected\<close>

lemma apex_collects:
  assumes "set (somes (m_answer m)) = recs" and "set (somes (fst (collectApexRecords L R opt zone m s))) \<subseteq> recs"
  shows "set (somes (fst (collectApexRecords L R opt zone m s))) = recs"
  using assms by (auto simp: collectApexRecords_def Let_def split_beta)

text \<open>The first two queries of a run, the records collected, and the findings of the record checks.\<close>

lemma run_records:
  assumes L: "dns_names_ok (e_lib E)" "dns_reply_ok (e_lib E)" and z: "tidy_zone (e_lib E) z"
    and s: "serves_zone (e_lib E) z (rn_res s)" and apex: "ownerName (e_lib E) zone = zoneKey (e_lib E) z"
  obtains resp recs others where "set (somes recs) = set (allRecords z)"
    "set (ar_findings (fst (run E (fakeResolver (e_lib E)) opt zone s))) =
       (\<lambda>f. f\<lparr>f_zone := zone\<rparr>) ` (set (recordChecks E opt zone resp recs) \<union> others)"
    "\<And>f. f \<in> others \<Longrightarrow> area (f_id f) \<notin> {''DNS-SOA'', ''DNS-TTL'', ''DNS-CAA'', ''DNS-ADD'', ''DNS-CNA''}"
    "\<And>f. \<forall>r \<in> set (zoneRecords z (ownerName (e_lib E) (childZone zone))). rr_type r \<noteq> TypeNS \<Longrightarrow>
       f \<in> others \<Longrightarrow> area (f_id f) \<noteq> ''DNS-DEL''"
proof -
  let ?L = "e_lib E" and ?R = "fakeResolver (e_lib E)" and ?recs = "allRecords z"
  obtain m0 s1 where q1: "runQuery ?R opt (safeNewMsg ?L zone TypeNS) s = (Inr m0, s1)" "good ?L ?recs m0" "serves_zone ?L z (rn_res s1)"
    by (rule runQuery_good [OF L z s, of TypeNS zone opt]) (auto simp: type_defs)
  obtain ma s2 where q2: "runQuery ?R opt (safeNewMsg ?L zone TypeANY) s1 = (Inr ma, s2)" "good ?L ?recs ma"
      "serves_zone ?L z (rn_res s2)" "set (somes (m_answer ma)) = set ?recs"
    by (rule runQuery_good [OF L z q1(3), of TypeANY zone opt]) (use apex in \<open>auto simp: type_defs\<close>)
  define resp where "resp = withAny m0 (Inr ma)"
  have good: "good ?L ?recs resp" using withAny_good [OF q1(2) q2(2)] by (simp add: resp_def)
  then have sub: "set (msg_rrs resp) \<subseteq> set ?recs" by (simp add: good_def carries_def)
  have full: "set (somes (m_answer resp)) = set ?recs"
    using good_sub [OF good] q2(4) by (auto simp: resp_def withAny_def)
  define view where "view = extractNSFromResponse ?L resp zone"
  define c where "c = collectApexRecords ?L ?R opt zone resp s2"
  obtain s5 s6 s7 s8 probed where probed: "\<And>f. f \<in> probed \<Longrightarrow> area (f_id f) = ''DNS-AUT''"
    and all: "set (ar_findings (fst (run E ?R opt zone s))) = (\<lambda>f. f\<lparr>f_zone := zone\<rparr>) `
       (set (fst (delegationStep E ?R opt zone view (snd (snd c)))) \<union> probed \<union> set (recordChecks E opt zone resp (fst c))
        \<union> set (dnssecStep E zone (fst (collectDNSSEC E ?R opt zone resp (fst c) (fst (snd c)) s5)))
        \<union> (if opt_active opt then set (fst (axfrLoop E ?R opt zone (pv_ns view) s6)) else {})
        \<union> set (fst (wildcardStep E ?R opt zone s7))
        \<union> (if opt_active opt then set (fst (recursionLoop E ?R opt zone 0 (pv_ns view) s8)) else {}))"
    by (rule fake_run.run_steps [OF q1(1) q2(1), folded resp_def, folded view_def c_def]) (rule that)
  define others where "others = set (fst (delegationStep E ?R opt zone view (snd (snd c)))) \<union> probed
    \<union> set (dnssecStep E zone (fst (collectDNSSEC E ?R opt zone resp (fst c) (fst (snd c)) s5)))
    \<union> (if opt_active opt then set (fst (axfrLoop E ?R opt zone (pv_ns view) s6)) else {})
    \<union> set (fst (wildcardStep E ?R opt zone s7))
    \<union> (if opt_active opt then set (fst (recursionLoop E ?R opt zone 0 (pv_ns view) s8)) else {})"
  note apexG = collectApex_good [OF L z q2(3) sub c_def]
  note areas = probed wildcardStep_area dnssecStep_area axfrLoop_area recursionLoop_area
  have "set (somes (fst c)) = set ?recs"
    unfolding c_def by (rule apex_collects [OF full apexG(1) [unfolded c_def]])
  moreover have "set (ar_findings (fst (run E ?R opt zone s))) =
      (\<lambda>f. f\<lparr>f_zone := zone\<rparr>) ` (set (recordChecks E opt zone resp (fst c)) \<union> others)"
    unfolding all others_def by (rule arg_cong [where f = "image (\<lambda>f. f\<lparr>f_zone := zone\<rparr>)"]) blast
  moreover have "area (f_id f) \<notin> {''DNS-SOA'', ''DNS-TTL'', ''DNS-CAA'', ''DNS-ADD'', ''DNS-CNA''}" if "f \<in> others" for f
    using that unfolding others_def by (auto dest!: areas delegationStep_area split: if_splits)
  moreover have "area (f_id f) \<noteq> ''DNS-DEL''" if "f \<in> others"
    and none: "\<forall>r \<in> set (zoneRecords z (ownerName ?L (childZone zone))). rr_type r \<noteq> TypeNS" for f
    using that(1) unfolding others_def delegation_quiet [OF L z apexG(3) none] by (auto dest!: areas split: if_splits)
  ultimately show ?thesis by (rule that)
qed

section \<open>The graph of the zone\<close>

definition cname_edges :: "dnslib \<Rightarrow> rr set \<Rightarrow> (string \<times> string) set" where
  "cname_edges L rs = {(fqdnLower L (rr_name r), fqdnLower L t) |r t. r \<in> rs \<and> rr_data r = CNAME_RR t}"

lemma buildRR_edges:
  "map_of (buildRR L x g) n = Some t \<Longrightarrow> map_of g n = Some t \<or> (n, t) \<in> cname_edges L (set_option x)"
  "n \<in> Domain (cname_edges L (set_option x)) \<or> map_of g n \<noteq> None \<Longrightarrow> map_of (buildRR L x g) n \<noteq> None"
  by (auto simp: buildRR_def cname_edges_def split: option.splits rdata.splits if_splits)

lemma graph_edges:
  "map_of (buildGraph L rs) n = Some t \<Longrightarrow> (n, t) \<in> cname_edges L (set (somes rs))"
  "n \<in> Domain (cname_edges L (set (somes rs))) \<Longrightarrow> map_of (buildGraph L rs) n \<noteq> None"
proof (induction rs arbitrary: t rule: rev_induct)
  case (snoc x rs)
  have g: "buildGraph L (rs @ [x]) = buildRR L x (buildGraph L rs)" by (simp add: buildGraph_def)
  have e: "cname_edges L (set (somes (rs @ [x]))) = cname_edges L (set (somes rs)) \<union> cname_edges L (set_option x)"
    by (cases x) (auto simp: cname_edges_def)
  {
    case 1
    then show ?case using buildRR_edges(1) snoc.IH(1) unfolding g e by blast
  next
    case 2
    then show ?case using buildRR_edges(2) snoc.IH(2) unfolding g e by blast
  }
qed (auto simp: buildGraph_def cname_edges_def)

lemma graph_map:
  assumes "single_valued (cname_edges L (set (somes rs)))"
  shows "map_of (buildGraph L rs) n = Some t \<longleftrightarrow> (n, t) \<in> cname_edges L (set (somes rs))"
  using graph_edges(1) [of L rs n] graph_edges(2) [of n L rs] assms unfolding single_valued_def
  by (metis DomainI not_None_eq)

lemma follow_power:
  assumes "\<And>n t. map_of g n = Some t \<longleftrightarrow> (n, t) \<in> E"
  shows "follow g k s = Some t \<longleftrightarrow> (s, t) \<in> E ^^ k"
  by (induction k arbitrary: t) (auto simp: bind_eq_Some_conv assms)

section \<open>The findings\<close>

lemma recordChecks_parts:
  "{f \<in> set (recordChecks E opt zone resp recs). area (f_id f) = ''DNS-ADD''} = set (addrsCheckAll zone recs)"
  "{f \<in> set (recordChecks E opt zone resp recs). area (f_id f) = ''DNS-CNA''} =
     set (cnameCheck zone (buildGraph (e_lib E) recs) 8 (buildResolveTarget (e_lib E) recs zone))"
  "{f \<in> set (recordChecks E opt zone resp recs). area (f_id f) = ''DNS-CAA''} =
     set (caaCheck zone (map Some (rrsOfType recs TypeCAA)))"
  by (auto simp: recordChecks_def Let_def addrsCheckAll_def split: option.splits
      dest: soa_area ttl_area caa_area addrs_area cname_area)

lemma zone_image:
  assumes "\<And>f. f \<in> B \<Longrightarrow> area (f_id f) \<noteq> a"
  shows "{f \<in> (\<lambda>f. f\<lparr>f_zone := zone\<rparr>) ` (A \<union> B). area (f_id f) = a} =
    (\<lambda>f. f\<lparr>f_zone := zone\<rparr>) ` {f \<in> A. area (f_id f) = a}"
  by (auto dest: assms)

text \<open>
  C4. What a run reports of the records of the one zone of the in-memory server. The zone is tidy: not
  recursive, without wildcards or an answer that replaces its SOA, every record under its canonical
  name, without a vertical bar, and of the type of its data; and no name has two CNAME targets.
  There is an address finding for the text of every A or AAAA address of the zone that is
  classified, and for no other; a loop for exactly the names on a cycle of at most 100 CNAME
  records of the zone; and a CAA finding with the severity of an unknown critical property exactly
  when the zone has a CAA record with an unknown tag and the flag bit that the code takes as
  critical. The delegation is compared with the NS records of \<^verbatim>\<open>sub.\<close> below the zone: if the zone
  has none there, no delegation finding is made.
\<close>

theorem run_zone_records:
  assumes "dns_names_ok (e_lib E)" and "dns_reply_ok (e_lib E)" and "tidy_zone (e_lib E) z"
    and "serves_zone (e_lib E) z (rn_res s)" and "ownerName (e_lib E) zone = zoneKey (e_lib E) z"
    and "single_valued (cname_edges (e_lib E) (set (allRecords z)))"
  shows "let fs = set (ar_findings (fst (run E (fakeResolver (e_lib E)) opt zone s))) in
    f_subject ` {f \<in> fs. area (f_id f) = ''DNS-ADD''} =
      ipString ` {ip. classify (Some ip) \<noteq> None \<and>
        (\<exists>r \<in> set (allRecords z). rr_data r = A_RR (Some ip) \<or> rr_data r = AAAA_RR (Some ip))} \<and>
    f_subject ` {f \<in> fs. f_id f = r_id CNAMELoop} =
      {n. \<exists>k. 0 < k \<and> k \<le> 100 \<and> (n, n) \<in> cname_edges (e_lib E) (set (allRecords z)) ^^ k} \<and>
    (\<exists>f \<in> fs. area (f_id f) = ''DNS-CAA'' \<and> f_severity f = r_severity CAACriticalUnknown) =
      (\<exists>r c. r \<in> set (allRecords z) \<and> rr_type r = TypeCAA \<and> rr_data r = CAA_RR c \<and> unknown_critical c) \<and>
    ((\<forall>r \<in> set (zoneRecords z (ownerName (e_lib E) (childZone zone))). rr_type r \<noteq> TypeNS) \<longrightarrow>
      (\<forall>f \<in> fs. area (f_id f) \<noteq> ''DNS-DEL''))"
proof -
  let ?L = "e_lib E" and ?recs = "set (allRecords z)" and ?fs = "set (ar_findings (fst (run E (fakeResolver (e_lib E)) opt zone s)))"
  obtain resp recs others where r: "set (somes recs) = ?recs"
    and fs: "?fs = (\<lambda>f. f\<lparr>f_zone := zone\<rparr>) ` (set (recordChecks E opt zone resp recs) \<union> others)"
    and o: "\<And>f. f \<in> others \<Longrightarrow> area (f_id f) \<notin> {''DNS-SOA'', ''DNS-TTL'', ''DNS-CAA'', ''DNS-ADD'', ''DNS-CNA''}"
    and quiet: "\<And>f. \<forall>r \<in> set (zoneRecords z (ownerName ?L (childZone zone))). rr_type r \<noteq> TypeNS \<Longrightarrow>
       f \<in> others \<Longrightarrow> area (f_id f) \<noteq> ''DNS-DEL''"
    by (rule run_records [OF assms(1-5), where opt = opt]) (rule that)
  have part: "{f \<in> ?fs. area (f_id f) = a} =
      (\<lambda>f. f\<lparr>f_zone := zone\<rparr>) ` {f \<in> set (recordChecks E opt zone resp recs). area (f_id f) = a}"
    if "a \<in> {''DNS-CAA'', ''DNS-ADD'', ''DNS-CNA''}" for a
    unfolding fs by (rule zone_image) (use o that in blast)
  have parts: "{f \<in> ?fs. area (f_id f) = ''DNS-ADD''} = (\<lambda>f. f\<lparr>f_zone := zone\<rparr>) ` set (addrsCheckAll zone recs)"
    "{f \<in> ?fs. area (f_id f) = ''DNS-CNA''} = (\<lambda>f. f\<lparr>f_zone := zone\<rparr>) `
       set (cnameCheck zone (buildGraph ?L recs) 8 (buildResolveTarget ?L recs zone))"
    "{f \<in> ?fs. area (f_id f) = ''DNS-CAA''} = (\<lambda>f. f\<lparr>f_zone := zone\<rparr>) ` set (caaCheck zone (map Some (rrsOfType recs TypeCAA)))"
    using part [of "''DNS-ADD''"] part [of "''DNS-CNA''"] part [of "''DNS-CAA''"] unfolding recordChecks_parts by simp_all
  have member: "Some x \<in> set recs \<longleftrightarrow> x \<in> ?recs" for x using r by (auto simp: set_somes [symmetric])
  have A: "set (concat (map dnsutilAddrs recs)) = {ip. \<exists>x \<in> ?recs. rr_data x = A_RR (Some ip) \<or> rr_data x = AAAA_RR (Some ip)}"
    unfolding dnsutilAddrs_set member by blast
  have S: "f_subject ` set (addrsCheckAll zone recs) = ipString ` {ip \<in> set (concat (map dnsutilAddrs recs)). classify (Some ip) \<noteq> None}"
    by (simp only: addrsCheckAll_def checkAddrs_subjects list.set Diff_empty)
  have "f_subject ` {f \<in> ?fs. area (f_id f) = ''DNS-ADD''} = ipString ` {ip. classify (Some ip) \<noteq> None \<and>
        (\<exists>x \<in> ?recs. rr_data x = A_RR (Some ip) \<or> rr_data x = AAAA_RR (Some ip))}"
    using S unfolding A parts by (simp add: image_image conj_commute)
  moreover have "f_subject ` {f \<in> ?fs. f_id f = r_id CNAMELoop} =
      {n. \<exists>k. 0 < k \<and> k \<le> 100 \<and> (n, n) \<in> cname_edges ?L ?recs ^^ k}"
  proof -
    have "f_subject ` {f \<in> ?fs. f_id f = r_id CNAMELoop} =
        f_subject ` {f \<in> {f \<in> ?fs. area (f_id f) = ''DNS-CNA''}. f_id f = r_id CNAMELoop}"
      by (rule arg_cong [where f = "image f_subject"]) auto
    also have "\<dots> = subjects_of CNAMELoop (cnameCheck zone (buildGraph ?L recs) 8 (buildResolveTarget ?L recs zone))"
      unfolding parts subjects_of_def by (force simp: image_iff)
    also have "\<dots> = {n. on_short_cycle (buildGraph ?L recs) n}" by (simp add: cnameCheck_subjects chain_subjects)
    finally show ?thesis
      unfolding on_short_cycle_def using follow_power [OF graph_map, of ?L recs] assms(6) r by simp
  qed
  moreover have "(\<exists>f \<in> ?fs. area (f_id f) = ''DNS-CAA'' \<and> f_severity f = r_severity CAACriticalUnknown) =
      (\<exists>r c. r \<in> ?recs \<and> rr_type r = TypeCAA \<and> rr_data r = CAA_RR c \<and> unknown_critical c)"
  proof -
    have "(\<exists>f \<in> ?fs. area (f_id f) = ''DNS-CAA'' \<and> f_severity f = r_severity CAACriticalUnknown) =
        (\<exists>f \<in> {f \<in> ?fs. area (f_id f) = ''DNS-CAA''}. f_severity f = r_severity CAACriticalUnknown)" by blast
    also have "\<dots> = (\<exists>f \<in> set (caaCheck zone (map Some (rrsOfType recs TypeCAA))). f_severity f = r_severity CAACriticalUnknown)"
      unfolding parts by simp
    finally show ?thesis
      unfolding caaCheck_found caaRecord_severities using member by (auto simp: rrsOfType_def set_somes)
  qed
  moreover have "\<forall>f \<in> ?fs. area (f_id f) \<noteq> ''DNS-DEL''"
    if none: "\<forall>r \<in> set (zoneRecords z (ownerName ?L (childZone zone))). rr_type r \<noteq> TypeNS"
    unfolding fs using quiet [OF none] by (auto dest!: recordChecks_area)
  ultimately show ?thesis unfolding Let_def by blast
qed

text \<open>A zone with a private address and two names that are aliases of each other.\<close>

definition alias_rr :: "string \<Rightarrow> rdata \<Rightarrow> u16 \<Rightarrow> rr" where
  "alias_rr n d t = \<lparr>rr_hdr = \<lparr>h_name = n, h_rrtype = t, h_class = ClassINET, h_ttl = 300\<rparr>, rr_data = d\<rparr>"

definition alias_zone :: zone where
  "alias_zone = \<lparr>z_name = ''z.'', z_records =
     [(''z.'', [alias_rr ''z.'' (A_RR (Some [10, 0, 0, 5])) TypeA]),
      (''a.z.'', [alias_rr ''a.z.'' (CNAME_RR ''B.z.'') TypeCNAME]),
      (''b.z.'', [alias_rr ''b.z.'' (CNAME_RR ''a.z.'') TypeCNAME])],
     z_transfer = False, z_recursive = False, z_soa = None\<rparr>"

theorem run_zone_records_witness:
  "let fs = set (ar_findings (fst (run ex_env (fakeResolver plain_lib) ex_opt ''z.''
       \<lparr>rn_queries = 0, rn_res = addZone plain_lib alias_zone newFake\<rparr>))) in
   f_subject ` {f \<in> fs. area (f_id f) = ''DNS-ADD''} = {''10.0.0.5''} \<and>
   ''a.z.'' \<in> f_subject ` {f \<in> fs. f_id f = r_id CNAMELoop} \<and> (\<forall>f \<in> fs. area (f_id f) \<noteq> ''DNS-DEL'')"
proof -
  let ?E = "cname_edges plain_lib (set (allRecords alias_zone))"
  have e: "e_lib ex_env = plain_lib" by (simp add: ex_env_def)
  have names: "fqdn plain_lib ''z.'' = ''z.''" "fqdn plain_lib ''a.z.'' = ''a.z.''" "fqdn plain_lib ''b.z.'' = ''b.z.''"
    "fqdn plain_lib ''B.z.'' = ''B.z.''" by (simp_all add: plain_lib_def has_suffix_def)
  have low: "to_lower ''z.'' = ''z.''" "to_lower ''a.z.'' = ''a.z.''" "to_lower ''b.z.'' = ''b.z.''" "to_lower ''B.z.'' = ''b.z.''"
    by code_simp+
  have own: "ownerName plain_lib ''z.'' = ''z.''" "ownerName plain_lib ''a.z.'' = ''a.z.''" "ownerName plain_lib ''b.z.'' = ''b.z.''"
    by (simp_all only: ownerName_def names low)
  have fl: "fqdnLower plain_lib ''a.z.'' = ''a.z.''" "fqdnLower plain_lib ''b.z.'' = ''b.z.''" "fqdnLower plain_lib ''B.z.'' = ''b.z.''"
    by (simp_all only: fqdnLower_def names low)
  have "z_name alias_zone = ''z.''" by (simp add: alias_zone_def)
  then have key: "zoneKey plain_lib alias_zone = ''z.''" by (simp only: zoneKey_def names low)
  have recs: "set (allRecords alias_zone) = {alias_rr ''z.'' (A_RR (Some [10, 0, 0, 5])) TypeA,
      alias_rr ''a.z.'' (CNAME_RR ''B.z.'') TypeCNAME, alias_rr ''b.z.'' (CNAME_RR ''a.z.'') TypeCNAME}"
    by (simp add: allRecords_def alias_zone_def)
  have edges: "?E = {(''a.z.'', ''b.z.''), (''b.z.'', ''a.z.'')}"
    unfolding cname_edges_def recs by (auto simp: alias_rr_def fl) (force simp: fl)+
  have tidy: "tidy_zone plain_lib alias_zone"
    by (simp add: tidy_zone_def alias_zone_def alias_rr_def typed_record_def has_prefix_def own type_defs)
  have s: "serves_zone plain_lib alias_zone (rn_res \<lparr>rn_queries = 0, rn_res = addZone plain_lib alias_zone newFake\<rparr>)"
    by (simp add: serves_zone_def addZone_def newFake_def)
  have sv: "single_valued ?E" unfolding edges by (simp add: single_valued_def)
  have cycle: "(''a.z.'', ''a.z.'') \<in> ?E ^^ 2" unfolding edges by (auto simp: numeral_2_eq_2)
  have priv: "classify (Some [10, 0, 0, 5]) \<noteq> None" by code_simp
  have dotted: "ipString [10, 0, 0, 5] = ''10.0.0.5''" by code_simp
  have addrs: "{ip. classify (Some ip) \<noteq> None \<and> (\<exists>r \<in> set (allRecords alias_zone). rr_data r = A_RR (Some ip) \<or> rr_data r = AAAA_RR (Some ip))}
      = {[10, 0, 0, 5]}"
    unfolding recs using priv by (auto simp: alias_rr_def)
  have apex: "ownerName plain_lib ''z.'' = zoneKey plain_lib alias_zone" unfolding key by (rule own)
  note R = run_zone_records [of ex_env alias_zone _ "''z.''" ex_opt, unfolded e, OF plain_lib_ok plain_lib_reply tidy s apex sv]
  have loop: "''a.z.'' \<in> {n. \<exists>k. 0 < k \<and> k \<le> 100 \<and> (n, n) \<in> ?E ^^ k}"
    using cycle by (intro CollectI exI [of _ 2]) simp
  have "r \<in> set (zoneRecords alias_zone n) \<Longrightarrow> rr_type r \<noteq> TypeNS" for r n
    using zoneRecords_all [of alias_zone n] unfolding recs by (auto simp: alias_rr_def type_defs)
  then have none: "\<forall>r \<in> set (zoneRecords alias_zone (ownerName plain_lib (childZone ''z.''))). rr_type r \<noteq> TypeNS" by blast
  show ?thesis
    unfolding Let_def using R [unfolded Let_def addrs image_insert image_empty dotted] loop none by blast
qed

end
