(* ===== verification/Probes.thy ===== *)
theory Probes
  imports SignedRun
begin

text \<open>
  The probes of a run (\<^verbatim>\<open>internal/audit/audit.go\<close>, steps 10 to 12): the server they reach, and what they
  report of a zone on the in-memory server (\<^verbatim>\<open>internal/resolver/fake.go\<close>).
\<close>

section \<open>The server asked\<close>

text \<open>
  C5. Every request of a run goes to the one server the options name: two resolvers that answer alike
  for that server, and in any way for all others, give the same run. So the probes of the zone's
  name servers (the authority check, the transfers and the recursion queries) never reach the
  name servers their findings are about.
\<close>

theorem run_asks_one_server:
  assumes "\<And>t m. rv_query R t (opt_resolver opt) m = rv_query R' t (opt_resolver opt) m"
    and "\<And>t m. rv_transfer R t (opt_resolver opt) m = rv_transfer R' t (opt_resolver opt) m"
  shows "run E R opt zone s = run E R' opt zone s"
  by (rule run_agree [OF runQuery_agree [OF assms(1)] runTransfer_agree [OF assms(2)]])

text \<open>The in-memory server, and a network in which it is at one address and nothing at any other.\<close>

definition ex_at :: "string \<Rightarrow> fake resolver" where
  "ex_at a = \<lparr>rv_query = (\<lambda>f server m. if server = a then fakeQuery plain_lib (Some m) f else (Inl DeadlineExceeded, f)),
     rv_transfer = (\<lambda>f server m. (if server = a then fakeTransfer plain_lib (Some m) f else Inl DeadlineExceeded, f))\<rparr>"

theorem run_asks_one_server_witness:
  "run ex_env (fakeResolver plain_lib) ex_opt ''z.'' \<lparr>rn_queries = 0, rn_res = ex_fake\<rparr> =
   run ex_env (ex_at ''''::fake resolver) ex_opt ''z.'' \<lparr>rn_queries = 0, rn_res = ex_fake\<rparr>"
  by (rule run_asks_one_server) (simp_all add: fakeResolver_def ex_at_def ex_opt_def)

section \<open>The name servers of the zone\<close>

lemma own_lower: "dns_names_ok L \<Longrightarrow> ownerName L n = to_lower (fqdn L n)"
  by (simp add: ownerName_def fqdn_to_lower)

lemma own_fqdn: "dns_names_ok L \<Longrightarrow> fqdn L (to_lower (fqdn L n)) = ownerName L n"
  by (simp add: ownerName_def fqdn_to_lower)

text \<open>
  A zone whose map has each name once, and whose NS records stand under their own lowered names,
  none of them under a wildcard.
\<close>

definition ns_tidy :: "dnslib \<Rightarrow> zone \<Rightarrow> bool" where
  "ns_tidy L z \<longleftrightarrow> z_soa z = None \<and> distinct (map fst (z_records z)) \<and>
     list_all (\<lambda>(k, rs). list_all (\<lambda>r. case rr_data r of
        NS_RR _ \<Rightarrow> rr_type r = TypeNS \<and> rr_name r = k \<and> ownerName L k = k \<and> \<not> has_prefix k ''*.''
      | _ \<Rightarrow> True) rs) (z_records z)"

definition apex_hosts :: "dnslib \<Rightarrow> zone \<Rightarrow> string set" where
  "apex_hosts L z = {normName t |r t. r \<in> set (zoneRecords z (zoneKey L z)) \<and> rr_data r = NS_RR t}"

lemma ns_tidyD:
  assumes "ns_tidy L z" and "(k, rs) \<in> set (z_records z)" and "r \<in> set rs" and "rr_data r = NS_RR t"
  shows "rr_type r = TypeNS" "rr_name r = k" "ownerName L k = k" "\<not> has_prefix k ''*.''" "r \<in> set (zoneRecords z k)"
proof -
  have "case rr_data r of NS_RR _ \<Rightarrow> rr_type r = TypeNS \<and> rr_name r = k \<and> ownerName L k = k \<and> \<not> has_prefix k ''*.''
      | _ \<Rightarrow> True"
    using assms(1-3) unfolding ns_tidy_def list_all_iff by fastforce
  then show "rr_type r = TypeNS" "rr_name r = k" "ownerName L k = k" "\<not> has_prefix k ''*.''"
    using assms(4) by simp_all
  have "slot (z_records z) k = rs" using assms(1,2) by (intro slot_member) (simp_all add: ns_tidy_def)
  then show "r \<in> set (zoneRecords z k)" using assms(3) by (simp add: zoneRecords_def)
qed

lemma ns_tidy_apex:
  assumes "ns_tidy L z" and "r \<in> set (zoneRecords z n)" and "rr_data r = NS_RR t"
  shows "rr_type r = TypeNS" "rr_name r = n" "ownerName L n = n"
proof -
  obtain rs where "(n, rs) \<in> set (z_records z)" "r \<in> set rs"
    using slot_nonempty assms(2) unfolding zoneRecords_def by meson
  from ns_tidyD [OF assms(1) this assms(3)] show "rr_type r = TypeNS" "rr_name r = n" "ownerName L n = n" by simp_all
qed

lemma fallback_no_ns: "fk_fallback f = [] \<Longrightarrow> r \<in> set (defaultRecursionAnswer L f q) \<Longrightarrow> rr_data r \<noteq> NS_RR t"
  by (simp add: defaultRecursionAnswer_def)

lemma denial_no_ns: "denialRecord r \<Longrightarrow> rr_data r \<noteq> NS_RR t"
  by (auto simp: denialRecord_def)

lemma soa_no_ns: "z_soa z = None \<Longrightarrow> zoneSOA L z = Some r \<Longrightarrow> rr_data r \<noteq> NS_RR t"
  by (auto simp: zoneSOA_def find_Some_iff is_soa_rr_def)

text \<open>The NS records of the zone's name in a reply to the question for them, or for all types.\<close>

lemma reply_apex_ns:
  assumes N: "dns_names_ok L" and L: "dns_reply_ok L" and z: "ns_tidy L z" and f: "fk_fallback f = []"
    and q: "q_type q = TypeNS \<or> q_type q = TypeANY" "fqdn L (to_lower (q_name q)) = zoneKey L z"
  shows "{r. (Some r \<in> set (m_answer (zoneReply L f z m q)) \<or> Some r \<in> set (m_ns (zoneReply L f z m q))) \<and>
      normName (fqdn L (rr_name r)) = zoneKey L z \<and> rr_data r = NS_RR t} =
    {r \<in> set (zoneRecords z (zoneKey L z)). rr_data r = NS_RR t}" (is "?A = ?B")
proof
  let ?k = "zoneKey L z"
  have own: "normName (fqdn L k) = ownerName L k" for k using N by (simp add: normName_def ownerName_def fqdn_to_lower)
  show "?B \<subseteq> ?A"
  proof
    fix r assume "r \<in> ?B"
    then have r: "r \<in> set (zoneRecords z ?k)" "rr_data r = NS_RR t" by auto
    note n = ns_tidy_apex [OF z r]
    have "typeMatches q r" using q(1) n(1) by (auto simp: typeMatches_def)
    then have "Some r \<in> set (m_answer (zoneReply L f z m q))"
      using r(1) L by (simp add: zoneReply_def Let_def q(2))
    moreover have "normName (fqdn L (rr_name r)) = ?k" using n(2,3) own by simp
    ultimately show "r \<in> ?A" using r(2) by simp
  qed
  show "?A \<subseteq> ?B"
  proof
    fix r assume "r \<in> ?A"
    then have name: "normName (fqdn L (rr_name r)) = ?k" and t: "rr_data r = NS_RR t"
      and m: "Some r \<in> set (m_answer (zoneReply L f z m q)) \<or> Some r \<in> set (m_ns (zoneReply L f z m q))" by auto
    have "r \<notin> set (wildcardAnswers z q ?k)"
    proof
      assume "r \<in> set (wildcardAnswers z q ?k)"
      then obtain x rs r0 where w: "(''*.'' @ x, rs) \<in> set (z_records z)" "r0 \<in> set rs" "r = setName ?k r0"
        unfolding wildcardAnswers_set by blast
      then show False using ns_tidyD(4) [OF z w(1,2), of t] t by (simp add: setName_def has_prefix_iff)
    qed
    moreover have "r \<notin> set (defaultRecursionAnswer L f q)" using fallback_no_ns [OF f] t by blast
    moreover have "r \<notin> set (filter denialRecord (allRecords z))" using denial_no_ns t by auto
    moreover have "zoneSOA L z \<noteq> Some r" using soa_no_ns t z by (auto simp: ns_tidy_def)
    ultimately have "r \<in> set (zoneRecords z ?k) \<or> r \<in> set (allRecords z)"
      using m L by (auto simp: zoneReply_def Let_def q(2) split: if_splits option.splits)
    then show "r \<in> ?B"
    proof
      assume "r \<in> set (allRecords z)"
      then obtain k rs where k: "(k, rs) \<in> set (z_records z)" "r \<in> set rs" by (auto simp: allRecords_def)
      note n = ns_tidyD [OF z k t]
      have "k = ?k" using name n(2,3) own by simp
      with n(5) t show ?thesis by simp
    qed (simp add: t)
  qed
qed


section \<open>What the probes get\<close>

text \<open>The server keeps its zones, its fallback answer and its limit whatever is asked.\<close>

definition keeps :: "fake runner \<Rightarrow> fake runner \<Rightarrow> bool" where
  "keeps s t \<longleftrightarrow> fk_zones (rn_res t) = fk_zones (rn_res s) \<and> fk_fallback (rn_res t) = fk_fallback (rn_res s)"

interpretation fake_keeps: run_relation "fakeResolver L" keeps
proof unfold_locales
  fix s :: "fake runner" and opt m
  show "keeps s (snd (runQuery (fakeResolver L) opt m s))"
    using fakeQuery_log [of L "if m_edns m = None then m\<lparr>m_edns := Some (1232, True)\<rparr> else m" "rn_res s"]
    by (auto simp: keeps_def runQuery_def Let_def split_beta fakeResolver_def recordQuery_def)
  show "keeps s (snd (runTransfer (fakeResolver L) opt m s))"
    by (simp add: keeps_def runTransfer_def Let_def split_beta fakeResolver_def)
qed (auto simp: keeps_def)

text \<open>A server with one zone and no fallback answer.\<close>

definition probed :: "dnslib \<Rightarrow> zone \<Rightarrow> fake runner \<Rightarrow> bool" where
  "probed L z s \<longleftrightarrow> serves_zone L z (rn_res s) \<and> fk_fallback (rn_res s) = []"

lemma probed_keeps: "keeps s t \<Longrightarrow> probed L z s \<Longrightarrow> probed L z t"
  by (simp add: keeps_def probed_def serves_zone_def)

lemma runQuery_probed:
  assumes N: "dns_names_ok L" and s: "probed L z s" and n: "inZoneName (ownerName L n) (zoneKey L z)"
  obtains s' m f where "runQuery (fakeResolver L) opt (safeNewMsg L n t) s =
      (Inr (zoneReply L f z m \<lparr>q_name = fqdn L n, q_type = t\<rparr>), s')"
    and "probed L z s'" "fk_fallback f = []"
proof -
  let ?q = "\<lparr>q_name = fqdn L n, q_type = t\<rparr>"
  let ?m = "(safeNewMsg L n t)\<lparr>m_edns := Some (1232, True)\<rparr>"
  have e: "m_edns (safeNewMsg L n t) = None" "m_question ?m = [?q]" by (simp_all add: safeNewMsg_def new_msg_def)
  have name: "fqdn L (to_lower (q_name ?q)) = ownerName L n" using N by (simp add: ownerName_def fqdn_to_lower)
  have "runQuery (fakeResolver L) opt (safeNewMsg L n t) s =
      (Inr (zoneReply L (recordQuery ?q (rn_res s)) z ?m ?q), \<lparr>rn_queries = rn_queries s + 1, rn_res = recordQuery ?q (rn_res s)\<rparr>)"
    using fakeQuery_serves [OF _ e(2), of L z "rn_res s"] e(1) s n unfolding name by (simp add: probed_def runQuery_def fakeResolver_def)
  then show ?thesis using s by (elim that) (simp_all add: probed_def recordQuery_def serves_zone_def)
qed

subsection \<open>Transfers\<close>

lemma axfrOne_subjects:
  "subjects_of R (axfrOne opt zone h (Inr rs)) = (if r_id R = r_id AXFRAllowed then {h} else {})"
  "subjects_of R (axfrOne opt zone h (Inl ErrZoneRefused)) = (if r_id R = r_id AXFRRefused then {h} else {})"
  by (auto simp: axfrOne_def makeTransferResp_def parseTransferResult_def rcode_defs axfrEvaluate_def Let_def)

lemma axfr_subjects:
  assumes N: "dns_names_ok (e_lib E)" and k: "ownerName (e_lib E) zone = zoneKey (e_lib E) z"
  shows "probed (e_lib E) z s \<Longrightarrow> subjects_of R (fst (axfrLoop E (fakeResolver (e_lib E)) opt zone hs s)) =
    (if r_id R = r_id (if z_transfer z then AXFRAllowed else AXFRRefused) then set hs else {})"
proof (induction hs arbitrary: s)
  case (Cons h hs)
  let ?L = "e_lib E"
  have key: "fqdn ?L (to_lower (fqdn ?L zone)) = zoneKey ?L z" using own_fqdn [OF N] k by simp
  have find: "findZone ?L (rn_res s) (zoneKey ?L z) = Some z"
    using Cons.prems findZone_serves [of ?L z "rn_res s"] by (simp add: probed_def inZoneName_def)
  let ?rs = "transferLoop (fk_limit (rn_res s)) [] (zoneRecords z (z_name z))"
  have x: "fst (runTransfer (fakeResolver ?L) opt (safeNewMsg ?L zone TypeAXFR) s)
      = (if z_transfer z then Inr ?rs else Inl ErrZoneRefused)"
    by (simp add: runTransfer_def fakeResolver_def fakeTransfer_def safeNewMsg_def new_msg_def key find)
  have "probed ?L z (snd (runTransfer (fakeResolver ?L) opt (safeNewMsg ?L zone TypeAXFR) s))"
    using probed_keeps [OF fake_keeps.transfer Cons.prems] .
  from Cons.IH [OF this] x show ?case
    by (auto simp: axfrLoop.simps(2) Let_def split_beta axfrOne_subjects)
qed simp

subsection \<open>Recursion\<close>

lemma fallback_answer: "defaultRecursionAnswer L f q \<noteq> []"
  by (simp add: defaultRecursionAnswer_def)

lemma reply_recursive:
  assumes "dns_reply_ok L" and "q_type q \<noteq> TypeAXFR"
  shows "rec_recursive (checkRecursion h zone (Some (zoneReply L f z m q))) = z_recursive z"
  using assms fallback_answer [of L f q] by (simp add: checkRecursion_def zoneReply_def Let_def)

lemma recursion_subjects:
  assumes L: "dns_names_ok (e_lib E)" "dns_reply_ok (e_lib E)"
    and n: "\<And>i. \<exists>n. randomName (e_rec E i) zone = Some n \<and> inZoneName (ownerName (e_lib E) n) (zoneKey (e_lib E) z)"
  shows "probed (e_lib E) z s \<Longrightarrow> subjects_of R (fst (recursionLoop E (fakeResolver (e_lib E)) opt zone i hs s)) =
    (if r_id R = r_id RecursionOpen \<and> z_recursive z then set hs else {})"
proof (induction hs arbitrary: s i)
  case (Cons h hs)
  let ?L = "e_lib E"
  obtain n where n: "randomName (e_rec E i) zone = Some n" "inZoneName (ownerName ?L n) (zoneKey ?L z)" using n by blast
  obtain s' m f where q: "runQuery (fakeResolver ?L) opt (safeNewMsg ?L n TypeA) s =
      (Inr (zoneReply ?L f z m \<lparr>q_name = fqdn ?L n, q_type = TypeA\<rparr>), s')" and s': "probed ?L z s'"
    by (rule runQuery_probed [OF L(1) Cons.prems n(2), of opt TypeA])
  have "rec_recursive (checkRecursion h zone (Some (zoneReply ?L f z m \<lparr>q_name = fqdn ?L n, q_type = TypeA\<rparr>))) = z_recursive z"
    by (rule reply_recursive [OF L(2)]) (simp add: type_defs)
  then have "subjects_of R (activeCheck h zone (Some (checkRecursion h zone (Some (zoneReply ?L f z m \<lparr>q_name = fqdn ?L n, q_type = TypeA\<rparr>)))))
      = (if r_id R = r_id RecursionOpen \<and> z_recursive z then {h} else {})"
    by (auto simp: activeCheck_def)
  then show ?case using Cons.IH [OF s'] by (simp add: recursionLoop.simps(2) n(1) q Let_def split_beta)
qed simp

subsection \<open>Wildcards\<close>

lemma reply_wildcard:
  assumes N: "dns_names_ok L" and L: "dns_reply_ok L" and f: "fk_fallback f = []" and r: "zoneRecords z (ownerName L n) = []"
  shows "isWildcardResponse L (Some (zoneReply L f z m \<lparr>q_name = fqdn L n, q_type = TypeA\<rparr>)) n \<longleftrightarrow>
    z_recursive z \<or> wildcardAnswers z \<lparr>q_name = fqdn L n, q_type = TypeA\<rparr> (ownerName L n) \<noteq> []"
proof -
  let ?q = "\<lparr>q_name = fqdn L n, q_type = TypeA\<rparr>"
  have name: "fqdn L (to_lower (fqdn L n)) = ownerName L n" using N by (simp add: ownerName_def fqdn_to_lower)
  have own: "to_lower (fqdn L (ownerName L n)) = ownerName L n" "to_lower (fqdn L n) = ownerName L n"
    using N by (simp_all add: ownerName_def fqdn_to_lower)
  have w: "rr_name r = ownerName L n" if "r \<in> set (wildcardAnswers z ?q (ownerName L n))" for r
    using that by (auto simp: wildcardAnswers_set setName_def)
  have d: "defaultRecursionAnswer L f ?q = [\<lparr>rr_hdr = \<lparr>h_name = ownerName L n, h_rrtype = TypeA, h_class = ClassINET, h_ttl = 60\<rparr>,
      rr_data = A_RR (Some recursionIP)\<rparr>]" using f by (simp add: defaultRecursionAnswer_def name)
  have a: "m_rcode (zoneReply L f z m ?q) = RcodeSuccess"
    "somes (m_answer (zoneReply L f z m ?q)) = wildcardAnswers z ?q (ownerName L n)
       @ (if z_recursive z then defaultRecursionAnswer L f ?q else [])"
    using L r by (simp_all add: zoneReply_def Let_def name type_defs)
  have all: "rr_name r = ownerName L n" if "r \<in> set (somes (m_answer (zoneReply L f z m ?q)))" for r
    using that w by (auto simp: a(2) d split: if_splits)
  have "isWildcardResponse L (Some (zoneReply L f z m ?q)) n \<longleftrightarrow> somes (m_answer (zoneReply L f z m ?q)) \<noteq> []"
    using all by (auto simp: isWildcardResponse_def a(1) own Let_def list_ex_iff) (metis list.set_intros(1) neq_Nil_conv)
  then show ?thesis using fallback_answer [of L f ?q] by (auto simp: a(2))
qed


text \<open>The name of the question does not matter to the wildcards that answer it.\<close>

lemma wildcard_subjects:
  assumes N: "dns_names_ok (e_lib E)" and L: "dns_reply_ok (e_lib E)" and s: "probed (e_lib E) z s"
    and p: "probeName (e_probe2 E) zone = Some n" and none: "zoneRecords z (ownerName (e_lib E) n) = []"
    and n: "inZoneName (ownerName (e_lib E) n) (zoneKey (e_lib E) z)"
  shows "subjects_of R (fst (wildcardStep E (fakeResolver (e_lib E)) opt zone s)) =
    (if r_id R = r_id WildcardPresent \<and>
       (z_recursive z \<or> wildcardAnswers z \<lparr>q_name = n, q_type = TypeA\<rparr> (ownerName (e_lib E) n) \<noteq> []) then {zone} else {})"
proof -
  let ?L = "e_lib E"
  obtain s' m f where q: "runQuery (fakeResolver ?L) opt (safeNewMsg ?L n TypeA) s =
      (Inr (zoneReply ?L f z m \<lparr>q_name = fqdn ?L n, q_type = TypeA\<rparr>), s')" "fk_fallback f = []"
    by (rule runQuery_probed [OF N s n])
  have "typeMatches \<lparr>q_name = fqdn ?L n, q_type = TypeA\<rparr> = typeMatches \<lparr>q_name = n, q_type = TypeA\<rparr>"
    by (simp add: fun_eq_iff typeMatches_def)
  then have same: "wildcardAnswers z \<lparr>q_name = fqdn ?L n, q_type = TypeA\<rparr> = wildcardAnswers z \<lparr>q_name = n, q_type = TypeA\<rparr>"
    by (intro ext) (simp only: wildcardAnswers_def)
  show ?thesis
    using reply_wildcard [OF N L q(2) none, of m] by (auto simp: wildcardStep_def p q(1) wildcardCheck_def same)
qed

section \<open>What a run reports of the probes\<close>

lemma probe_in_zone:
  assumes N: "dns_names_ok L" and d: "\<And>a. fqdn L (a @ CHR ''.'' # zone) = a @ CHR ''.'' # fqdn L zone"
    and k: "ownerName L zone = zoneKey L z"
  shows "inZoneName (ownerName L (a @ CHR ''.'' # zone)) (zoneKey L z)"
proof -
  have "ownerName L (a @ CHR ''.'' # zone) = to_lower a @ CHR ''.'' # zoneKey L z"
    using k by (simp add: own_lower [OF N] d)
  then show ?thesis by (simp add: inZoneName_def has_suffix_iff)
qed

lemma subjects_of_zone:
  assumes "set fs = (\<lambda>f. f\<lparr>f_zone := zone\<rparr>) ` (A \<union> set gs)" and "\<And>f. f \<in> A \<Longrightarrow> f_id f \<noteq> r_id R"
  shows "subjects_of R fs = subjects_of R gs"
proof -
  have "subjects_of R fs = f_subject ` {f \<in> (\<lambda>f. f\<lparr>f_zone := zone\<rparr>) ` (A \<union> set gs). f_id f = r_id R}"
    by (simp add: subjects_of_def assms(1))
  also have "{f \<in> (\<lambda>f. f\<lparr>f_zone := zone\<rparr>) ` (A \<union> set gs). f_id f = r_id R}
      = (\<lambda>f. f\<lparr>f_zone := zone\<rparr>) ` {f \<in> A \<union> set gs. f_id f = r_id R}" by auto
  also have "{f \<in> A \<union> set gs. f_id f = r_id R} = {f \<in> set gs. f_id f = r_id R}" using assms(2) by auto
  finally show ?thesis by (simp add: subjects_of_def image_image)
qed

text \<open>The hosts probed are the zone's name servers.\<close>

lemma probed_hosts:
  assumes N: "dns_names_ok L" and L: "dns_reply_ok L" and z: "ns_tidy L z" and k: "ownerName L zone = zoneKey L z"
    and f: "fk_fallback f = []" "fk_fallback f' = []"
  shows "set (pv_ns (extractNSFromResponse L
    (withAny (zoneReply L f z m \<lparr>q_name = fqdn L zone, q_type = TypeNS\<rparr>)
      (Inr (zoneReply L f' z m' \<lparr>q_name = fqdn L zone, q_type = TypeANY\<rparr>))) zone)) = apex_hosts L z"
proof -
  have name: "fqdn L (to_lower (fqdn L zone)) = zoneKey L z" using own_fqdn [OF N] k by simp
  note a = reply_apex_ns [OF N L z f(1), of "\<lparr>q_name = fqdn L zone, q_type = TypeNS\<rparr>", simplified, OF name]
    and b = reply_apex_ns [OF N L z f(2), of "\<lparr>q_name = fqdn L zone, q_type = TypeANY\<rparr>", simplified, OF name]
  have key: "fqdn L (to_lower zone) = zoneKey L z" using k by (simp add: ownerName_def)
  show ?thesis
    using a [of m] b [of m'] by (simp add: extractNSFromResponse_def Let_def set_nsNames set_apex_ns withAny_def apex_hosts_def key set_eq_iff) blast
qed

text \<open>The probes of a run start in states the server has not changed in, and alone report under their rules.\<close>

lemma run_probe_findings:
  assumes N: "dns_names_ok (e_lib E)" and L: "dns_reply_ok (e_lib E)" and k: "ownerName (e_lib E) zone = zoneKey (e_lib E) z"
    and z: "ns_tidy (e_lib E) z" and s: "probed (e_lib E) z s"
  obtains ns s6 s7 s8 where "set ns = apex_hosts (e_lib E) z"
    "probed (e_lib E) z s6" "probed (e_lib E) z s7" "probed (e_lib E) z s8"
    "\<And>R. area (r_id R) \<in> {''DNS-AXF'', ''DNS-WIL'', ''DNS-REC''} \<Longrightarrow>
       subjects_of R (ar_findings (fst (run E (fakeResolver (e_lib E)) opt zone s))) =
         (if opt_active opt then subjects_of R (fst (axfrLoop E (fakeResolver (e_lib E)) opt zone ns s6)) else {})
         \<union> subjects_of R (fst (wildcardStep E (fakeResolver (e_lib E)) opt zone s7))
         \<union> (if opt_active opt then subjects_of R (fst (recursionLoop E (fakeResolver (e_lib E)) opt zone 0 ns s8)) else {})"
proof -
  let ?L = "e_lib E" and ?R = "fakeResolver (e_lib E)"
  have apex: "inZoneName (ownerName ?L zone) (zoneKey ?L z)" using k by (simp add: inZoneName_def)
  obtain s1 m0 f0 where q1: "runQuery ?R opt (safeNewMsg ?L zone TypeNS) s =
      (Inr (zoneReply ?L f0 z m0 \<lparr>q_name = fqdn ?L zone, q_type = TypeNS\<rparr>), s1)" "probed ?L z s1" "fk_fallback f0 = []"
    by (rule runQuery_probed [OF N s apex])
  obtain s2 m1 f1 where q2: "runQuery ?R opt (safeNewMsg ?L zone TypeANY) s1 =
      (Inr (zoneReply ?L f1 z m1 \<lparr>q_name = fqdn ?L zone, q_type = TypeANY\<rparr>), s2)" "probed ?L z s2" "fk_fallback f1 = []"
    by (rule runQuery_probed [OF N q1(2) apex])
  define resp where "resp = withAny (zoneReply ?L f0 z m0 \<lparr>q_name = fqdn ?L zone, q_type = TypeNS\<rparr>)
      (Inr (zoneReply ?L f1 z m1 \<lparr>q_name = fqdn ?L zone, q_type = TypeANY\<rparr>))"
  define view where "view = extractNSFromResponse ?L resp zone"
  define c where "c = collectApexRecords ?L ?R opt zone resp s2"
  have hosts: "set (pv_ns view) = apex_hosts ?L z"
    unfolding view_def resp_def by (rule probed_hosts [OF N L z k q1(3) q2(3)])
  obtain s5 s6 s7 s8 auth where st: "keeps s2 s5" "keeps s2 s6" "keeps s2 s7" "keeps s2 s8"
    and auth: "\<And>f. f \<in> auth \<Longrightarrow> area (f_id f) = ''DNS-AUT''"
    and all: "set (ar_findings (fst (run E ?R opt zone s))) = (\<lambda>f. f\<lparr>f_zone := zone\<rparr>) `
       (set (fst (delegationStep E ?R opt zone view (snd (snd c)))) \<union> auth \<union> set (recordChecks E opt zone resp (fst c))
        \<union> set (dnssecStep E zone (fst (collectDNSSEC E ?R opt zone resp (fst c) (fst (snd c)) s5)))
        \<union> (if opt_active opt then set (fst (axfrLoop E ?R opt zone (pv_ns view) s6)) else {})
        \<union> set (fst (wildcardStep E ?R opt zone s7))
        \<union> (if opt_active opt then set (fst (recursionLoop E ?R opt zone 0 (pv_ns view) s8)) else {}))"
    by (rule fake_keeps.run_steps [OF q1(1) q2(1), folded resp_def, folded view_def c_def]) (rule that)
  let ?others = "set (fst (delegationStep E ?R opt zone view (snd (snd c)))) \<union> auth \<union> set (recordChecks E opt zone resp (fst c))
        \<union> set (dnssecStep E zone (fst (collectDNSSEC E ?R opt zone resp (fst c) (fst (snd c)) s5)))"
  let ?gs = "(if opt_active opt then fst (axfrLoop E ?R opt zone (pv_ns view) s6) else [])
      @ fst (wildcardStep E ?R opt zone s7)
      @ (if opt_active opt then fst (recursionLoop E ?R opt zone 0 (pv_ns view) s8) else [])"
  have "subjects_of R (ar_findings (fst (run E ?R opt zone s))) = subjects_of R ?gs"
    if "area (r_id R) \<in> {''DNS-AXF'', ''DNS-WIL'', ''DNS-REC''}" for R
  proof (rule subjects_of_zone)
    show "set (ar_findings (fst (run E ?R opt zone s))) = (\<lambda>f. f\<lparr>f_zone := zone\<rparr>) ` (?others \<union> set ?gs)"
      unfolding all by (simp add: Un_assoc)
    show "f_id f \<noteq> r_id R" if "f \<in> ?others" for f
      using that \<open>area (r_id R) \<in> _\<close> by (auto dest!: auth delegationStep_area recordChecks_area dnssecStep_area)
  qed
  then show ?thesis
    by (intro that [OF hosts st(2-4) [THEN probed_keeps, OF q2(2)]]) (simp add: Un_assoc)
qed

lemma probe_rules_distinct:
  "r_id AXFRAllowed \<noteq> r_id AXFRRefused" "r_id AXFRAllowed \<noteq> r_id AXFRFailed" "r_id AXFRRefused \<noteq> r_id AXFRFailed"
  "r_id AXFRAllowed \<noteq> r_id WildcardPresent" "r_id AXFRRefused \<noteq> r_id WildcardPresent" "r_id AXFRFailed \<noteq> r_id WildcardPresent"
  "r_id AXFRAllowed \<noteq> r_id RecursionOpen" "r_id AXFRRefused \<noteq> r_id RecursionOpen" "r_id AXFRFailed \<noteq> r_id RecursionOpen"
  "r_id WildcardPresent \<noteq> r_id RecursionOpen"
  by (simp_all add: rule_defs)

text \<open>
  C3. What the probes report of a zone on the in-memory server. Without the active checks no transfer and
  no recursion is reported; with them, every name server of the zone's NS records is reported as
  open to transfers if the zone allows them and as refusing them otherwise, never as failing, and
  as recursive exactly if the zone is. A wildcard is reported when one covers the random name with an
  address, but also for every recursive zone, with or without a wildcard.
\<close>

theorem run_probes:
  assumes "dns_names_ok (e_lib E)" and "dns_reply_ok (e_lib E)"
    and "\<And>a. fqdn (e_lib E) (a @ CHR ''.'' # zone) = a @ CHR ''.'' # fqdn (e_lib E) zone"
    and "ownerName (e_lib E) zone = zoneKey (e_lib E) z" and "ns_tidy (e_lib E) z"
    and "serves_zone (e_lib E) z (rn_res s)" and "fk_fallback (rn_res s) = []"
    and "probeName (e_probe2 E) zone = Some n" and "zoneRecords z (ownerName (e_lib E) n) = []"
    and "\<And>i. e_rec E i \<noteq> None"
  shows "let fs = ar_findings (fst (run E (fakeResolver (e_lib E)) opt zone s)) in
    subjects_of AXFRAllowed fs = (if opt_active opt \<and> z_transfer z then apex_hosts (e_lib E) z else {}) \<and>
    subjects_of AXFRRefused fs = (if opt_active opt \<and> \<not> z_transfer z then apex_hosts (e_lib E) z else {}) \<and>
    subjects_of AXFRFailed fs = {} \<and>
    subjects_of RecursionOpen fs = (if opt_active opt \<and> z_recursive z then apex_hosts (e_lib E) z else {}) \<and>
    subjects_of WildcardPresent fs =
      (if z_recursive z \<or> wildcardAnswers z \<lparr>q_name = n, q_type = TypeA\<rparr> (ownerName (e_lib E) n) \<noteq> [] then {zone} else {})"
proof -
  let ?L = "e_lib E" and ?R = "fakeResolver (e_lib E)"
  have s: "probed ?L z s" using assms(6,7) by (simp add: probed_def)
  note inz = probe_in_zone [OF assms(1,3,4)]
  obtain ns s6 s7 s8 where ns: "set ns = apex_hosts ?L z" and st: "probed ?L z s6" "probed ?L z s7" "probed ?L z s8"
    and fs: "\<And>R. area (r_id R) \<in> {''DNS-AXF'', ''DNS-WIL'', ''DNS-REC''} \<Longrightarrow>
       subjects_of R (ar_findings (fst (run E ?R opt zone s))) =
         (if opt_active opt then subjects_of R (fst (axfrLoop E ?R opt zone ns s6)) else {})
         \<union> subjects_of R (fst (wildcardStep E ?R opt zone s7))
         \<union> (if opt_active opt then subjects_of R (fst (recursionLoop E ?R opt zone 0 ns s8)) else {})"
    by (rule run_probe_findings [OF assms(1,2,4,5) s, of opt]) (rule that)
  obtain b where n: "n = hex_encode b @ CHR ''.'' # zone" using assms(8) by (auto simp: probeName_def split: option.splits)
  have "inZoneName (ownerName ?L n) (zoneKey ?L z)" unfolding n by (rule inz)
  note W = wildcard_subjects [OF assms(1,2) st(2) assms(8,9) this]
  have "\<exists>n. randomName (e_rec E i) zone = Some n \<and> inZoneName (ownerName ?L n) (zoneKey ?L z)" for i
    using assms(10) [of i] inz by (auto simp: randomName_def)
  note Y = recursion_subjects [OF assms(1,2) this st(3)]
  show ?thesis
    by (cases "z_transfer z")
      (simp_all add: Let_def fs axfr_subjects [OF assms(1,4) st(1)] W Y ns probe_rules_distinct probe_rules_distinct [symmetric])
qed


text \<open>The test zone of an open resolver, which has no wildcard.\<close>

definition probe_env :: env where
  "probe_env = ex_env\<lparr>e_probe2 := Some [7], e_rec := (\<lambda>_. Some [9])\<rparr>"

theorem run_probes_witness:
  "\<exists>z. Recursion_zone plain_lib = Some z \<and>
     (let fs = ar_findings (fst (run probe_env (fakeResolver plain_lib) ex_opt ''recursion.test.''
          \<lparr>rn_queries = 0, rn_res = addZone plain_lib z newFake\<rparr>)) in
      subjects_of RecursionOpen fs = {''ns1.recursion.test.''} \<and> subjects_of AXFRRefused fs = {''ns1.recursion.test.''} \<and>
      subjects_of AXFRAllowed fs = {} \<and> subjects_of WildcardPresent fs = {''recursion.test.''})"
proof -
  have ip: "mustIP ''198.51.100.50'' = Some (mapped_prefix @ [198, 51, 100, 50])"
    by (simp add: mustIP_def parseIP_def parseIPv4_def Let_def v4_field_def dec_digit_def)
  define z where "z = \<lparr>z_name = ''recursion.test.'', z_records = [(''recursion.test.'',
        [tz_soa plain_lib ''recursion.test.'' ''ns1.recursion.test.'' ''admin.recursion.test.'' 1 7200 1800 1209600 3600 3600,
         tz_ns plain_lib ''recursion.test.'' ''ns1.recursion.test.'' 3600,
         \<lparr>rr_hdr = tz_hdr (tz_name plain_lib ''ns1.recursion.test.'') TypeA 3600, rr_data = A_RR (Some (mapped_prefix @ [198, 51, 100, 50]))\<rparr>])],
      z_transfer = False, z_recursive = True, z_soa = None\<rparr>"
  have z: "Recursion_zone plain_lib = Some z"
    by (simp add: Recursion_zone_def zone_literal_def tz_a_Some [OF ip] z_def)
  have names: "fqdn plain_lib ''recursion.test.'' = ''recursion.test.''" "to_lower ''recursion.test.'' = ''recursion.test.''"
    "fqdn plain_lib ''ns1.recursion.test.'' = ''ns1.recursion.test.''" "to_lower ''ns1.recursion.test.'' = ''ns1.recursion.test.''"
    by (simp_all add: plain_lib_def has_suffix_def to_lower_def lower_char_def)
  have "z_name z = ''recursion.test.''" by (simp add: z_def)
  then have key: "zoneKey plain_lib z = ''recursion.test.''" by (simp only: zoneKey_def names)
  have own: "ownerName plain_lib ''recursion.test.'' = ''recursion.test.''" by (simp only: ownerName_def names)
  have tidy: "ns_tidy plain_lib z"
    by (simp add: ns_tidy_def z_def tz_soa_def tz_ns_def tz_hdr_def tz_name_def names own has_prefix_def)
  have recs: "zoneRecords z ''recursion.test.'' =
     [tz_soa plain_lib ''recursion.test.'' ''ns1.recursion.test.'' ''admin.recursion.test.'' 1 7200 1800 1209600 3600 3600,
      tz_ns plain_lib ''recursion.test.'' ''ns1.recursion.test.'' 3600,
      \<lparr>rr_hdr = tz_hdr (tz_name plain_lib ''ns1.recursion.test.'') TypeA 3600, rr_data = A_RR (Some (mapped_prefix @ [198, 51, 100, 50]))\<rparr>]"
    by (simp add: zoneRecords_def slot_def z_def)
  have "apex_hosts plain_lib z = {normName ''ns1.recursion.test.''}"
  proof -
    have "r \<in> set (zoneRecords z ''recursion.test.'') \<and> rr_data r = NS_RR t \<longleftrightarrow>
        r = tz_ns plain_lib ''recursion.test.'' ''ns1.recursion.test.'' 3600 \<and> t = ''ns1.recursion.test.''" for r t
      unfolding recs by (auto simp: tz_soa_def tz_ns_def tz_name_def names)
    then show ?thesis unfolding apex_hosts_def key by simp
  qed
  then have hosts: "apex_hosts plain_lib z = {''ns1.recursion.test.''}" by (simp only: normName_def names)
  have e: "e_lib probe_env = plain_lib" "e_probe2 probe_env = Some [7]" "\<And>i. e_rec probe_env i \<noteq> None"
    by (simp_all add: probe_env_def ex_env_def)
  have dots: "fqdn plain_lib (a @ CHR ''.'' # ''recursion.test.'') = a @ CHR ''.'' # fqdn plain_lib ''recursion.test.''" for a
    by (simp add: plain_lib_def has_suffix_iff)
  let ?n = "hex_encode [7] @ CHR ''.'' # ''recursion.test.''"
  have n: "probeName (e_probe2 probe_env) ''recursion.test.'' = Some ?n" by (simp add: e probeName_def)
  have "ownerName plain_lib ?n = to_lower (hex_encode [7]) @ CHR ''.'' # ''recursion.test.''"
    unfolding own_lower [OF plain_lib_ok] dots by (simp add: names lower_char_def)
  then have none: "zoneRecords z (ownerName plain_lib ?n) = []" by (simp add: zoneRecords_def slot_def z_def)
  have s: "serves_zone plain_lib z (rn_res \<lparr>rn_queries = 0, rn_res = addZone plain_lib z newFake\<rparr>)"
    "fk_fallback (rn_res \<lparr>rn_queries = 0, rn_res = addZone plain_lib z newFake\<rparr>) = []"
    by (simp_all add: serves_zone_def addZone_def newFake_def)
  have b: "opt_active ex_opt" "z_recursive z" "\<not> z_transfer z" by (simp_all add: ex_opt_def z_def)
  show ?thesis
    using run_probes [of probe_env "''recursion.test.''" z, unfolded e(1), OF plain_lib_ok plain_lib_reply dots _ tidy s n none e(3), of ex_opt]
    by (simp add: own key hosts b z Let_def)
qed

end
