(* ===== verification/KeyTypes.thy ===== *)
theory KeyTypes
  imports AuditFacts
begin

text \<open>
  A typing of DNSSEC keys: which public key a DNSKEY of an algorithm is parsed to. The keys of a run
  (\<^verbatim>\<open>internal/dnssec/parse.go\<close>, \<^verbatim>\<open>chain.go\<close>) are well typed, so a verification never meets a key
  of the wrong kind; and what the type of an RSA key means for a zone signed with RSA.
\<close>

section \<open>The typing relation\<close>

abbreviation rsa_algorithms :: "byte set" where
  "rsa_algorithms \<equiv> {AlgRSASHA1, AlgRSASHA256, AlgRSASHA512}"

text \<open>Algorithm, bytes of the record, and public key.\<close>

inductive key_type :: "crypto \<Rightarrow> byte \<Rightarrow> bytes \<Rightarrow> pubkey \<Rightarrow> bool" for C where
  ed25519: "length key = 32 \<Longrightarrow> key_type C Ed25519 key (Ed25519Key key)"
| p256: "length key = 64 \<Longrightarrow> onCurve C P256 (0x04 # key) \<Longrightarrow> key_type C ECDSAP256 key (EcdsaKey P256 (0x04 # key))"
| p384: "length key = 96 \<Longrightarrow> onCurve C P384 (0x04 # key) \<Longrightarrow> key_type C ECDSAP384 key (EcdsaKey P384 (0x04 # key))"
| rsa: "alg \<in> rsa_algorithms \<Longrightarrow> 10 \<le> length key \<Longrightarrow> key ! 0 = 0x30 \<Longrightarrow> key ! 2 = 2 \<Longrightarrow> key ! 6 = 2 \<Longrightarrow>
    n = be_val [key ! 4, key ! 5] \<Longrightarrow> 0 < n \<Longrightarrow> e = be_val [key ! 8, key ! 9] \<Longrightarrow> 0 < e \<Longrightarrow>
    key_type C alg key (RsaKey n (int e))"

inductive_simps key_type_simps:
  "key_type C alg key (Ed25519Key pub)"
  "key_type C alg key (EcdsaKey c pub)"
  "key_type C alg key (RsaKey n e)"

inductive_cases key_typeE: "key_type C alg key pub"

definition key_ok :: "crypto \<Rightarrow> key_info \<Rightarrow> bool" where
  "key_ok C k \<longleftrightarrow> key_type C (ki_algorithm k) (ki_bytes k) (ki_pubkey k) \<and>
     ki_tag k = keyTag (ki_flags k) (ki_protocol k) (ki_algorithm k) (ki_bytes k)"

lemma curveKey_Inr: "curveKey C c key = Inr pub \<longleftrightarrow> length key = curveBytes c \<and> onCurve C c (0x04 # key) \<and> pub = EcdsaKey c (0x04 # key)"
  by (auto simp: curveKey_def)

lemma rsaKey_Inr:
  "rsaKey key = Inr pub \<longleftrightarrow> 10 \<le> length key \<and> key ! 0 = 0x30 \<and> key ! 2 = 2 \<and> key ! 6 = 2 \<and>
     0 < be_val [key ! 4, key ! 5] \<and> 0 < be_val [key ! 8, key ! 9] \<and>
     pub = RsaKey (be_val [key ! 4, key ! 5]) (int (be_val [key ! 8, key ! 9]))"
  by (auto simp: rsaKey_def parseDERRSA_eq)

text \<open>The parser accepts exactly the typed keys.\<close>

lemma pubkey_typed: "pubkeyFromAlgorithm C alg key = Inr pub \<longleftrightarrow> key_type C alg key pub"
proof
  assume "pubkeyFromAlgorithm C alg key = Inr pub"
  then show "key_type C alg key pub"
    by (auto simp: pubkeyFromAlgorithm_def curveKey_Inr rsaKey_Inr curveBytes_def split: if_splits intro: key_type.intros)
next
  assume "key_type C alg key pub"
  then show "pubkeyFromAlgorithm C alg key = Inr pub"
    by cases (auto simp: pubkeyFromAlgorithm_def curveKey_Inr rsaKey_Inr curveBytes_def go_simps)
qed

lemma parseDNSKEY_typed:
  "parseDNSKEY C rr = Inr k \<longleftrightarrow>
     decodeBase64 (dk_publickey rr) = Some (ki_bytes k) \<and> key_ok C k \<and> ki_flags k = dk_flags rr \<and>
     ki_protocol k = dk_protocol rr \<and> ki_algorithm k = dk_algorithm rr"
proof
  assume "parseDNSKEY C rr = Inr k"
  then show "decodeBase64 (dk_publickey rr) = Some (ki_bytes k) \<and> key_ok C k \<and> ki_flags k = dk_flags rr \<and>
     ki_protocol k = dk_protocol rr \<and> ki_algorithm k = dk_algorithm rr"
    by (auto simp: parseDNSKEY_def key_ok_def pubkey_typed split: option.splits sum.splits if_splits)
next
  assume k: "decodeBase64 (dk_publickey rr) = Some (ki_bytes k) \<and> key_ok C k \<and> ki_flags k = dk_flags rr \<and>
     ki_protocol k = dk_protocol rr \<and> ki_algorithm k = dk_algorithm rr"
  then have t: "key_type C (ki_algorithm k) (ki_bytes k) (ki_pubkey k)" unfolding key_ok_def by blast
  have "ki_bytes k \<noteq> []" using t by (rule key_typeE) auto
  moreover have "pubkeyFromAlgorithm C (dk_algorithm rr) (ki_bytes k) = Inr (ki_pubkey k)"
    using k pubkey_typed [THEN iffD2, OF t] by simp
  ultimately show "parseDNSKEY C rr = Inr k"
    using k by (simp add: parseDNSKEY_def key_ok_def)
qed

section \<open>The keys of a response\<close>

text \<open>The keys that a collection holds are those of the DNSKEY records that parse.\<close>

lemma in_concat_add_to: "x \<in> set (concat (map snd (add_to k v m))) \<longleftrightarrow> x = v \<or> x \<in> set (concat (map snd m))"
  by (induction k v m rule: add_to.induct) auto

lemma collect_keys:
  "k \<in> set (concat (map snd (zk_keys (fold (collectRR L C) xs zk)))) \<longleftrightarrow>
     k \<in> set (concat (map snd (zk_keys zk))) \<or> (\<exists>r. Some r \<in> set xs \<and> key_of C r = Some k)"
proof (induction xs arbitrary: zk)
  case (Cons x xs)
  have "k \<in> set (concat (map snd (zk_keys (collectRR L C x zk)))) \<longleftrightarrow>
      k \<in> set (concat (map snd (zk_keys zk))) \<or> (\<exists>r. x = Some r \<and> key_of C r = Some k)"
    by (cases x) (auto simp: collectRR_fields in_concat_add_to collectRR_def [of L C None] simp del: set_concat split: option.split)
  then show ?case using Cons by (simp del: set_concat) blast
qed simp

lemma key_of_Some: "key_of C r = Some k \<longleftrightarrow> (\<exists>dk. rr_data r = DNSKEY_RR dk \<and> parseDNSKEY C dk = Inr k)"
  by (cases "rr_data r") (auto simp: key_of_def split: sum.splits)

lemma keyForKeyTag_collect:
  assumes "keyForKeyTag (collect L C m) tag = Some k"
  shows "ki_tag k = tag" and "\<exists>r dk. Some r \<in> set (m_answer m @ m_ns m) \<and> rr_data r = DNSKEY_RR dk \<and> parseDNSKEY C dk = Inr k"
proof -
  have "k \<in> set (concat (map snd (zk_keys (collect L C m))))" and "ki_tag k = tag"
    using assms unfolding keyForKeyTag_def by (auto simp: find_Some_iff simp del: set_concat)
  then show "ki_tag k = tag" "\<exists>r dk. Some r \<in> set (m_answer m @ m_ns m) \<and> rr_data r = DNSKEY_RR dk \<and> parseDNSKEY C dk = Inr k"
    unfolding collect_def collect_keys
    by (auto simp: empty_keys_def key_of_Some)
qed

text \<open>A verification with a typed key fails for the signature only.\<close>

lemma verify_each:
  "ki_pubkey k = Ed25519Key pub \<Longrightarrow> verifyEd25519 C sig k datas \<in> {None, Some ErrBadSignature, Some ErrSigInvalid}"
  "ki_pubkey k = EcdsaKey c pub \<Longrightarrow> verifyECDSA C sig k datas h \<in> {None, Some ErrBadSignature, Some ErrSigInvalid}"
  "ki_pubkey k = RsaKey n e \<Longrightarrow> verifyRSA C sig k datas h \<in> {None, Some ErrBadSignature, Some ErrLibrary}"
  unfolding verifyEd25519_def verifyECDSA_def verifyRSA_def rsaVerifyPKCS1_def Let_def
  by (simp_all only: pubkey.case insert_iff empty_iff split: if_split) simp_all

lemma typed_verify:
  assumes "key_ok C k"
  shows "verifySig C sig k datas \<in> {None, Some ErrBadSignature, Some ErrSigInvalid, Some ErrLibrary}"
  using assms [unfolded key_ok_def, THEN conjunct1]
proof (cases rule: key_type.cases)
  case ed25519
  then show ?thesis using verify_each(1) [OF ed25519(2), of C sig datas] by (auto simp: verifySig_def)
next
  case p256
  then show ?thesis using verify_each(2) [OF p256(2), of C sig datas SHA256] by (auto simp: verifySig_def go_simps)
next
  case p384
  then show ?thesis using verify_each(2) [OF p384(2), of C sig datas SHA512] by (auto simp: verifySig_def go_simps)
next
  case (rsa n e)
  then show ?thesis
    using verify_each(3) [OF rsa(1), of C sig datas "algoHash (ki_algorithm k)"] by (auto simp: verifySig_def go_simps)
qed

text \<open>
  C25. Every key that a signature of a response is looked up with is well typed: it comes from a DNSKEY
  record of the response, its public key is of the kind and the length of its algorithm, lies on
  the curve for ECDSA, and its tag is the tag of its bytes. A verification with it therefore never
  ends with a key mismatch or an unsupported algorithm: it accepts, or it fails for the signature.
\<close>

theorem keys_well_typed:
  assumes "keyForKeyTag (collect L C m) tag = Some k"
  shows "key_ok C k \<and> ki_tag k = tag \<and>
    (\<exists>r dk. Some r \<in> set (m_answer m @ m_ns m) \<and> rr_data r = DNSKEY_RR dk \<and> parseDNSKEY C dk = Inr k) \<and>
    verifySig C sig k datas \<in> {None, Some ErrBadSignature, Some ErrSigInvalid, Some ErrLibrary}"
proof -
  obtain r dk where r: "Some r \<in> set (m_answer m @ m_ns m)" "rr_data r = DNSKEY_RR dk" "parseDNSKEY C dk = Inr k"
    using keyForKeyTag_collect(2) [OF assms] by blast
  then have "key_ok C k" by (simp add: parseDNSKEY_typed)
  with r keyForKeyTag_collect(1) [OF assms] typed_verify show ?thesis by blast
qed

definition ex_rsa_rr :: rr where
  "ex_rsa_rr = \<lparr>rr_hdr = \<lparr>h_name = ''z.'', h_rrtype = TypeDNSKEY, h_class = 1, h_ttl = 60\<rparr>, rr_data = DNSKEY_RR ex_rsa\<rparr>"

lemma ex_rsa_lookup:
  "m_answer m = [Some ex_rsa_rr] \<Longrightarrow> m_ns m = [] \<Longrightarrow> keyForKeyTag (collect plain_lib ex_crypto m) (ki_tag ex_key) = Some ex_key"
  by (simp add: keyForKeyTag_def collect_def collectRR_def ex_rsa_rr_def ex_rsa_key empty_keys_def Let_def)

theorem keys_well_typed_witness:
  "key_ok ex_crypto ex_key \<and> verifySig ex_crypto ex_sig ex_key [] \<in> {None, Some ErrBadSignature, Some ErrSigInvalid, Some ErrLibrary}"
  using keys_well_typed [OF ex_rsa_lookup [of "new_msg\<lparr>m_answer := [Some ex_rsa_rr]\<rparr>"], of ex_sig "[]"]
  by (simp add: new_msg_def)

end
