(* ===== verification/RsaZones.thy ===== *)
theory RsaZones
  imports KeyTypes SignedZones
begin

text \<open>
  A zone signed with RSA in a run (\<^verbatim>\<open>verifySignatures\<close> of \<^verbatim>\<open>internal/audit/audit.go\<close>): the modulus
  that \<^verbatim>\<open>parseDERRSA\<close> reads has at most sixteen bits, so no signature of a real length verifies.
\<close>

text \<open>Every key is an RSA key, every signature longer than two bytes.\<close>

definition rsa_signed :: "dnslib \<Rightarrow> rr list \<Rightarrow> bool" where
  "rsa_signed L rs \<longleftrightarrow> list_all (\<lambda>r. case rr_data r of
      DNSKEY_RR d \<Rightarrow> dk_algorithm d \<in> rsa_algorithms
    | RRSIG_RR s \<Rightarrow> 2 < length (si_signature (parseRRSIG L s))
    | _ \<Rightarrow> True) rs"

lemma rsa_signedD:
  assumes "rsa_signed L rs" and "r \<in> set rs"
  shows "rr_data r = DNSKEY_RR d \<Longrightarrow> dk_algorithm d \<in> rsa_algorithms"
    and "rr_data r = RRSIG_RR s \<Longrightarrow> 2 < length (si_signature (parseRRSIG L s))"
  using assms by (auto simp: rsa_signed_def list_all_iff split: rdata.splits)

lemma rsa_bad_sig:
  assumes rsa: "rsa_signed L (msg_rrs m)" and sig: "sig \<in> set (slot (zk_sigs (collect L C m)) n)"
    and key: "keyForKeyTag (collect L C m) (si_keytag sig) = Some k"
  shows "bad_sig L C (collect L C m) n (si_typecovered sig) sig"
proof -
  obtain r dk where r: "Some r \<in> set (m_answer m @ m_ns m)" "rr_data r = DNSKEY_RR dk" "parseDNSKEY C dk = Inr k"
    using keyForKeyTag_collect(2) [OF key] by blast
  have "r \<in> set (msg_rrs m)" using r(1) by (simp only: set_somes)
  then have "dk_algorithm dk \<in> rsa_algorithms" using rsa_signedD(1) [OF rsa _ r(2)] by blast
  moreover obtain q sg where q: "q \<in> set (msg_rrs m)" "rr_data q = RRSIG_RR sg" "sig = parseRRSIG L sg"
    using sig by (rule sig_collected)
  then have "2 < length (si_signature sig)" using rsa_signedD(2) [OF rsa] by blast
  ultimately have "verifySig C sig k ds = Some ErrBadSignature" for ds
    using rsa_signature_refused [OF r(3)] by blast
  then show ?thesis using key by (simp add: bad_sig_def)
qed

lemma rsa_event_fails:
  assumes L: "dns_names_ok (e_lib E)"
    and rsa: "\<And>u. u \<in> set (dd_units d) \<Longrightarrow> rsa_signed (e_lib E) (msg_rrs (unit_msg d u))"
    and ev: "(key, st, ok) \<in> set (sigEvents E z d)"
  shows "\<not> ok"
proof -
  obtain u n ss sig where u: "u \<in> set (dd_units d)" "(n, ss) \<in> set (zk_sigs (unitKeys E d u))" "sig \<in> set ss"
    and made: "sigEvent E (fqdn (e_lib E) (to_lower z)) (unitKeys E d u) (n, sig) = Some (key, st, ok)"
    using ev by (auto simp: sigEvents_def Let_def set_map_filter)
  note s = sig_entry [OF L u(2) [unfolded unitKeys_def] u(3)]
  have "hasKeyForTag (unitKeys E d u) (si_keytag sig)"
    and ok: "ok \<longleftrightarrow> verifyRRSIGForType (e_lib E) (e_crypto E) (unitKeys E d u) n (si_typecovered sig) < 0"
    using made s(1) by (auto simp: sigEvent_def Let_def split: if_splits)
  then obtain k where "keyForKeyTag (unitKeys E d u) (si_keytag sig) = Some k" by (auto simp: hasKeyForTag_def)
  from verify_rejects [OF s(2) rsa_bad_sig [OF rsa [OF u(1)] s(2) this [unfolded unitKeys_def]]] ok
  show "\<not> ok" by (simp add: unitKeys_def)
qed

text \<open>
  C26. A zone signed with RSA: whatever the responses of a run hold, with RSA keys alone and signatures
  of more than two bytes no record set counts as verified, the zone is never reported as valid,
  and there is exactly one DNSSECInvalidSig finding, with its name and type, for every record set
  whose signature was looked at.
\<close>

theorem rsa_zone_rejected:
  assumes "dns_names_ok (e_lib E)"
    and "\<And>u. u \<in> set (dd_units d) \<Longrightarrow> rsa_signed (e_lib E) (msg_rrs (unit_msg d u))"
  shows "snd (verifySignatures E zone d) = 0 \<and> r_id DNSSECValid \<notin> f_id ` set (dnssecStep E zone d) \<and>
    one_each E zone d (fst (verifySignatures E zone d)) (fst ` set (sigEvents E zone d))"
proof -
  have none: "(k, st, True) \<notin> set (sigEvents E zone d)" for k st
    using rsa_event_fails [OF assms] by blast
  have all: "{k. \<exists>st. (k, st, False) \<in> set (sigEvents E zone d)} = fst ` set (sigEvents E zone d)"
  proof -
    have "(\<exists>st. (k, st, False) \<in> set (sigEvents E zone d)) \<longleftrightarrow> (\<exists>st ok. (k, st, ok) \<in> set (sigEvents E zone d))" for k
      using none by (metis (full_types))
    then show ?thesis by (force simp: image_iff)
  qed
  have zero: "snd (verifySignatures E zone d) = 0"
    using verifySignatures_events [of E zone d] by (simp add: none)
  moreover have "one_each E zone d (fst (verifySignatures E zone d)) (fst ` set (sigEvents E zone d))"
    using verifySignatures_each [of E zone d] by (simp add: none all)
  moreover from zero have "\<not> (\<exists>f \<in> set (dnssecStep E zone d). f_id f = r_id DNSSECValid)"
    by (subst dnssecStep_verdict) (auto simp: chainFindings_def Let_def verdict_ids verdict_ids [symmetric] split: if_splits)
  ultimately show ?thesis by auto
qed

text \<open>A response with a record, a signature of three bytes over it, and the RSA key.\<close>

definition ex_rsa_sig :: rr where
  "ex_rsa_sig = \<lparr>rr_hdr = \<lparr>h_name = ''z.'', h_rrtype = TypeRRSIG, h_class = 1, h_ttl = 60\<rparr>,
     rr_data = RRSIG_RR \<lparr>sg_typecovered = 16, sg_algorithm = 8, sg_labels = 1, sg_origttl = 60,
       sg_expiration = 90, sg_inception = 10, sg_keytag = ki_tag ex_key, sg_signername = ''z.'', sg_signature = b64_encode [1, 2, 3]\<rparr>\<rparr>"

definition ex_rsa_data :: dnssec_data where
  "ex_rsa_data = \<lparr>dd_units = [new_msg\<lparr>m_answer := [Some (ex_txt ''a''), Some ex_rsa_sig]\<rparr>], dd_keys = [Some ex_rsa_rr],
     dd_seen = [], dd_answer = [Some (ex_txt ''a''), Some ex_rsa_sig, Some ex_rsa_rr], dd_ns = [], dd_ds = new_msg\<rparr>"

definition ex_rsa_env :: env where
  "ex_rsa_env = \<lparr>e_lib = plain_lib, e_crypto = ex_crypto, e_now = 50, e_date = \<lparr>d_year = 2024, d_month = 5, d_day = 11\<rparr>,
     e_probe1 = None, e_probe2 = None, e_rec = (\<lambda>_. None)\<rparr>"

lemma ex_rsa_units: "u \<in> set (dd_units ex_rsa_data) \<Longrightarrow> rsa_signed plain_lib (msg_rrs (unit_msg ex_rsa_data u))"
  by (simp add: ex_rsa_data_def rsa_signed_def ex_txt_def ex_rsa_sig_def ex_rsa_rr_def ex_rsa_def go_simps
      parseRRSIG_def new_msg_def del: b64_encode.simps)

lemma ex_own: "ownerName plain_lib ''z.'' = ''z.''" "fqdn plain_lib [lower_char CHR ''z'', CHR ''.''] = ''z.''"
  by (simp_all add: ownerName_def plain_lib_def has_suffix_def lower_char_def)

lemma ex_rsa_events: "fst ` set (sigEvents ex_rsa_env ''z.'' ex_rsa_data) = {''z./16''}"
proof -
  let ?u = "new_msg\<lparr>m_answer := [Some (ex_txt ''a''), Some ex_rsa_sig]\<rparr>"
  let ?zk = "unitKeys ex_rsa_env ex_rsa_data ?u"
  have fields: "rr_name (ex_txt ''a'') = ''z.''" "rr_name ex_rsa_sig = ''z.''" "rr_name ex_rsa_rr = ''z.''"
    "rr_type (ex_txt ''a'') = 16" "rr_type ex_rsa_sig = 46" "rr_type ex_rsa_rr = 48"
    by (simp_all add: ex_txt_def ex_rsa_sig_def ex_rsa_rr_def go_simps)
  obtain sig where sig: "parseRRSIG plain_lib (case rr_data ex_rsa_sig of RRSIG_RR s \<Rightarrow> s) = sig" by blast
  then have s: "si_typecovered sig = 16" "si_keytag sig = ki_tag ex_key" by (auto simp: ex_rsa_sig_def)
  have zk: "?zk = collect plain_lib ex_crypto (new_msg\<lparr>m_answer := [Some (ex_txt ''a''), Some ex_rsa_sig, Some ex_rsa_rr]\<rparr>)"
    by (simp add: unitKeys_def ex_rsa_env_def ex_rsa_data_def new_msg_def)
  have "sig_of plain_lib (ex_txt ''a'') = None" "sig_of plain_lib ex_rsa_sig = Some sig" "sig_of plain_lib ex_rsa_rr = None"
    "key_of ex_crypto (ex_txt ''a'') = None" "key_of ex_crypto ex_rsa_sig = None" "key_of ex_crypto ex_rsa_rr = Some ex_key"
    using sig by (simp_all add: sig_of_def key_of_def ex_txt_def ex_rsa_sig_def ex_rsa_rr_def ex_rsa_key)
  then have "zk_sigs ?zk = [(''z.'', [sig])]" "zk_keys ?zk = [(''z.'', [ex_key])]" "zk_bytype ?zk ''z.'' 16 = [ex_txt ''a'']"
    unfolding zk bytype_collect
    by (simp_all add: collect_def new_msg_def collectRR_fields fields ex_own empty_keys_def)
  moreover have "dd_units ex_rsa_data = [?u]" "e_lib ex_rsa_env = plain_lib" by (simp_all add: ex_rsa_data_def ex_rsa_env_def)
  moreover have "word_str (16 :: u16) = ''16''" "TypeDS \<noteq> 16"
    by (simp_all add: word_str_def nat_str.simps digit_char_def char_of_def bit_0 go_simps)
  ultimately show ?thesis
    by (simp add: sigEvents_def sigEvent_def s ex_own Let_def hasKeyForTag_def keyForKeyTag_def)
qed

theorem rsa_zone_rejected_witness:
  "length (fst (verifySignatures ex_rsa_env ''z.'' ex_rsa_data)) = 1 \<and>
     (\<exists>f \<in> set (fst (verifySignatures ex_rsa_env ''z.'' ex_rsa_data)). names_set ex_rsa_env ''z.'' ex_rsa_data f ''z./16'') \<and>
     r_id DNSSECValid \<notin> f_id ` set (dnssecStep ex_rsa_env ''z.'' ex_rsa_data)"
proof -
  have "e_lib ex_rsa_env = plain_lib" by (simp add: ex_rsa_env_def)
  then have "dns_names_ok (e_lib ex_rsa_env)"
    and "\<And>u. u \<in> set (dd_units ex_rsa_data) \<Longrightarrow> rsa_signed (e_lib ex_rsa_env) (msg_rrs (unit_msg ex_rsa_data u))"
    using plain_lib_ok ex_rsa_units by (simp_all only:)
  note R = rsa_zone_rejected [OF this, of "''z.''", unfolded ex_rsa_events]
  from one_eachD [OF conjunct2 [OF conjunct2 [OF R]]] R show ?thesis by auto
qed

end
