(* ===== verification/Report.thy ===== *)
theory Report
  imports Catalog
begin

text \<open>
  \<^verbatim>\<open>internal/report/report.go\<close>: the summary, the human text, and the JSON and SARIF documents.
  A document is the tree that \<^verbatim>\<open>json.MarshalIndent\<close> is given; the encoder itself is an
  argument of \<open>render\<close>. A nil slice is \<open>JNull\<close>, which is what the encoder writes for it.
\<close>

section \<open>Summary\<close>

record summary =
  sum_critical :: nat
  sum_high :: nat
  sum_medium :: nat
  sum_low :: nat
  sum_info :: nat
  sum_pass :: nat
  sum_total :: nat

definition emptySummary :: summary where
  "emptySummary = \<lparr>sum_critical = 0, sum_high = 0, sum_medium = 0, sum_low = 0, sum_info = 0,
     sum_pass = 0, sum_total = 0\<rparr>"

definition summaryStep :: "summary \<Rightarrow> finding \<Rightarrow> summary" where
  "summaryStep s0 f =
     (let s = s0\<lparr>sum_total := sum_total s0 + 1\<rparr>; v = f_severity f in
      if v = SeverityCritical then s\<lparr>sum_critical := sum_critical s + 1\<rparr>
      else if v = SeverityHigh then s\<lparr>sum_high := sum_high s + 1\<rparr>
      else if v = SeverityMedium then s\<lparr>sum_medium := sum_medium s + 1\<rparr>
      else if v = SeverityLow then s\<lparr>sum_low := sum_low s + 1\<rparr>
      else if v = SeverityInfo then s\<lparr>sum_info := sum_info s + 1\<rparr>
      else if v = SeverityPass then s\<lparr>sum_pass := sum_pass s + 1\<rparr>
      else s)"

definition buildSummary :: "finding list \<Rightarrow> summary" where
  "buildSummary fs = foldl summaryStep emptySummary fs"

section \<open>Human text\<close>

abbreviation newline :: string where
  "newline \<equiv> [char_of (10 :: nat)]"

text \<open>The dash of the title line, in UTF-8.\<close>

definition em_dash :: string where
  "em_dash = [char_of (226 :: nat), char_of (128 :: nat), char_of (148 :: nat)]"

definition humanFinding :: "finding \<Rightarrow> string" where
  "humanFinding f =
     ''['' @ to_upper (severityString (f_severity f)) @ ''] '' @ f_id f @ '' '' @ em_dash @ '' '' @ f_title f @ newline
     @ (if f_subject f \<noteq> '''' then ''  Subject: '' @ f_subject f @ newline else '''')
     @ ''  '' @ f_description f @ newline
     @ concat (map (\<lambda>e. ''  Evidence: '' @ e @ newline) (f_evidence f))
     @ (if f_recommendation f \<noteq> '''' then ''  Recommendation: '' @ f_recommendation f @ newline else '''')
     @ (if 0 < length (f_references f) then ''  References: '' @ join '', '' (f_references f) @ newline else '''')
     @ newline"

definition humanHeader :: "string \<Rightarrow> summary \<Rightarrow> string" where
  "humanHeader zone s =
     ''ZoneLint report for '' @ zone @ newline
     @ ''Severity: critical='' @ nat_str (sum_critical s) @ '' high='' @ nat_str (sum_high s)
     @ '' medium='' @ nat_str (sum_medium s) @ '' low='' @ nat_str (sum_low s)
     @ '' info='' @ nat_str (sum_info s) @ '' pass='' @ nat_str (sum_pass s)
     @ '' total='' @ nat_str (sum_total s) @ newline @ newline"

definition human :: "string \<Rightarrow> summary \<Rightarrow> finding list \<Rightarrow> string" where
  "human zone s fs = humanHeader zone s @ concat (map humanFinding (sortFindings fs))"

section \<open>Documents\<close>

datatype json = JNull | JStr string | JNum int | JList "json list" | JObj "(string \<times> json) list"

definition jstrs :: "string list \<Rightarrow> json" where
  "jstrs xs = (if xs = [] then JNull else JList (map JStr xs))"

definition jslice :: "json list \<Rightarrow> json" where
  "jslice xs = (if xs = [] then JNull else JList xs)"

definition summaryJSON :: "summary \<Rightarrow> json" where
  "summaryJSON s = JObj [(''Critical'', JNum (int (sum_critical s))), (''High'', JNum (int (sum_high s))),
     (''Medium'', JNum (int (sum_medium s))), (''Low'', JNum (int (sum_low s))),
     (''Info'', JNum (int (sum_info s))), (''Pass'', JNum (int (sum_pass s))),
     (''Total'', JNum (int (sum_total s)))]"

definition findingJSON :: "finding \<Rightarrow> json" where
  "findingJSON f = JObj
     ([(''id'', JStr (f_id f)), (''severity'', JStr (severityString (f_severity f))),
       (''category'', JStr (f_category f)), (''component'', JStr (f_component f)),
       (''title'', JStr (f_title f)), (''description'', JStr (f_description f)),
       (''evidence'', jstrs (f_evidence f)), (''recommendation'', JStr (f_recommendation f)),
       (''references'', jstrs (f_references f))]
      @ (if f_subject f \<noteq> '''' then [(''subject'', JStr (f_subject f))] else [])
      @ (if f_zone f \<noteq> '''' then [(''zone'', JStr (f_zone f))] else []))"

definition findingsToJSON :: "finding list \<Rightarrow> json" where
  "findingsToJSON fs = jslice (map findingJSON fs)"

definition reportJSON :: "string \<Rightarrow> summary \<Rightarrow> finding list \<Rightarrow> int \<Rightarrow> int \<Rightarrow> json" where
  "reportJSON zone s fs queries records = JObj
     ([(''schema_version'', JStr ''1''), (''zone'', JStr zone), (''summary'', summaryJSON s),
       (''findings'', findingsToJSON fs)]
      @ (if 0 < queries then [(''queries'', JNum queries)] else [])
      @ (if 0 < records then [(''records'', JNum records)] else []))"

definition sarifLevel :: "severity \<Rightarrow> string" where
  "sarifLevel sev = (if sev = SeverityCritical \<or> sev = SeverityHigh then ''error''
     else if sev = SeverityMedium then ''warning'' else ''note'')"

text \<open>The map from rule id to title: a later finding overwrites an earlier one.\<close>

definition sarifRules :: "finding list \<Rightarrow> (string \<times> string) list" where
  "sarifRules fs = fold (\<lambda>f. put (f_id f) (f_title f)) fs []"

definition sortedRuleIds :: "(string \<times> string) list \<Rightarrow> string list" where
  "sortedRuleIds rules = sort (map fst rules)"

definition ruleList :: "(string \<times> string) list \<Rightarrow> (string \<times> string) list" where
  "ruleList rules = map (\<lambda>i. (i, the (map_of rules i))) (sortedRuleIds rules)"

definition ruleListJSON :: "(string \<times> string) list \<Rightarrow> json" where
  "ruleListJSON rules = jslice (map (\<lambda>(i, t). JObj [(''id'', JStr i),
     (''shortDescription'', JObj [(''text'', JStr t)])]) (ruleList rules))"

definition sarifResult :: "string \<Rightarrow> finding \<Rightarrow> json" where
  "sarifResult zone f = JObj
     [(''ruleId'', JStr (f_id f)), (''level'', JStr (sarifLevel (f_severity f))),
      (''message'', JObj ((''text'', JStr (f_description f))
         # (if 0 < length (f_evidence f) then [(''attachments'', JList [])] else []))),
      (''locations'', JList [JObj [(''logicalLocations'',
         JList [JObj [(''fullyQualifiedName'', JStr zone), (''namespace'', JStr zone)]])]])]"

definition sarif :: "string \<Rightarrow> finding list \<Rightarrow> json" where
  "sarif zone fs = JObj
     [(''$schema'', JStr ''https://json.schemastore.org/sarif-2.1.0.json''), (''version'', JStr ''2.1.0''),
      (''runs'', JList [JObj
        [(''tool'', JObj [(''driver'', JObj
            [(''name'', JStr ''ZoneLint''),
             (''informationUri'', JStr ''https://github.com/pan-dolina/ZoneLint''),
             (''rules'', ruleListJSON (sarifRules fs))])]),
         (''results'', JList (map (sarifResult zone) fs))]])]"

definition FormatHuman :: string where "FormatHuman = ''human''"
definition FormatJSON :: string where "FormatJSON = ''json''"
definition FormatSARIF :: string where "FormatSARIF = ''sarif''"

lemmas format_defs = FormatHuman_def FormatJSON_def FormatSARIF_def

text \<open>The text that \<^verbatim>\<open>Render\<close> writes; \<^term>\<open>None\<close> when the encoder fails.\<close>

definition render :: "(json \<Rightarrow> string option) \<Rightarrow> string \<Rightarrow> string \<Rightarrow> summary \<Rightarrow> finding list \<Rightarrow> int \<Rightarrow> int \<Rightarrow> string option" where
  "render marshal zone format s fs queries records =
     (if format = FormatJSON then map_option (\<lambda>t. t @ newline) (marshal (reportJSON zone s fs queries records))
      else if format = FormatSARIF then map_option (\<lambda>t. t @ newline) (marshal (sarif zone fs))
      else Some (human zone s fs))"

section \<open>Lemmas\<close>

text \<open>The number of findings of a severity.\<close>

definition severity_count :: "severity \<Rightarrow> finding list \<Rightarrow> nat" where
  "severity_count v fs = length (filter (\<lambda>f. f_severity f = v) fs)"

lemma summary_fold:
  "foldl summaryStep s fs = s\<lparr>sum_critical := sum_critical s + severity_count SeverityCritical fs,
     sum_high := sum_high s + severity_count SeverityHigh fs,
     sum_medium := sum_medium s + severity_count SeverityMedium fs,
     sum_low := sum_low s + severity_count SeverityLow fs,
     sum_info := sum_info s + severity_count SeverityInfo fs,
     sum_pass := sum_pass s + severity_count SeverityPass fs,
     sum_total := sum_total s + length fs\<rparr>"
  by (induction fs arbitrary: s) (auto simp: summaryStep_def severity_count_def Let_def severity_defs)

lemma severity_partition:
  "\<forall>f \<in> set fs. severityValid (f_severity f) \<Longrightarrow>
     length fs = severity_count SeverityCritical fs + severity_count SeverityHigh fs + severity_count SeverityMedium fs
       + severity_count SeverityLow fs + severity_count SeverityInfo fs + severity_count SeverityPass fs"
proof (induction fs)
  case (Cons f fs)
  have "severityValid (f_severity f)" using Cons.prems by simp
  then show ?case using Cons
    by (cases rule: severity_cases) (auto simp: severity_count_def severity_defs)
qed (simp add: severity_count_def)

text \<open>
  The summary counts every finding of each severity and their total; for findings of valid
  severities the six counts add up to the total.
\<close>

theorem buildSummary_counts:
  "buildSummary fs = \<lparr>sum_critical = severity_count SeverityCritical fs,
     sum_high = severity_count SeverityHigh fs, sum_medium = severity_count SeverityMedium fs,
     sum_low = severity_count SeverityLow fs, sum_info = severity_count SeverityInfo fs,
     sum_pass = severity_count SeverityPass fs, sum_total = length fs\<rparr> \<and>
   ((\<forall>f \<in> set fs. severityValid (f_severity f)) \<longrightarrow>
      sum_total (buildSummary fs) = sum_critical (buildSummary fs) + sum_high (buildSummary fs)
        + sum_medium (buildSummary fs) + sum_low (buildSummary fs) + sum_info (buildSummary fs) + sum_pass (buildSummary fs))"
  using severity_partition [of fs] by (auto simp: buildSummary_def summary_fold emptySummary_def)

theorem buildSummary_counts_witness:
  "sum_total (buildSummary [ruleNew DNSSECValid ''z'' ''d'' [], ruleNew CNAMELoop ''z'' ''d'' []]) = 2"
  using buildSummary_counts [of "[ruleNew DNSSECValid ''z'' ''d'' [], ruleNew CNAMELoop ''z'' ''d'' []]"]
  by simp

lemma sarifRules_fold:
  "distinct (map fst m) \<Longrightarrow> distinct (map fst (fold (\<lambda>f. put (f_id f) (f_title f)) fs m)) \<and>
     fst ` set (fold (\<lambda>f. put (f_id f) (f_title f)) fs m) = fst ` set m \<union> f_id ` set fs"
  by (induction fs arbitrary: m) (auto simp: distinct_put fst_set_put)

lemma sarifRules_snoc: "sarifRules (fs @ [f]) = put (f_id f) (f_title f) (sarifRules fs)"
  by (simp add: sarifRules_def)

text \<open>Two well-formed findings of one id come from one rule.\<close>

lemma wf_titles: "wf_finding f \<Longrightarrow> wf_finding g \<Longrightarrow> f_id f = f_id g \<Longrightarrow> f_title f = f_title g"
  using distinct_ids unfolding distinct_map wf_finding_def from_rule_def by (metis inj_onD)

lemma sarifRules_title:
  "list_all wf_finding fs \<Longrightarrow> f \<in> set fs \<Longrightarrow> map_of (sarifRules fs) (f_id f) = Some (f_title f)"
proof (induction fs rule: rev_induct)
  case (snoc g gs)
  have wf: "wf_finding g" "list_all wf_finding gs" "wf_finding f"
    using snoc.prems by (auto simp: list_all_iff)
  show ?case
  proof (cases "f_id f = f_id g")
    case True
    then show ?thesis using wf_titles [OF wf(3,1)] by (simp add: sarifRules_snoc)
  next
    case False
    then have "f \<in> set gs" using snoc.prems(2) by auto
    then show ?thesis using snoc.IH [OF wf(2)] False by (simp add: sarifRules_snoc)
  qed
qed simp

lemma ruleList_eq:
  "map fst (ruleList (sarifRules fs)) = sorted_list_of_set (f_id ` set fs)"
proof -
  have d: "distinct (map fst (sarifRules fs))" and s: "set (map fst (sarifRules fs)) = f_id ` set fs"
    using sarifRules_fold [of "[]" fs] by (auto simp: sarifRules_def)
  have "map fst (ruleList (sarifRules fs)) = sort (map fst (sarifRules fs))"
    by (simp add: ruleList_def sortedRuleIds_def o_def)
  then show ?thesis unfolding s [symmetric]
    using d by (intro sorted_distinct_set_unique) simp_all
qed

text \<open>
  C37. The rules of a SARIF document are the ids of its findings, each once and in ascending order, so
  every result refers to exactly one rule; and for well-formed findings a rule carries the title
  of the catalog.
\<close>

theorem sarif_rules_cover:
  assumes "list_all wf_finding fs"
  shows "map fst (ruleList (sarifRules fs)) = sorted_list_of_set (f_id ` set fs) \<and>
    (\<forall>f \<in> set fs. (f_id f, f_title f) \<in> set (ruleList (sarifRules fs)))"
proof (intro conjI ballI ruleList_eq)
  fix f assume f: "f \<in> set fs"
  have "f_id f \<in> set (sortedRuleIds (sarifRules fs))"
    using f sarifRules_fold [of "[]" fs] by (auto simp: sortedRuleIds_def sarifRules_def)
  then show "(f_id f, f_title f) \<in> set (ruleList (sarifRules fs))"
    using sarifRules_title [OF assms f] by (force simp: ruleList_def)
qed

theorem sarif_rules_cover_witness:
  "(r_id CNAMELoop, r_title CNAMELoop) \<in> set (ruleList (sarifRules
     [ruleNew DNSSECValid ''z'' ''d'' [], ruleNew CNAMELoop ''z'' ''d'' []]))"
  using sarif_rules_cover [of "[ruleNew DNSSECValid ''z'' ''d'' [], ruleNew CNAMELoop ''z'' ''d'' []]"] by simp

text \<open>
  Sorting the findings again for the human report changes nothing for findings already in the
  report order, as a run leaves them: the report is the header and one block for each finding in
  that order, and in any case every finding gets exactly one block.
\<close>

theorem human_blocks:
  "(sorted_cmp compareFinding fs \<longrightarrow> human zone s fs = humanHeader zone s @ concat (map humanFinding fs)) \<and>
   (\<exists>gs. mset gs = mset fs \<and> sorted_cmp compareFinding gs \<and>
      human zone s fs = humanHeader zone s @ concat (map humanFinding gs))"
  using finding_order.sort_stable_of_sorted [of fs] finding_order.sorted_sort_stable [of fs]
  by (auto simp: human_def sortFindings_def intro!: exI [of _ "sort_stable compareFinding fs"])

theorem human_blocks_witness:
  "human ''z'' emptySummary [ruleNew DNSSECValid ''z'' ''d'' []]
   = humanHeader ''z'' emptySummary @ humanFinding (ruleNew DNSSECValid ''z'' ''d'' [])"
  using human_blocks [of "[ruleNew DNSSECValid ''z'' ''d'' []]" "''z''" emptySummary] by simp

end
