(* ===== verification/Cli.thy ===== *)
theory Cli
  imports Report AuditRun
begin

text \<open>
  \<^verbatim>\<open>cmd/zonelint/main.go\<close> and \<^verbatim>\<open>internal/version/version.go\<close>: the command line, the choice of
  the output format, the exit status, and the version string. The parser follows Go's
  \<^verbatim>\<open>flag\<close> package; the numeric parsers of flag values, the JSON encoder and the audit of one
  domain are arguments.
\<close>

section \<open>Version\<close>

record version_info =
  vi_version :: string
  vi_commit :: string
  vi_date :: string

text \<open>One build setting of \<^verbatim>\<open>init\<close>.\<close>

definition versionSetting :: "string \<times> string \<Rightarrow> version_info \<Rightarrow> version_info" where
  "versionSetting = (\<lambda>(key, v) i.
     if key = ''vcs.tag'' then
       (if vi_version i = ''0.1.0'' \<or> vi_version i = '''' then i\<lparr>vi_version := v\<rparr> else i)
     else if key = ''vcs.commit'' then (if vi_commit i = '''' then i\<lparr>vi_commit := v\<rparr> else i)
     else if key = ''vcs.time'' then (if vi_date i = '''' then i\<lparr>vi_date := v\<rparr> else i)
     else i)"

definition versionInit :: "(string \<times> string) list option \<Rightarrow> version_info \<Rightarrow> version_info" where
  "versionInit settings i = (case settings of None \<Rightarrow> i | Some ss \<Rightarrow> fold versionSetting ss i)"

definition goMin :: "nat \<Rightarrow> nat \<Rightarrow> nat" where
  "goMin a b = (if a < b then a else b)"

definition versionString :: "version_info \<Rightarrow> string" where
  "versionString i =
     (let v = (if vi_version i = '''' then ''0.1.0'' else vi_version i) in
      if vi_commit i \<noteq> '''' then v @ '' ('' @ take (goMin 12 (length (vi_commit i))) (vi_commit i) @ '')''
      else v)"

section \<open>Flags\<close>

record flags =
  fl_json :: bool
  fl_format :: string
  fl_active :: bool
  fl_resolver :: string
  fl_profile :: string
  fl_failon :: string
  fl_timeout :: int
  fl_maxqps :: int
  fl_maxqueries :: int
  fl_nocolor :: bool
  fl_quiet :: bool
  fl_verbose :: bool
  fl_showaxfr :: bool
  fl_version :: bool

definition defaultFlags :: flags where
  "defaultFlags = \<lparr>fl_json = False, fl_format = '''', fl_active = False, fl_resolver = '''',
     fl_profile = ''balanced'', fl_failon = '''', fl_timeout = 10 * 1000000000, fl_maxqps = 50,
     fl_maxqueries = 400, fl_nocolor = False, fl_quiet = False, fl_verbose = False,
     fl_showaxfr = False, fl_version = False\<rparr>"

text \<open>
  What the command line takes from the Go library: the value parsers, \<^term>\<open>None\<close> for an error;
  \<^verbatim>\<open>%q\<close>; the message for arguments that do not parse; the text of \<^verbatim>\<open>PrintDefaults\<close>; and the
  message for a report that cannot be encoded.
\<close>

record value_lib =
  parseInt :: "string \<Rightarrow> int option"
  parseDuration :: "string \<Rightarrow> int option"
  quoted :: "string \<Rightarrow> string"
  badFlagText :: "string list \<Rightarrow> string"
  flagDefaults :: string
  renderText :: string

definition parseBool :: "string \<Rightarrow> bool option" where
  "parseBool s =
     (if s \<in> {''1'', ''t'', ''T'', ''true'', ''TRUE'', ''True''} then Some True
      else if s \<in> {''0'', ''f'', ''F'', ''false'', ''FALSE'', ''False''} then Some False else None)"

definition boolFlags :: "string list" where
  "boolFlags = [''json'', ''active'', ''no-color'', ''quiet'', ''verbose'', ''show-axfr-records'', ''version'']"

definition setBool :: "string \<Rightarrow> bool \<Rightarrow> flags \<Rightarrow> flags" where
  "setBool name b f =
     (if name = ''json'' then f\<lparr>fl_json := b\<rparr> else if name = ''active'' then f\<lparr>fl_active := b\<rparr>
      else if name = ''no-color'' then f\<lparr>fl_nocolor := b\<rparr> else if name = ''quiet'' then f\<lparr>fl_quiet := b\<rparr>
      else if name = ''verbose'' then f\<lparr>fl_verbose := b\<rparr>
      else if name = ''show-axfr-records'' then f\<lparr>fl_showaxfr := b\<rparr>
      else f\<lparr>fl_version := b\<rparr>)"

text \<open>A flag with a value; the outer \<^term>\<open>None\<close> is an undefined flag, the inner one a bad value.\<close>

definition setValue :: "value_lib \<Rightarrow> string \<Rightarrow> string \<Rightarrow> flags \<Rightarrow> flags option option" where
  "setValue V name v f =
     (if name = ''format'' then Some (Some (f\<lparr>fl_format := v\<rparr>))
      else if name = ''resolver'' then Some (Some (f\<lparr>fl_resolver := v\<rparr>))
      else if name = ''profile'' then Some (Some (f\<lparr>fl_profile := v\<rparr>))
      else if name = ''fail-on'' then Some (Some (f\<lparr>fl_failon := v\<rparr>))
      else if name = ''timeout'' then Some (map_option (\<lambda>d. f\<lparr>fl_timeout := d\<rparr>) (parseDuration V v))
      else if name = ''max-qps'' then Some (map_option (\<lambda>d. f\<lparr>fl_maxqps := d\<rparr>) (parseInt V v))
      else if name = ''max-queries'' then Some (map_option (\<lambda>d. f\<lparr>fl_maxqueries := d\<rparr>) (parseInt V v))
      else None)"

datatype flag_error = HelpRequested | BadFlag

text \<open>The name and the value of a flag, after its one or two dashes.\<close>

definition flagBody :: "string \<Rightarrow> string" where
  "flagBody s = (if has_prefix s ''--'' then drop 2 s else drop 1 s)"

text \<open>An equals sign at the first position is no separator but a syntax error.\<close>

definition splitFlag :: "string \<Rightarrow> string \<times> string option" where
  "splitFlag body = (case cut_at CHR ''='' body of None \<Rightarrow> (body, None) | Some (n, v) \<Rightarrow> (n, Some v))"

fun parseFlags :: "value_lib \<Rightarrow> string list \<Rightarrow> flags \<Rightarrow> flag_error + (flags \<times> string list)" where
  "parseFlags V [] f = Inr (f, [])"
| "parseFlags V (s # args) f =
     (if length s < 2 \<or> \<not> has_prefix s ''-'' then Inr (f, s # args)
      else if s = ''--'' then Inr (f, args)
      else let body = flagBody s; (name, v) = splitFlag body in
        if body = '''' \<or> has_prefix body ''-'' \<or> has_prefix body ''='' then Inl BadFlag
        else if name \<in> set boolFlags then
          (case v of None \<Rightarrow> parseFlags V args (setBool name True f)
           | Some t \<Rightarrow> (case parseBool t of None \<Rightarrow> Inl BadFlag
               | Some b \<Rightarrow> parseFlags V args (setBool name b f)))
        else if setValue V name '''' f = None then
          Inl (if name = ''help'' \<or> name = ''h'' then HelpRequested else BadFlag)
        else (case v of
            Some t \<Rightarrow> (case setValue V name t f of Some (Some f') \<Rightarrow> parseFlags V args f' | _ \<Rightarrow> Inl BadFlag)
          | None \<Rightarrow> (case args of [] \<Rightarrow> Inl BadFlag
              | t # rest \<Rightarrow> (case setValue V name t f of
                  Some (Some f') \<Rightarrow> parseFlags V rest f' | _ \<Rightarrow> Inl BadFlag))))"

section \<open>The run\<close>

datatype cli_error = FlagError string | NoDomain | UnknownFormat string | UnknownFailOn string
  | RenderError | ThresholdReached

text \<open>The message of an error.\<close>

fun errorText :: "value_lib \<Rightarrow> cli_error \<Rightarrow> string" where
  "errorText V (FlagError t) = t"
| "errorText V NoDomain = ''no domain specified''"
| "errorText V (UnknownFormat s) = ''unknown format '' @ quoted V s @ '' (want human, json, or sarif)''"
| "errorText V (UnknownFailOn s) = ''unknown --fail-on value '' @ quoted V s"
| "errorText V RenderError = renderText V"
| "errorText V ThresholdReached = ''findings at or above threshold''"

text \<open>The lines of \<^verbatim>\<open>fs.Usage\<close>, around the defaults that the library prints; both go to the error stream.\<close>

definition usage :: "value_lib \<Rightarrow> string list" where
  "usage V =
     [''zonelint '' @ [CHR 0xE2, CHR 0x80, CHR 0x94] @ '' read-only DNS audit tool'' @ newline,
      newline @ ''Usage:'' @ newline,
      ''  zonelint [flags] <domain> [<domain> ...]'' @ newline,
      newline @ ''Flags:'' @ newline,
      flagDefaults V,
      newline @ ''Exit codes:'' @ newline,
      ''  0  no findings at or above the --fail-on threshold'' @ newline,
      ''  1  an error occurred, or a finding at or above the'' @ newline,
      ''     --fail-on threshold was reported'' @ newline]"

definition chooseFormat :: "flags \<Rightarrow> string" where
  "chooseFormat f = (if fl_format f \<noteq> '''' then fl_format f
     else if fl_json f then FormatJSON else FormatHuman)"

definition auditOptions :: "flags \<Rightarrow> options" where
  "auditOptions f = \<lparr>opt_resolver = fl_resolver f, opt_profile = fl_profile f, opt_timeout = fl_timeout f,
     opt_maxqps = fl_maxqps f, opt_maxqueries = fl_maxqueries f, opt_active = fl_active f,
     opt_showaxfr = fl_showaxfr f\<rparr>"

text \<open>\<^term>\<open>Inr\<close> of the threshold, zero when none is given.\<close>

definition failThreshold :: "flags \<Rightarrow> cli_error + severity" where
  "failThreshold f = (if fl_failon f = '''' then Inr 0
     else case parseSeverity (to_lower (fl_failon f)) of
         None \<Rightarrow> Inl (UnknownFailOn (fl_failon f)) | Some v \<Rightarrow> Inr v)"

text \<open>
  What \<^verbatim>\<open>writeReport\<close> writes to the error stream, and to the output, \<^term>\<open>None\<close> when the report
  cannot be encoded. The text of the duration is an argument; \<open>--no-color\<close> is passed and not used.
\<close>

definition verboseLine :: "string \<Rightarrow> string \<Rightarrow> audit_result \<Rightarrow> string" where
  "verboseLine duration domain res =
     ''audited '' @ domain @ '': '' @ int_str (ar_queries res) @ '' queries, '' @ int_str (ar_records res)
       @ '' records, '' @ nat_str (sum_total (buildSummary (ar_findings res))) @ '' findings ('' @ duration @ ''ms)'' @ newline"

definition writeReport :: "(json \<Rightarrow> string option) \<Rightarrow> flags \<Rightarrow> string \<Rightarrow> string \<Rightarrow> string \<Rightarrow> audit_result
    \<Rightarrow> string list \<times> string option" where
  "writeReport marshal f duration domain format res =
     (if fl_verbose f \<and> \<not> fl_quiet f then [verboseLine duration domain res] else [],
      render marshal domain format (buildSummary (ar_findings res)) (ar_findings res) (ar_queries res) (ar_records res))"

text \<open>
  What surrounds the audit of one domain: its environment, the system's resolver file, the wire
  and the clock at its start, and the text of how long it took. \<^verbatim>\<open>audit.New(domain, opts).Run(ctx)\<close>
  builds a network resolver with a budget of its own and runs the audit on it.
\<close>

record world =
  wd_env :: env
  wd_conf :: "string list option"
  wd_wire :: "int \<Rightarrow> msg \<Rightarrow> wire"
  wd_now :: int
  wd_took :: string

definition auditDomain :: "(nat \<Rightarrow> world) \<Rightarrow> options \<Rightarrow> nat \<Rightarrow> string \<Rightarrow> audit_result" where
  "auditDomain W opt i domain =
     (let w = W i in fst (run (wd_env w) (netResolver (wd_conf w) (wd_wire w)) opt domain
        \<lparr>rn_queries = 0, rn_res = newNetwork (wd_now w) (auditConfig (wd_conf w) opt)\<rparr>))"

text \<open>A result: the texts on the output and on the error stream, and the error, \<^term>\<open>None\<close> for a nil one.\<close>

record cli_result =
  co_out :: "string list"
  co_err :: "string list"
  co_error :: "cli_error option"

text \<open>The loop over the domains from the \<open>i\<close>-th on, with the exit code so far.\<close>

fun domainLoop :: "(json \<Rightarrow> string option) \<Rightarrow> (nat \<Rightarrow> world) \<Rightarrow> flags \<Rightarrow> severity \<Rightarrow> nat \<Rightarrow> bool
    \<Rightarrow> string list \<Rightarrow> cli_result" where
  "domainLoop marshal W f threshold i hit [] =
     \<lparr>co_out = [], co_err = [], co_error = (if hit then Some ThresholdReached else None)\<rparr>"
| "domainLoop marshal W f threshold i hit (d # ds) =
     (let res = auditDomain W (auditOptions f) i d in
      case writeReport marshal f (wd_took (W i)) d (chooseFormat f) res of
        (err, None) \<Rightarrow> \<lparr>co_out = [], co_err = err, co_error = Some RenderError\<rparr>
      | (err, Some t) \<Rightarrow>
          (let hit' = (hit \<or> 0 < threshold \<and> list_ex (\<lambda>x. threshold \<le> f_severity x) (ar_findings res));
               r = domainLoop marshal W f threshold (Suc i) hit' ds
           in r\<lparr>co_out := t # co_out r, co_err := err @ co_err r\<rparr>))"

text \<open>\<^verbatim>\<open>run\<close>: a flag that does not parse has its message and the usage printed by the library.\<close>

definition cliRun :: "value_lib \<Rightarrow> (json \<Rightarrow> string option) \<Rightarrow> version_info \<Rightarrow> (nat \<Rightarrow> world)
    \<Rightarrow> string list \<Rightarrow> cli_result" where
  "cliRun V marshal vi W args =
     (case parseFlags V args defaultFlags of
        Inl HelpRequested \<Rightarrow> \<lparr>co_out = [], co_err = usage V, co_error = None\<rparr>
      | Inl BadFlag \<Rightarrow>
          \<lparr>co_out = [], co_err = (badFlagText V args @ newline) # usage V,
           co_error = Some (FlagError (badFlagText V args))\<rparr>
      | Inr (f, domains) \<Rightarrow>
        (let showVersion = \<lparr>co_out = [''zonelint '' @ versionString vi @ newline], co_err = [], co_error = None\<rparr> in
         if fl_version f then showVersion
         else if length domains = 0 then \<lparr>co_out = [], co_err = usage V, co_error = Some NoDomain\<rparr>
         else if domains = [''version''] then showVersion
         else (let format = chooseFormat f in
           if format \<noteq> FormatHuman \<and> format \<noteq> FormatJSON \<and> format \<noteq> FormatSARIF
           then \<lparr>co_out = [], co_err = [], co_error = Some (UnknownFormat (fl_format f))\<rparr>
           else (case failThreshold f of
               Inl e \<Rightarrow> \<lparr>co_out = [], co_err = [], co_error = Some e\<rparr>
             | Inr threshold \<Rightarrow> domainLoop marshal W f threshold 0 False domains))))"

text \<open>\<^verbatim>\<open>main\<close>: the output, the error stream and the exit status of the process.\<close>

definition cliMain :: "value_lib \<Rightarrow> (json \<Rightarrow> string option) \<Rightarrow> version_info \<Rightarrow> (nat \<Rightarrow> world)
    \<Rightarrow> string list \<Rightarrow> string list \<times> string list \<times> nat" where
  "cliMain V marshal vi W args =
     (let r = cliRun V marshal vi W args in
      case co_error r of
        None \<Rightarrow> (co_out r, co_err r, 0)
      | Some e \<Rightarrow> (co_out r, co_err r @ [''error: '' @ errorText V e @ newline], 1))"

section \<open>Lemmas\<close>

lemma bex_enumerate: "(\<exists>x \<in> set (enumerate 0 xs). P x) \<longleftrightarrow> (\<exists>i < length xs. P (i, xs ! i))"
  by (auto simp: enumerate_eq_zip set_zip) (metis add_0 nth_upt)

text \<open>What \<^verbatim>\<open>writeReport\<close> is called with for the \<open>i\<close>-th domain.\<close>

definition domainReport :: "(json \<Rightarrow> string option) \<Rightarrow> (nat \<Rightarrow> world) \<Rightarrow> flags \<Rightarrow> nat \<times> string
    \<Rightarrow> string list \<times> string option" where
  "domainReport marshal W f = (\<lambda>(i, d).
     writeReport marshal f (wd_took (W i)) d (chooseFormat f) (auditDomain W (auditOptions f) i d))"

definition reaches :: "severity \<Rightarrow> (nat \<Rightarrow> world) \<Rightarrow> flags \<Rightarrow> nat \<times> string \<Rightarrow> bool" where
  "reaches t W f = (\<lambda>(i, d). 0 < t \<and> (\<exists>x \<in> set (ar_findings (auditDomain W (auditOptions f) i d)). t \<le> f_severity x))"

lemma domainLoop_ok:
  "(\<And>x. x \<in> set (enumerate i ds) \<Longrightarrow> snd (domainReport marshal W f x) \<noteq> None) \<Longrightarrow>
     domainLoop marshal W f t i hit ds =
       \<lparr>co_out = map (the \<circ> snd \<circ> domainReport marshal W f) (enumerate i ds),
        co_err = concat (map (fst \<circ> domainReport marshal W f) (enumerate i ds)),
        co_error = (if hit \<or> (\<exists>x \<in> set (enumerate i ds). reaches t W f x) then Some ThresholdReached else None)\<rparr>"
proof (induction ds arbitrary: i hit)
  case (Cons d ds)
  obtain err s where "domainReport marshal W f (i, d) = (err, Some s)"
    using Cons.prems [of "(i, d)"] by (cases "domainReport marshal W f (i, d)") auto
  with Cons show ?case by (auto simp: domainReport_def reaches_def Let_def list_ex_iff)
qed simp

text \<open>
  C34. A run of the program with accepted arguments whose reports can all be encoded: it writes the
  report of every domain in their order to the output and nothing else; with \<^verbatim>\<open>--fail-on\<close> it ends
  with status one, and the line that says so, exactly when the audit of some domain has a finding
  at or above the severity given; without a severity it ends with zero.
\<close>

theorem exit_status_threshold:
  assumes "parseFlags V args defaultFlags = Inr (f, domains)" and "\<not> fl_version f"
    and "domains \<noteq> []" "domains \<noteq> [''version'']"
    and "chooseFormat f \<in> {FormatHuman, FormatJSON, FormatSARIF}" and "failThreshold f = Inr t"
    and "\<And>x. x \<in> set (enumerate 0 domains) \<Longrightarrow> snd (domainReport marshal W f x) \<noteq> None"
  shows "let audit = auditDomain W (auditOptions f);
             hit = (fl_failon f \<noteq> '''' \<and> (\<exists>i < length domains. \<exists>x \<in> set (ar_findings (audit i (domains ! i))). t \<le> f_severity x))
    in cliMain V marshal vi W args =
      (map (the \<circ> snd \<circ> domainReport marshal W f) (enumerate 0 domains),
       concat (map (fst \<circ> domainReport marshal W f) (enumerate 0 domains)) @
         (if hit then [''error: findings at or above threshold'' @ newline] else []),
       if hit then 1 else 0)"
proof -
  have t: "0 < t \<longleftrightarrow> fl_failon f \<noteq> ''''"
    using assms(6) by (auto simp: failThreshold_def parseSeverity_def severityNames_def severity_defs
        split: if_splits option.splits)
  have "(\<exists>x \<in> set (enumerate 0 domains). reaches t W f x) \<longleftrightarrow> fl_failon f \<noteq> '''' \<and>
      (\<exists>i < length domains. \<exists>x \<in> set (ar_findings (auditDomain W (auditOptions f) i (domains ! i))). t \<le> f_severity x)"
    unfolding reaches_def t bex_enumerate by auto
  then show ?thesis
    using assms(1-6) domainLoop_ok [of 0 domains marshal W f t False, OF assms(7)]
    by (auto simp: cliMain_def cliRun_def Let_def)
qed

text \<open>The switches that only concern the error stream.\<close>

definition same_but_noise :: "flags \<Rightarrow> flags \<Rightarrow> bool" where
  "same_but_noise f g \<longleftrightarrow> (\<exists>v q n. g = f\<lparr>fl_verbose := v, fl_quiet := q, fl_nocolor := n\<rparr>)"

lemma noise_loop:
  "let g = f\<lparr>fl_verbose := v, fl_quiet := q, fl_nocolor := n\<rparr>;
       r = domainLoop marshal W f t i hit ds; r' = domainLoop marshal W g t i hit ds
   in co_out r' = co_out r \<and> co_error r' = co_error r \<and> (\<not> v \<or> q \<longrightarrow> co_err r' = [])"
  by (induction ds arbitrary: i hit)
    (auto simp: Let_def writeReport_def auditOptions_def chooseFormat_def split: option.splits)

lemma noise_run:
  assumes "parseFlags V args defaultFlags = Inr (f, domains)" and "parseFlags V args' defaultFlags = Inr (g, domains)"
    and "same_but_noise f g"
  shows "co_out (cliRun V marshal vi W args') = co_out (cliRun V marshal vi W args)"
    and "co_error (cliRun V marshal vi W args') = co_error (cliRun V marshal vi W args)"
    and "\<not> fl_verbose g \<or> fl_quiet g \<Longrightarrow>
      co_err (cliRun V marshal vi W args') = (if domains = [] \<and> \<not> fl_version g then usage V else [])"
proof -
  obtain v q n where g: "g = f\<lparr>fl_verbose := v, fl_quiet := q, fl_nocolor := n\<rparr>"
    using assms(3) by (auto simp: same_but_noise_def)
  have l: "co_out (domainLoop marshal W g t i hit ds) = co_out (domainLoop marshal W f t i hit ds)"
    "co_error (domainLoop marshal W g t i hit ds) = co_error (domainLoop marshal W f t i hit ds)"
    "\<not> v \<or> q \<Longrightarrow> co_err (domainLoop marshal W g t i hit ds) = []" for t i hit ds
    using noise_loop [where f = f and v = v and q = q and n = n and W = W and t = t and i = i and hit = hit and ds = ds and marshal = marshal] by (simp_all add: g Let_def)
  have same: "fl_version g = fl_version f" "chooseFormat g = chooseFormat f" "fl_format g = fl_format f"
    "failThreshold g = failThreshold f" "fl_verbose g = v" "fl_quiet g = q"
    by (simp_all add: g chooseFormat_def failThreshold_def split: option.split)
  show "co_out (cliRun V marshal vi W args') = co_out (cliRun V marshal vi W args)"
    "co_error (cliRun V marshal vi W args') = co_error (cliRun V marshal vi W args)"
    by (simp_all add: cliRun_def assms same l Let_def split: sum.split)
  show "co_err (cliRun V marshal vi W args') = (if domains = [] \<and> \<not> fl_version g then usage V else [])"
    if "\<not> fl_verbose g \<or> fl_quiet g"
    using that l(3) by (simp add: cliRun_def assms same Let_def split: sum.split)
qed

text \<open>
  C36. \<^verbatim>\<open>--verbose\<close>, \<^verbatim>\<open>--quiet\<close> and \<^verbatim>\<open>--no-color\<close> change neither the output nor the exit status: two
  command lines that are accepted and differ in them alone write the same reports and end alike.
  Without \<^verbatim>\<open>--verbose\<close>, or with \<^verbatim>\<open>--quiet\<close>, the error stream holds the usage text when
  there is no domain and no \<^verbatim>\<open>--version\<close>, then the line of the error exactly when the exit
  status is one, and nothing else.
\<close>

theorem noise_flags:
  assumes "parseFlags V args defaultFlags = Inr (f, domains)" and "parseFlags V args' defaultFlags = Inr (g, domains)"
    and "same_but_noise f g"
  shows "fst (cliMain V marshal vi W args') = fst (cliMain V marshal vi W args) \<and>
    snd (snd (cliMain V marshal vi W args')) = snd (snd (cliMain V marshal vi W args)) \<and>
    (\<not> fl_verbose g \<or> fl_quiet g \<longrightarrow>
       (\<exists>t. fst (snd (cliMain V marshal vi W args')) =
          (if domains = [] \<and> \<not> fl_version g then usage V else []) @
          (if snd (snd (cliMain V marshal vi W args')) = 1 then [''error: '' @ t @ newline] else [])))"
  using noise_run [OF assms] by (auto simp: cliMain_def Let_def split: option.split)

section \<open>The language of the flags\<close>

text \<open>One setting on the command line, the ways to write it, and what it does to the flags.\<close>

datatype setting = Switch string bool | Value string string

definition valueFlags :: "string list" where
  "valueFlags = [''format'', ''resolver'', ''profile'', ''fail-on'', ''timeout'', ''max-qps'', ''max-queries'']"

inductive spelling :: "setting \<Rightarrow> string list \<Rightarrow> bool" where
  switch: "name \<in> set boolFlags \<Longrightarrow> dash \<in> {''-'', ''--''} \<Longrightarrow> spelling (Switch name True) [dash @ name]"
| switch_to: "name \<in> set boolFlags \<Longrightarrow> dash \<in> {''-'', ''--''} \<Longrightarrow> parseBool t = Some b \<Longrightarrow>
    spelling (Switch name b) [dash @ name @ CHR ''='' # t]"
| joined: "name \<in> set valueFlags \<Longrightarrow> dash \<in> {''-'', ''--''} \<Longrightarrow> spelling (Value name t) [dash @ name @ CHR ''='' # t]"
| apart: "name \<in> set valueFlags \<Longrightarrow> dash \<in> {''-'', ''--''} \<Longrightarrow> spelling (Value name t) [dash @ name, t]"

fun applySetting :: "value_lib \<Rightarrow> setting \<Rightarrow> flags \<Rightarrow> flags option" where
  "applySetting V (Switch name b) f = Some (setBool name b f)"
| "applySetting V (Value name t) f = (case setValue V name t f of None \<Rightarrow> None | Some r \<Rightarrow> r)"

fun applySettings :: "value_lib \<Rightarrow> setting list \<Rightarrow> flags \<Rightarrow> flags option" where
  "applySettings V [] f = Some f"
| "applySettings V (x # xs) f = (case applySetting V x f of None \<Rightarrow> None | Some f' \<Rightarrow> applySettings V xs f')"

text \<open>Where the flags end: at \<^verbatim>\<open>--\<close>, which is dropped, or at the first argument that is not a flag.\<close>

definition flag_like :: "string \<Rightarrow> bool" where
  "flag_like s \<longleftrightarrow> 2 \<le> length s \<and> has_prefix s ''-''"

definition ends_flags :: "string list \<Rightarrow> string list \<Rightarrow> bool" where
  "ends_flags rest domains \<longleftrightarrow> rest = ''--'' # domains \<or>
     rest = domains \<and> (case domains of [] \<Rightarrow> True | d # _ \<Rightarrow> \<not> flag_like d)"

lemma flag_names:
  assumes "name \<in> set (boolFlags @ valueFlags)"
  shows "name \<noteq> []" "\<not> has_prefix (name @ x) ''-''" "\<not> has_prefix (name @ x) ''=''" "CHR ''='' \<notin> set name"
    "hd (name @ x) \<noteq> CHR ''-''"
  using assms by (auto simp: boolFlags_def valueFlags_def has_prefix_def)

lemma splitFlag_iff:
  "splitFlag body = (name, v) \<longleftrightarrow> CHR ''='' \<notin> set name \<and> body = (case v of None \<Rightarrow> name | Some t \<Rightarrow> name @ CHR ''='' # t)"
proof (cases "cut_at CHR ''='' body")
  case None
  then show ?thesis using None [unfolded cut_at_None] by (cases v) (auto simp: splitFlag_def)
next
  case (Some p)
  obtain a b where p: "p = (a, b)" by fastforce
  note c = Some [unfolded p]
  from c [unfolded cut_at_Some] show ?thesis
    using cut_at_Some [of "CHR ''=''" body name "the v"] c by (cases v) (auto simp: splitFlag_def)
qed

lemma split_name:
  assumes "name \<in> set (boolFlags @ valueFlags)"
  shows "splitFlag name = (name, None)" "splitFlag (name @ CHR ''='' # t) = (name, Some t)"
  unfolding splitFlag_iff using flag_names(4) [OF assms] by simp_all

text \<open>A flag after its dashes.\<close>

lemma flag_dashes:
  assumes "dash \<in> {''-'', ''--''}" and "name \<in> set (boolFlags @ valueFlags)"
  shows "\<not> (length (dash @ name @ x) < 2 \<or> \<not> has_prefix (dash @ name @ x) ''-'')" "dash @ name @ x \<noteq> ''--''"
    "flagBody (dash @ name @ x) = name @ x"
proof -
  obtain c w where n: "name @ x = c # w" "c \<noteq> CHR ''-''"
    using flag_names(1) [OF assms(2)] flag_names(5) [OF assms(2), of x] by (cases "name @ x") auto
  show "\<not> (length (dash @ name @ x) < 2 \<or> \<not> has_prefix (dash @ name @ x) ''-'')" "dash @ name @ x \<noteq> ''--''"
    "flagBody (dash @ name @ x) = name @ x"
    unfolding n(1) using assms(1) n(2) by (auto simp: has_prefix_def flagBody_def)
qed

lemma setValue_names: "setValue V name t f = None \<longleftrightarrow> name \<notin> set valueFlags"
  by (simp add: setValue_def valueFlags_def)

lemma value_not_bool: "name \<in> set valueFlags \<Longrightarrow> name \<notin> set boolFlags"
  by (auto simp: valueFlags_def boolFlags_def)

lemma parse_spelling:
  assumes "spelling x sp"
  shows "parseFlags V (sp @ rest) f = (case applySetting V x f of None \<Rightarrow> Inl BadFlag | Some f' \<Rightarrow> parseFlags V rest f')"
  using assms
proof cases
  case (switch name dash)
  then have n: "name \<in> set (boolFlags @ valueFlags)" by simp
  note d = flag_dashes [OF switch(4) n, of "[]", simplified]
    and m = flag_names(1) [OF n] flag_names(2,3) [OF n, of "[]", simplified]
  show ?thesis using switch d m split_name(1) [OF n] by (simp add: Let_def)
next
  case (switch_to name dash t b)
  then have n: "name \<in> set (boolFlags @ valueFlags)" by simp
  note d = flag_dashes [OF switch_to(4) n, of "CHR ''='' # t"]
    and m = flag_names(1) [OF n] flag_names(2,3) [OF n, of "CHR ''='' # t"]
  show ?thesis using switch_to d m split_name(2) [OF n, of t] by (simp add: Let_def)
next
  case (joined name dash t)
  then have n: "name \<in> set (boolFlags @ valueFlags)" by simp
  note d = flag_dashes [OF joined(4) n, of "CHR ''='' # t"]
    and m = flag_names(1) [OF n] flag_names(2,3) [OF n, of "CHR ''='' # t"]
  show ?thesis using joined d m split_name(2) [OF n, of t] value_not_bool [OF joined(3)]
    by (simp add: Let_def setValue_names split: option.split)
next
  case (apart name dash t)
  then have n: "name \<in> set (boolFlags @ valueFlags)" by simp
  note d = flag_dashes [OF apart(4) n, of "[]", simplified]
    and m = flag_names(1) [OF n] flag_names(2,3) [OF n, of "[]", simplified]
  show ?thesis using apart d m split_name(1) [OF n] value_not_bool [OF apart(3)]
    by (simp add: Let_def setValue_names split: option.split)
qed

lemma parse_end: "ends_flags rest domains \<Longrightarrow> parseFlags V rest f = Inr (f, domains)"
  by (auto simp: ends_flags_def flag_like_def has_prefix_def split: list.splits)

lemma parse_settings:
  assumes "list_all2 spelling xs sps" and "applySettings V xs f = Some g" and "ends_flags rest domains"
  shows "parseFlags V (concat sps @ rest) f = Inr (g, domains)"
  using assms
proof (induction xs sps arbitrary: f rule: list_all2_induct)
  case (Cons x xs sp sps)
  then show ?case using parse_spelling [OF Cons.hyps(1), of V "concat sps @ rest" f] by (simp split: option.splits)
qed (simp add: parse_end)

text \<open>An argument whose body names a flag is a spelling's first argument.\<close>

lemma dashed:
  assumes "has_prefix s ''-''"
  obtains dash where "dash \<in> {''-'', ''--''}" "s = dash @ flagBody s"
proof (cases "has_prefix s ''--''")
  case True
  then show ?thesis using that [of "''--''"] by (auto simp: has_prefix_iff flagBody_def has_prefix_def)
next
  case False
  then show ?thesis using that [of "''-''"] assms by (auto simp: has_prefix_iff flagBody_def has_prefix_def)
qed

lemma boolean_argument:
  assumes "has_prefix s ''-''" and "splitFlag (flagBody s) = (name, v)" and "name \<in> set boolFlags"
    and "case v of None \<Rightarrow> b = True | Some t \<Rightarrow> parseBool t = Some b"
  shows "spelling (Switch name b) [s]"
proof -
  obtain dash where d: "dash \<in> {''-'', ''--''}" "s = dash @ flagBody s" using assms(1) by (rule dashed)
  have body: "flagBody s = (case v of None \<Rightarrow> name | Some t \<Rightarrow> name @ CHR ''='' # t)"
    using assms(2) unfolding splitFlag_iff by blast
  show ?thesis
  proof (cases v)
    case None
    then show ?thesis using spelling.switch [OF assms(3) d(1)] d(2) body assms(4) by simp
  next
    case (Some t)
    then show ?thesis using spelling.switch_to [OF assms(3) d(1), of t b] d(2) body assms(4) by simp
  qed
qed

lemma value_argument:
  assumes "has_prefix s ''-''" and "splitFlag (flagBody s) = (name, v)" and "name \<in> set valueFlags"
  shows "v = Some t \<Longrightarrow> spelling (Value name t) [s]" and "v = None \<Longrightarrow> spelling (Value name t) [s, t]"
proof -
  obtain dash where d: "dash \<in> {''-'', ''--''}" "s = dash @ flagBody s" using assms(1) by (rule dashed)
  have body: "flagBody s = (case v of None \<Rightarrow> name | Some t \<Rightarrow> name @ CHR ''='' # t)"
    using assms(2) unfolding splitFlag_iff by blast
  show "spelling (Value name t) [s]" if "v = Some t"
    using spelling.joined [OF assms(3) d(1), of t] d(2) body that by simp
  show "spelling (Value name t) [s, t]" if "v = None"
    using spelling.apart [OF assms(3) d(1), of t] d(2) body that by simp
qed

text \<open>A command line: the spellings of settings, then the end of the flags.\<close>

definition command_line :: "value_lib \<Rightarrow> flags \<Rightarrow> string list \<Rightarrow> flags \<Rightarrow> string list \<Rightarrow> bool" where
  "command_line V f args g domains \<longleftrightarrow> (\<exists>xs sps rest. list_all2 spelling xs sps \<and> args = concat sps @ rest \<and>
     applySettings V xs f = Some g \<and> ends_flags rest domains)"

lemma command_line_end: "ends_flags rest domains \<Longrightarrow> command_line V f rest f domains"
  unfolding command_line_def by (intro exI [of _ "[]"] exI [of _ rest]) simp

lemma command_line_step:
  assumes "spelling x sp" and "applySetting V x f = Some f'" and "command_line V f' rest g domains"
  shows "command_line V f (sp @ rest) g domains"
proof -
  obtain xs sps tail where "list_all2 spelling xs sps" "rest = concat sps @ tail" "applySettings V xs f' = Some g" "ends_flags tail domains"
    using assms(3) unfolding command_line_def by blast
  then show ?thesis
    unfolding command_line_def using assms(1,2) by (intro exI [of _ "x # xs"] exI [of _ "sp # sps"] exI [of _ tail]) simp
qed

lemma parse_command_line: "parseFlags V args f = Inr (g, domains) \<Longrightarrow> command_line V f args g domains"
proof (induction "length args" arbitrary: args f rule: less_induct)
  case less
  show ?case
  proof (cases args)
    case Nil
    then show ?thesis using less.prems command_line_end [of "[]" domains V f] by (auto simp: ends_flags_def)
  next
    case (Cons s rest)
    obtain name v where nv: "splitFlag (flagBody s) = (name, v)" by fastforce
    note parse = less.prems [unfolded Cons parseFlags.simps(2) Let_def nv prod.case]
    show ?thesis
    proof (cases "length s < 2 \<or> \<not> has_prefix s ''-'' \<or> s = ''--''")
      case True
      then have "ends_flags args domains" "g = f"
        using parse by (auto simp: Cons ends_flags_def flag_like_def split: if_splits)
      then show ?thesis using command_line_end by blast
    next
      case False
      then have dash: "has_prefix s ''-''" by blast
      show ?thesis
      proof (cases "name \<in> set boolFlags")
        case True
        then obtain b where b: "case v of None \<Rightarrow> b = True | Some t \<Rightarrow> parseBool t = Some b"
          and p: "parseFlags V rest (setBool name b f) = Inr (g, domains)"
          using parse False by (auto split: if_splits option.splits)
        note sp = boolean_argument [OF dash nv True b]
        from command_line_step [OF sp, of V f _ rest] less.hyps [OF _ p] show ?thesis by (simp add: Cons)
      next
        case nb: False
        then have name: "name \<in> set valueFlags" using parse False by (auto simp: setValue_names split: if_splits)
        show ?thesis
        proof (cases v)
          case None
          then obtain t tail f' where t: "rest = t # tail" "setValue V name t f = Some (Some f')"
            and p: "parseFlags V tail f' = Inr (g, domains)"
            using parse False nb name by (auto simp: setValue_names split: if_splits option.splits list.splits)
          note sp = value_argument(2) [OF dash nv name None, of t]
          from command_line_step [OF sp, of V f f' tail] less.hyps [OF _ p] t show ?thesis by (simp add: Cons)
        next
          case (Some t)
          then obtain f' where t: "setValue V name t f = Some (Some f')" and p: "parseFlags V rest f' = Inr (g, domains)"
            using parse False nb name by (auto simp: setValue_names split: if_splits option.splits)
          note sp = value_argument(1) [OF dash nv name Some]
          from command_line_step [OF sp, of V f f' rest] less.hyps [OF _ p] t show ?thesis by (simp add: Cons)
        qed
      qed
    qed
  qed
qed

text \<open>
  C35. The parser of the command line accepts exactly the command lines made of settings and then the
  domains, and gives the flags that the settings leave, applied in their order. A setting has
  one dash or two before its name. A switch stands alone or has a boolean text after an equals
  sign, never in the next argument; any other flag has its value after an equals sign or in the
  next argument, and a number or a duration must be one. The settings end at \<^verbatim>\<open>--\<close>, which is
  dropped, or at the first argument that does not start with a dash or is a dash alone, and
  everything from there on is a domain.
\<close>

theorem flags_language:
  "(parseFlags V args f = Inr (g, domains)) =
     (\<exists>xs sps rest. list_all2 spelling xs sps \<and> args = concat sps @ rest \<and>
        applySettings V xs f = Some g \<and> ends_flags rest domains)"
  using parse_command_line [of V args f g domains] parse_settings [of _ _ V f g _ domains]
  unfolding command_line_def by blast

theorem flags_language_witness:
  "\<forall>V. parseFlags V [''--fail-on'', ''high'', ''-json=true'', ''--profile=a=b'', ''-quiet'', ''example.com'', ''--active''] defaultFlags =
     Inr (defaultFlags\<lparr>fl_failon := ''high'', fl_json := True, fl_profile := ''a=b'', fl_quiet := True\<rparr>, [''example.com'', ''--active'']) \<and>
   parseFlags V [''-json'', ''false''] defaultFlags = Inr (defaultFlags\<lparr>fl_json := True\<rparr>, [''false''])"
proof
  fix V
  have spelled: "spelling (Value ''fail-on'' ''high'') [''--fail-on'', ''high'']" "spelling (Switch ''json'' True) [''-json=true'']"
    "spelling (Value ''profile'' ''a=b'') [''--profile=a=b'']" "spelling (Switch ''quiet'' True) [''-quiet'']"
    "spelling (Switch ''json'' True) [''-json'']"
    using spelling.apart [of "''fail-on''" "''--''" "''high''"] spelling.switch_to [of "''json''" "''-''" "''true''" True]
      spelling.joined [of "''profile''" "''--''" "''a=b''"] spelling.switch [of "''quiet''" "''-''"] spelling.switch [of "''json''" "''-''"]
    by (simp_all add: boolFlags_def valueFlags_def parseBool_def)
  show "parseFlags V [''--fail-on'', ''high'', ''-json=true'', ''--profile=a=b'', ''-quiet'', ''example.com'', ''--active''] defaultFlags =
     Inr (defaultFlags\<lparr>fl_failon := ''high'', fl_json := True, fl_profile := ''a=b'', fl_quiet := True\<rparr>, [''example.com'', ''--active'']) \<and>
   parseFlags V [''-json'', ''false''] defaultFlags = Inr (defaultFlags\<lparr>fl_json := True\<rparr>, [''false''])"
    unfolding flags_language
  proof (intro conjI)
    show "\<exists>xs sps rest. list_all2 spelling xs sps \<and>
        [''--fail-on'', ''high'', ''-json=true'', ''--profile=a=b'', ''-quiet'', ''example.com'', ''--active''] = concat sps @ rest \<and>
        applySettings V xs defaultFlags = Some (defaultFlags\<lparr>fl_failon := ''high'', fl_json := True, fl_profile := ''a=b'', fl_quiet := True\<rparr>) \<and>
        ends_flags rest [''example.com'', ''--active'']"
      by (rule exI [of _ "[Value ''fail-on'' ''high'', Switch ''json'' True, Value ''profile'' ''a=b'', Switch ''quiet'' True]"],
          rule exI [of _ "[[''--fail-on'', ''high''], [''-json=true''], [''--profile=a=b''], [''-quiet'']]"],
          rule exI [of _ "[''example.com'', ''--active'']"])
        (simp add: spelled ends_flags_def flag_like_def has_prefix_def setBool_def setValue_def defaultFlags_def)
    show "\<exists>xs sps rest. list_all2 spelling xs sps \<and> [''-json'', ''false''] = concat sps @ rest \<and>
        applySettings V xs defaultFlags = Some (defaultFlags\<lparr>fl_json := True\<rparr>) \<and> ends_flags rest [''false'']"
      by (rule exI [of _ "[Switch ''json'' True]"], rule exI [of _ "[[''-json'']]"], rule exI [of _ "[''false'']"])
        (simp add: spelled ends_flags_def flag_like_def has_prefix_def setBool_def)
  qed
qed

text \<open>
  Flags stand before the domains: parsing ends at the first argument that is not a flag, and that
  argument and everything after it, dashes or not, are taken as domains.
\<close>

theorem flags_end_at_domain:
  assumes "\<not> has_prefix d ''-''"
  shows "parseFlags V (d # rest) f = Inr (f, d # rest)"
  using assms by simp

theorem flags_end_at_domain_witness:
  "parseFlags V [''example.com'', ''--json''] f = Inr (f, [''example.com'', ''--json''])"
  by (rule flags_end_at_domain) (simp add: has_prefix_def)

text \<open>A world in which every send fails: the audit reports the error and nothing else.\<close>

definition ex_wire :: wire where
  "ex_wire = \<lparr>wr_send = (\<lambda>_ _ _. Inl Canceled), wr_ctx = (\<lambda>_. None), wr_turns = [(0, False)],
     wr_cancelled = False, wr_transfer = Inl Canceled\<rparr>"

definition ex_world :: "nat \<Rightarrow> world" where
  "ex_world i = \<lparr>wd_env = \<lparr>e_lib = plain_lib, e_crypto = ex_crypto, e_now = 0,
     e_date = \<lparr>d_year = 2024, d_month = 5, d_day = 11\<rparr>, e_probe1 = None, e_probe2 = None, e_rec = (\<lambda>_. None)\<rparr>,
     wd_conf = None, wd_wire = (\<lambda>_ _. ex_wire), wd_now = 0, wd_took = ''0.1''\<rparr>"

lemma attempts_all_fail:
  "(\<And>i t. ex i t = Inl e) \<Longrightarrow> snd (attempts ex (\<lambda>_. None) a k) = Inl DeadlineExceeded"
  by (induction k arbitrary: a) (auto simp: attempts_udp_fail accepted_Udp Let_def split_beta)

lemma failing_query: "\<exists>e. fst (rv_query (netResolver conf (\<lambda>_ _. ex_wire)) n server m) = Inl e"
proof -
  have "snd (attempts (\<lambda>_ _. Inl Canceled) (\<lambda>_. None) a k) = Inl DeadlineExceeded" for a k
    by (rule attempts_all_fail) simp
  then show ?thesis
    by (auto simp: netResolver_def netQuery_def ex_wire_def Let_def split_beta
        split: prod.splits option.splits sum.splits) (metis snd_conv sum.distinct(1))+
qed

lemma ex_world_findings:
  "ar_findings (auditDomain ex_world opt i d) = [(ruleNew GeneralError d ''Initial resolution failed.'' [])\<lparr>f_zone := d\<rparr>]"
proof -
  let ?n = "newNetwork 0 (auditConfig None opt)"
  obtain e where "fst (runQuery (netResolver None (\<lambda>_ _. ex_wire)) opt (safeNewMsg plain_lib d TypeNS)
      \<lparr>rn_queries = 0, rn_res = ?n\<rparr>) = Inl e"
    using failing_query [of None ?n "opt_resolver opt"] by (fastforce simp: runQuery_def Let_def split_beta)
  then show ?thesis
    by (simp add: auditDomain_def ex_world_def run_def Let_def split_beta addFinding_def)
qed

lemma ex_parse:
  "parseFlags V [''-fail-on'', ''medium'', ''z''] defaultFlags = Inr (defaultFlags\<lparr>fl_failon := ''medium''\<rparr>, [''z''])"
  by (simp add: has_prefix_def flagBody_def splitFlag_def boolFlags_def setValue_def)

lemma ex_parse_quiet:
  "parseFlags V [''-quiet'', ''-fail-on'', ''medium'', ''z''] defaultFlags =
     Inr (defaultFlags\<lparr>fl_quiet := True, fl_failon := ''medium''\<rparr>, [''z''])"
  by (simp add: has_prefix_def flagBody_def splitFlag_def boolFlags_def setValue_def setBool_def)

theorem exit_status_threshold_witness:
  "\<forall>V vi. snd (snd (cliMain V (\<lambda>_. None) vi ex_world [''-fail-on'', ''medium'', ''z''])) = 1"
proof (intro allI)
  fix V vi
  let ?f = "defaultFlags\<lparr>fl_failon := ''medium''\<rparr>"
  have t: "failThreshold ?f = Inr 4"
    by (simp add: failThreshold_def parseSeverity_def severityNames_def severity_defs equal_fold_def
        to_lower_def lower_char_def)
  have r: "snd (domainReport (\<lambda>_. None) ex_world ?f x) \<noteq> None" for x
    by (simp add: domainReport_def writeReport_def render_def chooseFormat_def defaultFlags_def format_defs split: prod.split)
  show "snd (snd (cliMain V (\<lambda>_. None) vi ex_world [''-fail-on'', ''medium'', ''z''])) = 1"
    using exit_status_threshold [OF ex_parse _ _ _ _ t r, of V vi]
    by (simp add: defaultFlags_def chooseFormat_def format_defs ex_world_findings GeneralError_def severity_defs)
qed

theorem noise_flags_witness:
  "\<forall>V vi. fst (cliMain V (\<lambda>_. None) vi ex_world [''-quiet'', ''-fail-on'', ''medium'', ''z'']) =
     fst (cliMain V (\<lambda>_. None) vi ex_world [''-fail-on'', ''medium'', ''z''])"
proof (intro allI)
  fix V vi
  have "same_but_noise (defaultFlags\<lparr>fl_failon := ''medium''\<rparr>) (defaultFlags\<lparr>fl_quiet := True, fl_failon := ''medium''\<rparr>)"
    unfolding same_but_noise_def by (intro exI [of _ False] exI [of _ True]) (simp add: defaultFlags_def)
  from noise_flags [OF ex_parse ex_parse_quiet this]
  show "fst (cliMain V (\<lambda>_. None) vi ex_world [''-quiet'', ''-fail-on'', ''medium'', ''z'']) =
     fst (cliMain V (\<lambda>_. None) vi ex_world [''-fail-on'', ''medium'', ''z''])" by blast
qed

lemma versionSetting_commit: "fst kv \<noteq> ''vcs.commit'' \<Longrightarrow> vi_commit (versionSetting kv i) = vi_commit i"
  by (auto simp: versionSetting_def split_beta)

text \<open>
  The version shown: the version of the build, with the first twelve characters of the commit when
  there is one. The fallback to the build information reads the commit from the setting
  \<^verbatim>\<open>vcs.commit\<close> alone, so settings without that key, such as the \<^verbatim>\<open>vcs.revision\<close> that the Go
  toolchain records, never give a commit.
\<close>

theorem version_commit:
  assumes "\<And>kv. kv \<in> set settings \<Longrightarrow> fst kv \<noteq> ''vcs.commit''"
  shows "vi_commit (versionInit (Some settings) i) = vi_commit i \<and>
    versionString (versionInit (Some settings) (i\<lparr>vi_commit := ''''\<rparr>)) =
      (let v = vi_version (versionInit (Some settings) (i\<lparr>vi_commit := ''''\<rparr>)) in if v = '''' then ''0.1.0'' else v) \<and>
    (vi_version i \<noteq> '''' \<longrightarrow> vi_commit i \<noteq> '''' \<longrightarrow>
       versionString i = vi_version i @ '' ('' @ take 12 (vi_commit i) @ '')'')"
proof -
  have c: "vi_commit (fold versionSetting ss j) = vi_commit j" if "\<And>kv. kv \<in> set ss \<Longrightarrow> fst kv \<noteq> ''vcs.commit''" for ss j
    using that by (induction ss arbitrary: j) (auto simp: versionSetting_commit)
  show ?thesis using c [OF assms]
    by (auto simp: versionInit_def versionString_def goMin_def Let_def)
qed

theorem version_commit_witness:
  "vi_commit (versionInit (Some [(''vcs.revision'', ''deadbeef''), (''vcs.time'', ''t'')])
     \<lparr>vi_version = ''0.1.0'', vi_commit = '''', vi_date = ''''\<rparr>) = ''''"
proof -
  have "vi_commit (versionInit (Some [(''vcs.revision'', ''deadbeef''), (''vcs.time'', ''t'')]) i) = vi_commit i" for i
    by (rule version_commit [THEN conjunct1]) auto
  then show ?thesis by simp
qed

end
