(* ===== verification/Spec2Isabelle.thy ===== *)
theory Spec2Isabelle
  imports TypeBitmap Ledger ForgedZones ZoneRun Probes RsaZones Report Cli
begin

text \<open>
  ZoneLint: a read-only audit tool for DNS zones, written in Go. This development models the
  whole program under \<^verbatim>\<open>cmd/\<close> and \<^verbatim>\<open>internal/\<close> as executable definitions and proves what each
  part promises, what a whole run promises, and where the code departs from its own words.

  THE PROGRAM. \<^verbatim>\<open>cmd/zonelint/main.go\<close> parses flags, and for every domain builds a
  \<^verbatim>\<open>Runner\<close> (\<^verbatim>\<open>internal/audit/audit.go\<close>), runs it and writes a report
  (\<^verbatim>\<open>internal/report\<close>). A run asks a resolver (\<^verbatim>\<open>internal/resolver\<close>, bounded by
  \<^verbatim>\<open>internal/budget\<close>) for the records of the zone, passes them to one check per subject
  (\<^verbatim>\<open>delegation\<close>, \<^verbatim>\<open>authserver\<close>, \<^verbatim>\<open>soa\<close>, \<^verbatim>\<open>ttl\<close>, \<^verbatim>\<open>caa\<close>, \<^verbatim>\<open>addrs\<close>, \<^verbatim>\<open>cname\<close>, \<^verbatim>\<open>dnssec\<close>,
  \<^verbatim>\<open>nsec\<close>, \<^verbatim>\<open>axfr\<close>, \<^verbatim>\<open>wildcard\<close>, \<^verbatim>\<open>active\<close>), collects their findings and sorts them.

  THE THEORIES, in the order of the imports.
  \<^item> Prelude: bytes and machine words, association lists that stand for Go maps (\<open>slot\<close>, \<open>add_to\<close>,
    \<open>put\<close>), sections with nil entries (\<open>somes\<close>), removal of repeats (\<open>dedup_on\<close>), and the
    collections of rewrite rules the other theories add to.
  \<^item> GoStrings, GoSort, GoEncoding, GoNet: the functions of the Go library the source uses, with
    their laws: strings, stable sorting by a comparison (locale \<open>go_order\<close>), hex, base64 and
    base32hex, the classes and the text of IP addresses.
  \<^item> DnsLib: the data of the package \<^verbatim>\<open>miekg/dns\<close>. Its functions are the fields of the record
    \<open>dnslib\<close>, an argument of every definition that uses one; \<open>dns_names_ok\<close> and
    \<open>dns_reply_ok\<close> say what the source relies on, and \<open>plain_lib\<close> is an instance.
  \<^item> TypeBitmap and DnsUtil: \<^verbatim>\<open>internal/dns/util.go\<close>, extraction of records and canonical data.
  \<^item> Findings and Catalog: \<^verbatim>\<open>internal/findings\<close>. Every check is shown to report instances of
    catalog rules only; this contract is the locale \<open>checker\<close>, interpreted for each of them.
  \<^item> Addrs, Delegation, AuthServer, Soa, Ttl, Caa, Nsec, Active (with \<^verbatim>\<open>axfr\<close> and \<^verbatim>\<open>wildcard\<close>),
    Cname: the checks, each with the exact condition under which it reports.
  \<^item> Budget, Network, Concurrency, Ledger: \<^verbatim>\<open>internal/budget\<close> and \<^verbatim>\<open>internal/resolver/network.go\<close>.
    A counter is the locale \<open>allowance\<close>; one query is a function of what the wire answers; callers
    that share a resolver are the step relation \<open>pool_step\<close> with its invariant. The ledger is the
    abstract contract of the budget, queries left and queries in flight, which the counter, the
    limiter and the semaphore refine; the callers are through after at most four steps per caller
    in total.
  \<^item> FakeServer: \<^verbatim>\<open>internal/resolver/fake.go\<close>.
  \<^item> DnssecParse and DnssecChain: \<^verbatim>\<open>internal/dnssec\<close>: keys, key tags, signatures, digests, the
    octets a signature covers, the chain from a DS to a key, and the findings of a zone.
  \<^item> AuditRun and AuditFacts: \<^verbatim>\<open>internal/audit/audit.go\<close>, every step of \<^verbatim>\<open>Run\<close> over any resolver. What a
    run does to the state of its resolver is the locale \<open>run_relation\<close>, interpreted on the
    in-memory and on the network resolver. RunParts: the findings of a run are those of its steps,
    each under rules of its own, and all its requests go to one server.
  \<^item> KeyTypes: an inductive typing of keys; the keys of a run are well typed. RsaZones: a zone
    signed with RSA is rejected.
  \<^item> TestZones: \<^verbatim>\<open>testdata/testzones.go\<close>, the zones the tests run on and their signer. Signing: its
    signatures, key tag and DS are accepted by \<^verbatim>\<open>internal/dnssec\<close>. SignedZones: the verdict on
    records that one key signed. Fixtures: the signed test zone is such a zone. SignedRun and
    ForgedZones: whole runs on the in-memory server with a signed and with a tampered zone.
    ZoneRun: the address, CNAME and CAA findings of a run are those of the zone's records.
    Probes: what the transfers, the wildcard and the recursion probe of a run report there.
  \<^item> Report and Cli: \<^verbatim>\<open>internal/report\<close>, \<^verbatim>\<open>internal/version\<close> and \<^verbatim>\<open>cmd/zonelint\<close>.

  HOW THE CODE IS RENDERED. A struct is a record, a field of 8, 16 or 32 bits a word, an \<^verbatim>\<open>int\<close>
  an integer, a string a list of bytes. A nil pointer or slice that the code tells apart is
  \<^term>\<open>None\<close>; an error is the left of a sum; a panic is \<^term>\<open>None\<close> of an outer option. A Go map is an
  association list in the order of one range over it, so that a fact proved for every list
  holds for every order. Where the model has to build such a list itself (the tables of \<open>collect\<close>, the
  choice of \<open>keyForKeyTag\<close>, the statistics of \<open>sigStats\<close>, the zones of \<open>zoneReply\<close>) it keeps one
  order, the order of insertion, while Go draws a new one for each range. A loop is a recursion; state that a method changes is returned.
  A mutex is the atomicity of the operation it guards.

  BOUNDS. No fuel is used: the walks of the CNAME graph recurse with the cap of 100 names the
  source has, and the other loops are structural. A transfer is bounded by 100000 records as
  in the source. Keys are assumed to fit a record (65531 bytes) where the key tag is shown to
  agree with RFC 4034.

  WHAT THE LEMMAS SHOW. Every check: its findings are well formed (the lemmas ending in
  \<open>_wf\<close>) and its reports are exactly those of a condition on the records (\<open>_reports\<close>).
  The budget: at most the granted number of queries, every slot given back, on every path and
  under every interleaving. DNSSEC: the verdict of the chain and of every signature is
  characterised; the encoders agree with the RFCs where they do; what the signer of the tests
  makes verifies. A run: sorted, well-formed findings, the number of its queries, the union of
  the records it gathers; a signed zone is called valid, with no failure and no complaint about
  denial of existence that its records do not give cause for; one with a forged record set is not; the
  findings on signatures are one for each set that never verified, and name it; the probes
  report what the server allows, but always of the one server the options name.
  The command line: the flag parser accepts exactly the language of the relation \<open>spelling\<close>, settings
  with one or two dashes, then the domains; the status is one exactly when a finding reaches the
  threshold; verbosity changes the error stream alone.

  Several theorems state what the code does where it is not what it means to do: the rate
  limiter that never waits, RSA signatures that never verify, the transfer bound exceeded by
  one, transfers refused over the network reported as allowed, the critical bit of CAA.

  The network resolver: a wait that blocks for ever, and a nil response, become \<open>DeadlineExceeded\<close> in
  \<open>netResolver\<close>; a cancelled wait always gives \<open>Canceled\<close>; \<open>netTransfer\<close> takes what the wire answered
  as an argument and so has no server; \<open>netSend\<close>, one send raced with its context, stands beside
  \<open>netQuery\<close>, which takes the outcomes of its sends as an argument.

  NOT MODELLED. The wire itself, the clock and the random bytes, which are arguments; the
  cryptographic primitives, fields of the record \<open>crypto\<close>; the text of the JSON encoder, of the
  flag package and of durations, which are arguments; the tests and build files.
\<close>

end
